(* ===== verification/Nvme_Prelude.thy ===== *)
theory Nvme_Prelude
  imports Main "HOL-Library.Word"
begin

text \<open>
  Shared vocabulary of the development: the machine integers of the Rust code, the result
  of a fallible call (a value, an \<open>io::Error\<close> or a panic), a state-passing program type
  with the sequencing that Rust's \<open>?\<close> operator and panics give, little-endian byte encodings, and byte-addressed memory.

  Arithmetic that is not checked in the source is the wrapping arithmetic of \<open>'a word\<close>:
  the repository is built with \<open>cargo build --release\<close> (README.md, nvmetoy.sh), where
  overflow wraps, shift amounts are masked and \<open>debug_assert!\<close> is compiled out.
\<close>

unbundle bit_operations_syntax

section \<open>Machine integers\<close>

type_synonym u8 = "8 word"
type_synonym u16 = "16 word"
type_synonym u32 = "32 word"
type_synonym u64 = "64 word"
type_synonym usize = "64 word"

text \<open>\<open>checked_add\<close> and \<open>checked_mul\<close> of the Rust integer types.\<close>

definition checked_add :: "'a::len word \<Rightarrow> 'a word \<Rightarrow> 'a word option" where
  "checked_add x y = (if unat x + unat y < 2 ^ LENGTH('a) then Some (x + y) else None)"

definition checked_mul :: "'a::len word \<Rightarrow> 'a word \<Rightarrow> 'a word option" where
  "checked_mul x y = (if unat x * unat y < 2 ^ LENGTH('a) then Some (x * y) else None)"

text \<open>The shift \<open>x << n\<close> of a release build masks the shift amount to the width.\<close>

definition shl_masked :: "'a::len word \<Rightarrow> nat \<Rightarrow> 'a word" where
  "shl_masked x n = push_bit (n mod LENGTH('a)) x"

text \<open>\<open>usize::div_ceil\<close>: quotient, plus one when there is a remainder.\<close>

definition div_ceil :: "'a::len word \<Rightarrow> 'a word \<Rightarrow> 'a word" where
  "div_ceil x y = (if x mod y = 0 then x div y else x div y + 1)"

named_theorems word_nat "facts that move word arithmetic to the naturals"

lemma checked_add_Some [word_nat]:
  "checked_add x y = Some z \<longleftrightarrow> unat x + unat y < 2 ^ LENGTH('a) \<and> z = x + y"
  for x y z :: "'a::len word"
  by (auto simp: checked_add_def)

lemma checked_add_None [word_nat]:
  "checked_add x y = None \<longleftrightarrow> 2 ^ LENGTH('a) \<le> unat x + unat y" for x y :: "'a::len word"
  by (auto simp: checked_add_def)

lemma unat_add_no_wrap:
  "unat x + unat y < 2 ^ LENGTH('a) \<Longrightarrow> unat (x + y) = unat x + unat y"
  for x y :: "'a::len word"
  by (simp add: unat_word_ariths)

lemma unat_mult_no_wrap:
  "unat x * unat y < 2 ^ LENGTH('a) \<Longrightarrow> unat (x * y) = unat x * unat y"
  for x y :: "'a::len word"
  by (simp add: unat_word_ariths)

lemma unat_checked_add: "checked_add x y = Some z \<Longrightarrow> unat z = unat x + unat y"
  by (auto simp: checked_add_Some unat_add_no_wrap)

lemma unat_of_nat_small: "n < 2 ^ LENGTH('a) \<Longrightarrow> unat (of_nat n :: 'a::len word) = n"
  by (simp add: unat_of_nat)

lemma nat_ceil_div:
  fixes a b :: nat
  assumes "0 < b"
  shows "(a + b - Suc 0) div b = (if a mod b = 0 then a div b else a div b + 1)"
proof -
  have "a + b - Suc 0 = a div b * b + (a mod b + b - Suc 0)"
    using assms div_mult_mod_eq [of a b] by linarith
  then have "(a + b - Suc 0) div b = a div b + (a mod b + b - Suc 0) div b"
    using assms by (metis div_mult_self3 neq0_conv)
  moreover have "(a mod b + b - Suc 0) div b = (if a mod b = 0 then 0 else 1)"
  proof (cases "a mod b = 0")
    case False
    then have "a mod b + b - Suc 0 = b + (a mod b - 1)" by simp
    then have "(a mod b + b - Suc 0) div b = 1 + (a mod b - 1) div b"
      using assms by (simp only: div_add_self1 not_gr0 neq0_conv add.commute)
    moreover have "a mod b - 1 < b" using assms by (simp add: less_imp_diff_less)
    ultimately show ?thesis using False by simp
  qed (use assms in simp)
  ultimately show ?thesis by simp
qed

lemma unat_div_ceil:
  fixes x y :: "'a::len word"
  assumes "0 < unat y"
  shows "unat (div_ceil x y) = (unat x + unat y - Suc 0) div unat y"
proof (cases "unat x mod unat y = 0")
  case True
  then have "x mod y = 0" by (metis unat_mod unsigned_eq_0_iff)
  then show ?thesis using True assms by (simp add: div_ceil_def unat_div nat_ceil_div)
next
  case False
  then have nz: "x mod y \<noteq> 0" by (metis unat_mod unsigned_0)
  have "unat y \<noteq> 1" and "unat x \<noteq> 0" using False by (auto intro: ccontr)
  with assms have "unat x div unat y < unat x" by simp
  moreover have "unat x < 2 ^ LENGTH('a)" by simp
  ultimately have "unat (x div y) + 1 < 2 ^ LENGTH('a)" by (simp only: unat_div)
  then have "unat (x div y + 1) = unat x div unat y + 1"
    by (subst unat_add_no_wrap) (simp_all add: unat_div)
  with nz False assms show ?thesis by (simp add: div_ceil_def nat_ceil_div)
qed

lemma unat_ucast_up:
  assumes "LENGTH('a) \<le> LENGTH('b)"
  shows "unat (ucast (w :: 'a::len word) :: 'b::len word) = unat w"
proof -
  have "unat w < 2 ^ LENGTH('a)" by simp
  also have "\<dots> \<le> 2 ^ LENGTH('b)" using assms by (rule power_increasing) simp
  finally show ?thesis by (simp add: unsigned_ucast_eq take_bit_nat_eq_self)
qed

lemma unat_eqD: "unat w = n \<Longrightarrow> w = of_nat n" for w :: "'a::len word"
  by auto

lemma of_nat_mod_len: "(of_nat (m mod 2 ^ LENGTH('a)) :: 'a::len word) = of_nat m"
  by (metis take_bit_eq_mod word_of_nat_eq_iff take_bit_take_bit min.idem)

lemma of_nat_eq_close:
  assumes "(of_nat m :: 'a::len word) = of_nat n" and "n \<le> m" and "m < n + 2 ^ LENGTH('a)"
  shows "m = n"
proof -
  from assms(1) have "m mod 2 ^ LENGTH('a) = n mod 2 ^ LENGTH('a)" by (metis unat_of_nat)
  then have "2 ^ LENGTH('a) dvd m - n" using assms(2) by (simp add: mod_eq_dvd_iff_nat)
  then show "m = n" using assms(2,3) by (auto dest: dvd_imp_le)
qed

text \<open>Masks and shifts, read as remainder and quotient.\<close>

lemma unat_and_mask: "unat (w AND mask n) = unat w mod 2 ^ n" for w :: "'a::len word"
proof -
  have "unat (w AND mask n) = take_bit n (unat w)"
    by (simp only: unsigned_take_bit_eq flip: take_bit_eq_mask)
  then show ?thesis by (simp only: take_bit_eq_mod)
qed

lemma unat_drop_bit: "unat (drop_bit n w) = unat w div 2 ^ n" for w :: "'a::len word"
proof -
  have "unat (drop_bit n w) = drop_bit n (take_bit LENGTH('a) (unat w))"
    by (rule unsigned_drop_bit_eq)
  then show ?thesis by (simp only: take_bit_nat_eq_self unsigned_less drop_bit_eq_div)
qed

lemma low_masks:
  "0xFF = (mask 8 :: 'a::len word)" "0xFFFF = (mask 16 :: 'a::len word)"
  "0x7 = (mask 3 :: 'a::len word)" "0xF = (mask 4 :: 'a::len word)"
  "0xFFF = (mask 12 :: 'a::len word)"
  by (simp_all add: mask_eq_exp_minus_1)

lemma and_one_iff_odd: "w AND 1 \<noteq> 0 \<longleftrightarrow> odd (unat w)" for w :: "'a::len word"
proof -
  have "(1 :: 'a word) = mask 1" by (simp add: mask_eq_exp_minus_1)
  then have "w AND 1 \<noteq> 0 \<longleftrightarrow> unat (w AND mask 1) \<noteq> 0"
    by (simp only: unsigned_eq_0_iff not_False_eq_True)
  then show ?thesis by (simp only: unat_and_mask odd_iff_mod_2_eq_one) simp
qed

lemmas unat_bits = low_masks unsigned_ucast_eq unat_and_mask unat_drop_bit take_bit_eq_mod

section \<open>Results of fallible calls\<close>

text \<open>
  Text is a list of Unicode scalar values (Rust's \<open>char\<close>). \<open>io_error\<close> has one constructor
  per error message of the crate, with the values the message interpolates;
  \<open>OsError\<close> stands for an error the operating system or the standard library reports.
  \<open>panic\<close> has one constructor per kind of panic the code can raise.
\<close>

type_synonym rtext = "nat list"

abbreviation txt_of :: "string \<Rightarrow> rtext" where
  "txt_of s \<equiv> map of_char s"

datatype io_error =
    OsError nat
  | PageNotPresent
  | CidMismatch u16 u16
  | PollTimedOut
  | FatalStatus
  | ReadyTimedOut
  | IdentifyControllerTooShort
  | IdentifyNamespaceTooShort
  | SqEntrySizeExcluded u8 u8
  | CqEntrySizeExcluded u8 u8
  | CommandFailed string u8 u8
  | ReadOfZeroBlocks
  | ReadLargerThanBuffer
  | WriteLengthNotMultiple
  | WriteLargerThanBuffer
  | KernelDriverBound
  | RangeOverflows
  | BlockNotInFile u64
  | MalformedMapLine rtext
  | CannotParse rtext
  | MissingArgument string
  | ReadTooLargeForCommand
  | PayloadNotMultiple usize
  | BlockCountZero
  | FillExceedsLimit u64
  | RangeDoesNotFit usize usize usize
  | NothingToWrite
  | UnknownCommand
  | FillCharNotAscii rtext
  | OpenFailed io_error
  | ReadlineFailed

datatype panic =
    OffsetOverflow
  | AccessOutOfBounds usize usize usize
  | AccessUnaligned usize usize
  | SliceOutOfRange
  | DivideByZero
  | CapacityOverflow

datatype 'a outcome = Ok 'a | Err io_error | Panic panic

text \<open>An outcome whose failures are not told apart.\<close>

definition answer :: "'a outcome \<Rightarrow> 'a option" where
  "answer r = (case r of Ok x \<Rightarrow> Some x | _ \<Rightarrow> None)"

lemma answer_simps [simp]: "answer (Ok x) = Some x" "answer (Err e) = None" "answer (Panic q) = None"
  by (simp_all add: answer_def)

lemma answer_Some: "answer r = Some x \<longleftrightarrow> r = Ok x"
  by (cases r) simp_all

section \<open>Programs over a state\<close>

text \<open>
  A method that may change a state \<open>'s\<close> and returns \<open>io::Result<'a>\<close> (or panics) is a
  function from the state to an outcome and the state afterwards; the state is returned on
  errors too, because what was written before an early return stays written.
  \<open>p \<bind> f\<close> is written \<open>andthen p f\<close>: it is the \<open>?\<close> operator.
\<close>

type_synonym ('s, 'a) prog = "'s \<Rightarrow> 'a outcome \<times> 's"

definition ret :: "'a \<Rightarrow> ('s, 'a) prog" where
  "ret x = (\<lambda>s. (Ok x, s))"

definition fail :: "io_error \<Rightarrow> ('s, 'a) prog" where
  "fail e = (\<lambda>s. (Err e, s))"

definition crash :: "panic \<Rightarrow> ('s, 'a) prog" where
  "crash p = (\<lambda>s. (Panic p, s))"

definition andthen :: "('s, 'a) prog \<Rightarrow> ('a \<Rightarrow> ('s, 'b) prog) \<Rightarrow> ('s, 'b) prog" where
  "andthen p f = (\<lambda>s. case p s of
     (Ok x, s') \<Rightarrow> f x s' | (Err e, s') \<Rightarrow> (Err e, s') | (Panic q, s') \<Rightarrow> (Panic q, s'))"

definition of_outcome :: "'a outcome \<Rightarrow> ('s, 'a) prog" where
  "of_outcome r = (\<lambda>s. (r, s))"

definition gets :: "('s \<Rightarrow> 'a) \<Rightarrow> ('s, 'a) prog" where
  "gets f = (\<lambda>s. (Ok (f s), s))"

definition modify :: "('s \<Rightarrow> 's) \<Rightarrow> ('s, unit) prog" where
  "modify f = (\<lambda>s. (Ok (), f s))"

text \<open>Running a program on one component of a pair state.\<close>

definition on_fst :: "('s, 'a) prog \<Rightarrow> ('s \<times> 't, 'a) prog" where
  "on_fst p = (\<lambda>(s, t). case p s of (r, s') \<Rightarrow> (r, (s', t)))"

definition on_snd :: "('t, 'a) prog \<Rightarrow> ('s \<times> 't, 'a) prog" where
  "on_snd p = (\<lambda>(s, t). case p t of (r, t') \<Rightarrow> (r, (s, t')))"

named_theorems run_simps "evaluation of programs"

lemma run_ret [run_simps]: "ret x s = (Ok x, s)"
  by (simp add: ret_def)

lemma run_fail [run_simps]: "fail e s = (Err e, s)"
  by (simp add: fail_def)

lemma run_crash [run_simps]: "crash p s = (Panic p, s)"
  by (simp add: crash_def)

lemma run_of_outcome [run_simps]: "of_outcome r s = (r, s)"
  by (simp add: of_outcome_def)

lemma run_gets [run_simps]: "gets f s = (Ok (f s), s)"
  by (simp add: gets_def)

lemma run_modify [run_simps]: "modify f s = (Ok (), f s)"
  by (simp add: modify_def)

lemma run_on_fst [run_simps]: "on_fst p (s, t) = (fst (p s), (snd (p s), t))"
  by (simp add: on_fst_def split: prod.split)

lemma run_on_snd [run_simps]: "on_snd p (s, t) = (fst (p t), (s, snd (p t)))"
  by (simp add: on_snd_def split: prod.split)

lemma run_andthen [run_simps]:
  "andthen p f s = (case fst (p s) of
     Ok x \<Rightarrow> f x (snd (p s)) | Err e \<Rightarrow> (Err e, snd (p s)) | Panic q \<Rightarrow> (Panic q, snd (p s)))"
  by (simp add: andthen_def split: prod.split outcome.split)

lemma andthen_assoc: "andthen (andthen p f) g = andthen p (\<lambda>x. andthen (f x) g)"
  by (rule ext) (simp add: andthen_def split: prod.split outcome.split)

lemma andthen_ret [simp]: "andthen (ret x) f = f x" "andthen p ret = p"
  by (auto simp: andthen_def ret_def fun_eq_iff split: prod.split outcome.split)

section \<open>Bytes and memory\<close>

text \<open>Little-endian encodings (\<open>to_le_bytes\<close>, \<open>from_le_bytes\<close>).\<close>

definition le_bytes :: "nat \<Rightarrow> 'a::len word \<Rightarrow> u8 list" where
  "le_bytes n w = map (\<lambda>i. ucast (drop_bit (8 * i) w)) [0..<n]"

fun of_le :: "u8 list \<Rightarrow> 'a::len word" where
  "of_le [] = 0"
| "of_le (b # bs) = ucast b OR push_bit 8 (of_le bs)"

lemma length_le_bytes [simp]: "length (le_bytes n w) = n"
  by (simp add: le_bytes_def)

lemma bit_of_le:
  "bit (of_le bs :: 'a::len word) k \<longleftrightarrow>
     k < LENGTH('a) \<and> k div 8 < length bs \<and> bit (bs ! (k div 8)) (k mod 8)"
proof (induction bs arbitrary: k)
  case Nil
  then show ?case by simp
next
  case (Cons b bs)
  show ?case
  proof (cases "k < 8")
    case True
    then show ?thesis by (auto simp: bit_or_iff bit_push_bit_iff bit_ucast_iff)
  next
    case False
    then obtain j where k: "k = 8 + j" by (metis add.commute le_Suc_ex not_less)
    have "\<not> bit b k" using False by (auto dest: bit_imp_le_length)
    moreover have "(8 + j) div 8 = Suc (j div 8)" by simp
    ultimately show ?thesis
      by (auto simp: k bit_or_iff bit_push_bit_iff bit_ucast_iff Cons.IH simp del: div_add_self1)
  qed
qed

lemma of_le_le_bytes:
  "LENGTH('a) \<le> 8 * n \<Longrightarrow> of_le (le_bytes n w) = w" for w :: "'a::len word"
proof (rule bit_eqI)
  fix k assume "LENGTH('a) \<le> 8 * n"
  then have "bit w k \<Longrightarrow> k div 8 < n" by (auto dest: bit_imp_le_length)
  then show "bit (of_le (le_bytes n w) :: 'a word) k = bit w k"
    by (auto simp: bit_of_le le_bytes_def bit_ucast_iff bit_drop_bit_eq dest: bit_imp_le_length)
qed

lemma le_bytes_of_le:
  assumes "8 * length bs = LENGTH('a)"
  shows "le_bytes (length bs) (of_le bs :: 'a::len word) = bs"
proof (rule nth_equalityI)
  fix i assume i: "i < length (le_bytes (length bs) (of_le bs :: 'a word))"
  show "le_bytes (length bs) (of_le bs :: 'a word) ! i = bs ! i"
  proof (rule bit_eqI)
    fix k :: nat assume "possible_bit TYPE(u8) k"
    then have "k < 8" by simp
    then show "bit (le_bytes (length bs) (of_le bs :: 'a word) ! i) k = bit (bs ! i) k"
      using i assms by (auto simp: le_bytes_def bit_ucast_iff bit_drop_bit_eq bit_of_le)
  qed
qed simp

lemma le_bytes_slice:
  assumes "n \<le> length bs - k" and "8 * n = LENGTH('a)"
  shows "le_bytes n (of_le (take n (drop k bs)) :: 'a::len word) = take n (drop k bs)"
proof -
  have "length (take n (drop k bs)) = n" using assms by simp
  then show ?thesis using assms le_bytes_of_le [where 'a = 'a, of "take n (drop k bs)"] by simp
qed

lemma take_drop_append: "a + k = j \<Longrightarrow> take a (drop k bs) @ drop j bs = drop k bs"
  by (metis add.commute append_take_drop_id drop_drop)

text \<open>
  A memory region is addressed by byte offset; \<open>load\<close> and \<open>store\<close> copy a run of bytes.
\<close>

type_synonym mem = "nat \<Rightarrow> u8"

definition load :: "mem \<Rightarrow> nat \<Rightarrow> nat \<Rightarrow> u8 list" where
  "load m off n = map m [off..<off + n]"

definition store :: "mem \<Rightarrow> nat \<Rightarrow> u8 list \<Rightarrow> mem" where
  "store m off bs = (\<lambda>i. if off \<le> i \<and> i < off + length bs then bs ! (i - off) else m i)"

lemma length_load [simp]: "length (load m off n) = n"
  by (simp add: load_def)

lemma nth_load [simp]: "i < n \<Longrightarrow> load m off n ! i = m (off + i)"
  by (simp add: load_def)

lemma load_store_same: "load (store m off bs) off (length bs) = bs"
  by (rule nth_equalityI) (simp_all add: store_def)

lemma load_store_disjoint:
  "off + n \<le> off' \<or> off' + length bs \<le> off \<Longrightarrow> load (store m off' bs) off n = load m off n"
  by (rule nth_equalityI) (auto simp: store_def)

lemma store_outside: "i < off \<or> off + length bs \<le> i \<Longrightarrow> store m off bs i = m i"
  by (auto simp: store_def)

lemma load_cong: "(\<And>i. off \<le> i \<Longrightarrow> i < off + n \<Longrightarrow> m i = m' i) \<Longrightarrow> load m off n = load m' off n"
  by (simp add: load_def)

lemma load_append: "load m off (a + b) = load m off a @ load m (off + a) b"
  by (simp add: load_def upt_add_eq_append [symmetric] flip: add.assoc map_append)

end
