(* ===== verification/Rust_Layout.thy ===== *)
theory Rust_Layout
  imports Nvme_Prelude
begin

text \<open>
  The memory representation of the crate's \<open>#[repr(C)]\<close> types: the layout algorithm that
  gives each field its offset, and the byte representation of a \<open>Copy\<close> type that the DMA
  accessors are generic in. The interface \<open>byte_repr\<close> states what the typed accessors
  rely on; the integer types are interpreted here, the queue entries in \<open>Nvme_Spec\<close>.
\<close>

section \<open>repr(C) layout\<close>

datatype ctype =
    U8
  | U16
  | U32
  | U64
  | Array ctype nat
  | Struct "(string \<times> ctype) list"

definition round_up :: "nat \<Rightarrow> nat \<Rightarrow> nat" where
  "round_up n a = (if n mod a = 0 then n else n + (a - n mod a))"

fun align_of :: "ctype \<Rightarrow> nat" and align_fields :: "(string \<times> ctype) list \<Rightarrow> nat" where
  "align_of U8 = 1"
| "align_of U16 = 2"
| "align_of U32 = 4"
| "align_of U64 = 8"
| "align_of (Array t n) = align_of t"
| "align_of (Struct fs) = align_fields fs"
| "align_fields [] = 1"
| "align_fields ((f, t) # fs) = max (align_of t) (align_fields fs)"

text \<open>\<open>end_of off fs\<close> is the offset just after the fields \<open>fs\<close>, laid out from \<open>off\<close>.\<close>

fun size_of :: "ctype \<Rightarrow> nat" and end_of :: "nat \<Rightarrow> (string \<times> ctype) list \<Rightarrow> nat" where
  "size_of U8 = 1"
| "size_of U16 = 2"
| "size_of U32 = 4"
| "size_of U64 = 8"
| "size_of (Array t n) = n * size_of t"
| "size_of (Struct fs) = round_up (end_of 0 fs) (align_fields fs)"
| "end_of off [] = off"
| "end_of off ((f, t) # fs) = end_of (round_up off (align_of t) + size_of t) fs"

text \<open>Name, offset and size of every field, in declaration order.\<close>

fun layout_from :: "nat \<Rightarrow> (string \<times> ctype) list \<Rightarrow> (string \<times> nat \<times> nat) list" where
  "layout_from off [] = []"
| "layout_from off ((f, t) # fs) =
     (f, round_up off (align_of t), size_of t) #
     layout_from (round_up off (align_of t) + size_of t) fs"

definition offset_of :: "(string \<times> ctype) list \<Rightarrow> string \<Rightarrow> nat option" where
  "offset_of fs f = map_option fst (map_of (layout_from 0 fs) f)"

text \<open>
  No implicit padding: each field starts where the one before it ends. Then the struct is
  exactly the bytes of its declared fields.
\<close>

fun tiles :: "nat \<Rightarrow> (string \<times> nat \<times> nat) list \<Rightarrow> nat \<Rightarrow> bool" where
  "tiles off [] stop = (off = stop)"
| "tiles off ((f, o', n) # fs) stop = (o' = off \<and> tiles (off + n) fs stop)"

lemma tiles_end: "tiles off (layout_from off fs) stop \<Longrightarrow> end_of off fs = stop"
proof (induction fs arbitrary: off)
  case (Cons ft fs)
  obtain f t where ft: "ft = (f, t)" by (cases ft)
  with Cons.prems have "round_up off (align_of t) = off"
    and "tiles (off + size_of t) (layout_from (off + size_of t) fs) stop"
    by auto
  with Cons.IH show ?case by (simp add: ft)
qed simp

text \<open>The bytes of a field of a struct value, and a scalar field's value.\<close>

definition field_bytes :: "(string \<times> ctype) list \<Rightarrow> string \<Rightarrow> u8 list \<Rightarrow> u8 list" where
  "field_bytes fs f data =
     (case map_of (layout_from 0 fs) f of
        Some (off, n) \<Rightarrow> take n (drop off data)
      | None \<Rightarrow> [])"

definition field_le :: "(string \<times> ctype) list \<Rightarrow> string \<Rightarrow> u8 list \<Rightarrow> 'a::len word" where
  "field_le fs f data = of_le (field_bytes fs f data)"

section \<open>Byte representations\<close>

record 'a repr =
  rsize :: nat
  ralign :: nat
  encode :: "'a \<Rightarrow> u8 list"
  decode :: "u8 list \<Rightarrow> 'a"

locale byte_repr =
  fixes r :: "'a repr"
  assumes length_encode: "length (encode r x) = rsize r"
    and decode_encode: "decode r (encode r x) = x"
    and encode_decode: "length bs = rsize r \<Longrightarrow> encode r (decode r bs) = bs"
    and align_pos: "0 < ralign r"
    and align_dvd_size: "ralign r dvd rsize r"
    and size_small: "rsize r < 2 ^ 64" and align_small: "ralign r < 2 ^ 64"
begin

lemma encode_inject: "encode r x = encode r y \<longleftrightarrow> x = y"
  using decode_encode by metis

lemma typed_load_store: "decode r (load (store m off (encode r x)) off (rsize r)) = x"
  using load_store_same [of m off "encode r x"] by (simp add: length_encode decode_encode)

lemma typed_load_disjoint:
  assumes "off + n \<le> off' \<or> off' + rsize r \<le> off"
  shows "load (store m off' (encode r x)) off n = load m off n"
  using assms by (intro load_store_disjoint) (auto simp: length_encode)

lemma store_load_id: "store m off (encode r (decode r (load m off (rsize r)))) = m"
  by (rule ext) (auto simp: store_def encode_decode)

end

definition word_repr :: "nat \<Rightarrow> 'a::len word repr" where
  "word_repr n = \<lparr>rsize = n, ralign = n, encode = le_bytes n, decode = of_le\<rparr>"

lemma word_repr_simps [simp]:
  "rsize (word_repr n) = n" "ralign (word_repr n) = n"
  "encode (word_repr n) = le_bytes n" "decode (word_repr n) = of_le"
  by (simp_all add: word_repr_def)

lemma byte_repr_word:
  assumes "8 * n = LENGTH('a)" and "n < 2 ^ 64"
  shows "byte_repr (word_repr n :: 'a::len word repr)"
proof
  show "0 < ralign (word_repr n :: 'a word repr)" using assms by (cases n) auto
  show "encode (word_repr n :: 'a word repr) (decode (word_repr n) bs) = bs"
    if "length bs = rsize (word_repr n :: 'a word repr)" for bs
    using that assms le_bytes_of_le [where 'a = 'a, of bs] by simp
qed (use assms in \<open>simp_all add: of_le_le_bytes\<close>)

abbreviation u32_repr :: "u32 repr" where "u32_repr \<equiv> word_repr 4"
abbreviation u64_repr :: "u64 repr" where "u64_repr \<equiv> word_repr 8"

interpretation u32r: byte_repr u32_repr
  by (rule byte_repr_word) simp_all

interpretation u64r: byte_repr u64_repr
  by (rule byte_repr_word) simp_all

end
