(* ===== verification/Nvme_Spec.thy ===== *)
theory Nvme_Spec
  imports Rust_Layout
begin

text \<open>
  \<open>src/nvme_spec.rs\<close>: register offsets, opcodes, the submission and completion queue
  entries, and the Identify data structures. The queue entries are records with their byte
  representation; the Identify structures, which the code only reads field by field, are
  kept as their declared fields in order, from which the \<open>repr(C)\<close> algorithm computes the
  offsets.
\<close>

unbundle bit_operations_syntax

section \<open>Registers\<close>

definition CAP :: usize where "CAP = 0x00"
definition CC :: usize where "CC = 0x14"
definition CSTS :: usize where "CSTS = 0x1C"
definition AQA :: usize where "AQA = 0x24"
definition ASQ :: usize where "ASQ = 0x28"
definition ACQ :: usize where "ACQ = 0x30"
definition DOORBELL_BASE :: usize where "DOORBELL_BASE = 0x1000"

lemmas register_defs = CAP_def CC_def CSTS_def AQA_def ASQ_def ACQ_def DOORBELL_BASE_def

section \<open>Opcodes\<close>

text \<open>Constructors are prefixed where the two command sets or the library share a name.\<close>

datatype admin_opcode =
    AdmDeleteIoSubmissionQueue | AdmCreateIoSubmissionQueue | AdmGetLogPage
  | AdmDeleteIoCompletionQueue | AdmCreateIoCompletionQueue | AdmIdentify | AdmAbort
  | AdmSetFeatures | AdmGetFeatures | AdmAsyncEventRequest | AdmNamespaceManagement
  | AdmFirmwareCommit | AdmFirmwareImageDownload | AdmDeviceSelfTest | AdmNamespaceAttachment
  | AdmKeepAlive | AdmDirectiveSend | AdmDirectiveReceive | AdmVirtualizationManagement
  | AdmNvmeMiSend | AdmNvmeMiReceive | AdmCapacityManagement
  | AdmDiscoveryInformationManagement | AdmFabricZoningReceive | AdmLockdown
  | AdmFabricZoningLookup | AdmClearExportedNvmResourceConfiguration | AdmFabricZoningSend
  | AdmCreateExportedNvmSubsystem | AdmManageExportedNvmSubsystem | AdmManageExportedNamespace
  | AdmManageExportedPort | AdmCrossControllerReset | AdmSendDiscoveryLogPage | AdmTrackSend
  | AdmTrackReceive | AdmMigrationSend | AdmMigrationReceive | AdmControllerDataQueue
  | AdmDoorbellBufferConfig | AdmFabricsCommands | AdmFormatNvm | AdmSecuritySend
  | AdmSecurityReceive | AdmSanitize | AdmLoadProgram | AdmGetLbaStatus
  | AdmProgramActivationManagement | AdmMemoryRangeSetManagement | AdmSanitizeNamespace

primrec admin_opcode_u8 :: "admin_opcode \<Rightarrow> u8" where
  "admin_opcode_u8 AdmDeleteIoSubmissionQueue = 0x00"
| "admin_opcode_u8 AdmCreateIoSubmissionQueue = 0x01"
| "admin_opcode_u8 AdmGetLogPage = 0x02"
| "admin_opcode_u8 AdmDeleteIoCompletionQueue = 0x04"
| "admin_opcode_u8 AdmCreateIoCompletionQueue = 0x05"
| "admin_opcode_u8 AdmIdentify = 0x06"
| "admin_opcode_u8 AdmAbort = 0x08"
| "admin_opcode_u8 AdmSetFeatures = 0x09"
| "admin_opcode_u8 AdmGetFeatures = 0x0a"
| "admin_opcode_u8 AdmAsyncEventRequest = 0x0c"
| "admin_opcode_u8 AdmNamespaceManagement = 0x0d"
| "admin_opcode_u8 AdmFirmwareCommit = 0x10"
| "admin_opcode_u8 AdmFirmwareImageDownload = 0x11"
| "admin_opcode_u8 AdmDeviceSelfTest = 0x14"
| "admin_opcode_u8 AdmNamespaceAttachment = 0x15"
| "admin_opcode_u8 AdmKeepAlive = 0x18"
| "admin_opcode_u8 AdmDirectiveSend = 0x19"
| "admin_opcode_u8 AdmDirectiveReceive = 0x1a"
| "admin_opcode_u8 AdmVirtualizationManagement = 0x1c"
| "admin_opcode_u8 AdmNvmeMiSend = 0x1d"
| "admin_opcode_u8 AdmNvmeMiReceive = 0x1e"
| "admin_opcode_u8 AdmCapacityManagement = 0x20"
| "admin_opcode_u8 AdmDiscoveryInformationManagement = 0x21"
| "admin_opcode_u8 AdmFabricZoningReceive = 0x22"
| "admin_opcode_u8 AdmLockdown = 0x24"
| "admin_opcode_u8 AdmFabricZoningLookup = 0x25"
| "admin_opcode_u8 AdmClearExportedNvmResourceConfiguration = 0x28"
| "admin_opcode_u8 AdmFabricZoningSend = 0x29"
| "admin_opcode_u8 AdmCreateExportedNvmSubsystem = 0x2a"
| "admin_opcode_u8 AdmManageExportedNvmSubsystem = 0x2d"
| "admin_opcode_u8 AdmManageExportedNamespace = 0x31"
| "admin_opcode_u8 AdmManageExportedPort = 0x35"
| "admin_opcode_u8 AdmCrossControllerReset = 0x38"
| "admin_opcode_u8 AdmSendDiscoveryLogPage = 0x39"
| "admin_opcode_u8 AdmTrackSend = 0x3d"
| "admin_opcode_u8 AdmTrackReceive = 0x3e"
| "admin_opcode_u8 AdmMigrationSend = 0x41"
| "admin_opcode_u8 AdmMigrationReceive = 0x42"
| "admin_opcode_u8 AdmControllerDataQueue = 0x45"
| "admin_opcode_u8 AdmDoorbellBufferConfig = 0x7c"
| "admin_opcode_u8 AdmFabricsCommands = 0x7f"
| "admin_opcode_u8 AdmFormatNvm = 0x80"
| "admin_opcode_u8 AdmSecuritySend = 0x81"
| "admin_opcode_u8 AdmSecurityReceive = 0x82"
| "admin_opcode_u8 AdmSanitize = 0x84"
| "admin_opcode_u8 AdmLoadProgram = 0x85"
| "admin_opcode_u8 AdmGetLbaStatus = 0x86"
| "admin_opcode_u8 AdmProgramActivationManagement = 0x88"
| "admin_opcode_u8 AdmMemoryRangeSetManagement = 0x89"
| "admin_opcode_u8 AdmSanitizeNamespace = 0x8c"

datatype io_opcode =
    IoFlush | IoWrite | IoRead | IoWriteUncorrectable | IoCompare | IoWriteZeroes
  | IoDatasetManagement | IoVerify | IoReservationRegister | IoReservationReport
  | IoReservationAcquire | IoIoManagementReceive | IoReservationRelease | IoCancel | IoCopy
  | IoIoManagementSend

primrec io_opcode_u8 :: "io_opcode \<Rightarrow> u8" where
  "io_opcode_u8 IoFlush = 0x00"
| "io_opcode_u8 IoWrite = 0x01"
| "io_opcode_u8 IoRead = 0x02"
| "io_opcode_u8 IoWriteUncorrectable = 0x04"
| "io_opcode_u8 IoCompare = 0x05"
| "io_opcode_u8 IoWriteZeroes = 0x08"
| "io_opcode_u8 IoDatasetManagement = 0x09"
| "io_opcode_u8 IoVerify = 0x0c"
| "io_opcode_u8 IoReservationRegister = 0x0d"
| "io_opcode_u8 IoReservationReport = 0x0e"
| "io_opcode_u8 IoReservationAcquire = 0x11"
| "io_opcode_u8 IoIoManagementReceive = 0x12"
| "io_opcode_u8 IoReservationRelease = 0x15"
| "io_opcode_u8 IoCancel = 0x18"
| "io_opcode_u8 IoCopy = 0x19"
| "io_opcode_u8 IoIoManagementSend = 0x1d"

datatype identify_structure = IdNamespace | IdController | IdActiveNamespaceList

primrec identify_structure_u8 :: "identify_structure \<Rightarrow> u8" where
  "identify_structure_u8 IdNamespace = 0x00"
| "identify_structure_u8 IdController = 0x01"
| "identify_structure_u8 IdActiveNamespaceList = 0x02"

text \<open>The opcode types are finite; their enumeration is the declaration order.\<close>

instantiation admin_opcode :: enum
begin

definition enum_admin_opcode :: "admin_opcode list" where
  "enum_admin_opcode =
    [AdmDeleteIoSubmissionQueue, AdmCreateIoSubmissionQueue, AdmGetLogPage,
     AdmDeleteIoCompletionQueue, AdmCreateIoCompletionQueue, AdmIdentify, AdmAbort,
     AdmSetFeatures, AdmGetFeatures, AdmAsyncEventRequest, AdmNamespaceManagement,
     AdmFirmwareCommit, AdmFirmwareImageDownload, AdmDeviceSelfTest, AdmNamespaceAttachment,
     AdmKeepAlive, AdmDirectiveSend, AdmDirectiveReceive, AdmVirtualizationManagement,
     AdmNvmeMiSend, AdmNvmeMiReceive, AdmCapacityManagement,
     AdmDiscoveryInformationManagement, AdmFabricZoningReceive, AdmLockdown,
     AdmFabricZoningLookup, AdmClearExportedNvmResourceConfiguration, AdmFabricZoningSend,
     AdmCreateExportedNvmSubsystem, AdmManageExportedNvmSubsystem, AdmManageExportedNamespace,
     AdmManageExportedPort, AdmCrossControllerReset, AdmSendDiscoveryLogPage, AdmTrackSend,
     AdmTrackReceive, AdmMigrationSend, AdmMigrationReceive, AdmControllerDataQueue,
     AdmDoorbellBufferConfig, AdmFabricsCommands, AdmFormatNvm, AdmSecuritySend,
     AdmSecurityReceive, AdmSanitize, AdmLoadProgram, AdmGetLbaStatus,
     AdmProgramActivationManagement, AdmMemoryRangeSetManagement, AdmSanitizeNamespace]"

definition enum_all_admin_opcode :: "(admin_opcode \<Rightarrow> bool) \<Rightarrow> bool" where
  "enum_all_admin_opcode P \<longleftrightarrow> list_all P enum_class.enum"

definition enum_ex_admin_opcode :: "(admin_opcode \<Rightarrow> bool) \<Rightarrow> bool" where
  "enum_ex_admin_opcode P \<longleftrightarrow> list_ex P enum_class.enum"

instance
proof
  have all: "x \<in> set (enum_class.enum :: admin_opcode list)" for x
    by (cases x) (simp_all add: enum_admin_opcode_def)
  then show "(UNIV :: admin_opcode set) = set enum_class.enum" by auto
  show "distinct (enum_class.enum :: admin_opcode list)" by (simp add: enum_admin_opcode_def)
  show "enum_class.enum_all P \<longleftrightarrow> Ball UNIV P" for P :: "admin_opcode \<Rightarrow> bool"
    using all by (auto simp: enum_all_admin_opcode_def list_all_iff)
  show "enum_class.enum_ex P \<longleftrightarrow> Bex UNIV P" for P :: "admin_opcode \<Rightarrow> bool"
    using all by (auto simp: enum_ex_admin_opcode_def list_ex_iff)
qed

end

instantiation io_opcode :: enum
begin

definition enum_io_opcode :: "io_opcode list" where
  "enum_io_opcode =
    [IoFlush, IoWrite, IoRead, IoWriteUncorrectable, IoCompare, IoWriteZeroes,
     IoDatasetManagement, IoVerify, IoReservationRegister, IoReservationReport,
     IoReservationAcquire, IoIoManagementReceive, IoReservationRelease, IoCancel, IoCopy,
     IoIoManagementSend]"

definition enum_all_io_opcode :: "(io_opcode \<Rightarrow> bool) \<Rightarrow> bool" where
  "enum_all_io_opcode P \<longleftrightarrow> list_all P enum_class.enum"

definition enum_ex_io_opcode :: "(io_opcode \<Rightarrow> bool) \<Rightarrow> bool" where
  "enum_ex_io_opcode P \<longleftrightarrow> list_ex P enum_class.enum"

instance
proof
  have all: "x \<in> set (enum_class.enum :: io_opcode list)" for x
    by (cases x) (simp_all add: enum_io_opcode_def)
  then show "(UNIV :: io_opcode set) = set enum_class.enum" by auto
  show "distinct (enum_class.enum :: io_opcode list)" by (simp add: enum_io_opcode_def)
  show "enum_class.enum_all P \<longleftrightarrow> Ball UNIV P" for P :: "io_opcode \<Rightarrow> bool"
    using all by (auto simp: enum_all_io_opcode_def list_all_iff)
  show "enum_class.enum_ex P \<longleftrightarrow> Bex UNIV P" for P :: "io_opcode \<Rightarrow> bool"
    using all by (auto simp: enum_ex_io_opcode_def list_ex_iff)
qed

end

section \<open>Queue entries\<close>

record submission_queue_entry =
  sqe_opc :: u8
  sqe_flags :: u8
  sqe_cid :: u16
  sqe_nsid :: u32
  sqe_cdw2 :: u32
  sqe_cdw3 :: u32
  sqe_mptr :: u64
  sqe_prp1 :: u64
  sqe_prp2 :: u64
  sqe_cdw10 :: u32
  sqe_cdw11 :: u32
  sqe_cdw12 :: u32
  sqe_cdw13 :: u32
  sqe_cdw14 :: u32
  sqe_cdw15 :: u32

definition sqe_layout :: "(string \<times> ctype) list" where
  "sqe_layout =
   [(''opc'', U8), (''flags'', U8), (''cid'', U16), (''nsid'', U32), (''cdw2'', U32),
    (''cdw3'', U32), (''mptr'', U64), (''prp1'', U64), (''prp2'', U64), (''cdw10'', U32),
    (''cdw11'', U32), (''cdw12'', U32), (''cdw13'', U32), (''cdw14'', U32), (''cdw15'', U32)]"

definition sqe_bytes :: "submission_queue_entry \<Rightarrow> u8 list" where
  "sqe_bytes e =
     le_bytes 1 (sqe_opc e) @ le_bytes 1 (sqe_flags e) @ le_bytes 2 (sqe_cid e) @
     le_bytes 4 (sqe_nsid e) @ le_bytes 4 (sqe_cdw2 e) @ le_bytes 4 (sqe_cdw3 e) @
     le_bytes 8 (sqe_mptr e) @ le_bytes 8 (sqe_prp1 e) @ le_bytes 8 (sqe_prp2 e) @
     le_bytes 4 (sqe_cdw10 e) @ le_bytes 4 (sqe_cdw11 e) @ le_bytes 4 (sqe_cdw12 e) @
     le_bytes 4 (sqe_cdw13 e) @ le_bytes 4 (sqe_cdw14 e) @ le_bytes 4 (sqe_cdw15 e)"

definition sqe_of_bytes :: "u8 list \<Rightarrow> submission_queue_entry" where
  "sqe_of_bytes bs =
     \<lparr>sqe_opc = of_le (take 1 (drop 0 bs)),
      sqe_flags = of_le (take 1 (drop 1 bs)),
      sqe_cid = of_le (take 2 (drop 2 bs)),
      sqe_nsid = of_le (take 4 (drop 4 bs)),
      sqe_cdw2 = of_le (take 4 (drop 8 bs)),
      sqe_cdw3 = of_le (take 4 (drop 12 bs)),
      sqe_mptr = of_le (take 8 (drop 16 bs)),
      sqe_prp1 = of_le (take 8 (drop 24 bs)),
      sqe_prp2 = of_le (take 8 (drop 32 bs)),
      sqe_cdw10 = of_le (take 4 (drop 40 bs)),
      sqe_cdw11 = of_le (take 4 (drop 44 bs)),
      sqe_cdw12 = of_le (take 4 (drop 48 bs)),
      sqe_cdw13 = of_le (take 4 (drop 52 bs)),
      sqe_cdw14 = of_le (take 4 (drop 56 bs)),
      sqe_cdw15 = of_le (take 4 (drop 60 bs))\<rparr>"

text \<open>\<open>SubmissionQueueEntry::new\<close>: all zero but for the opcode.\<close>

definition sqe_new :: "u8 \<Rightarrow> submission_queue_entry" where
  "sqe_new opc = (sqe_of_bytes (replicate 64 0))\<lparr>sqe_opc := opc\<rparr>"

record completion_queue_entry =
  cqe_result :: u32
  cqe_reserved :: u32
  cqe_sq_head :: u16
  cqe_sq_id :: u16
  cqe_cid :: u16
  cqe_status :: u16

definition cqe_layout :: "(string \<times> ctype) list" where
  "cqe_layout =
   [(''result'', U32), (''reserved'', U32), (''sq_head'', U16), (''sq_id'', U16), (''cid'', U16),
    (''status'', U16)]"

definition cqe_bytes :: "completion_queue_entry \<Rightarrow> u8 list" where
  "cqe_bytes e =
     le_bytes 4 (cqe_result e) @ le_bytes 4 (cqe_reserved e) @ le_bytes 2 (cqe_sq_head e) @
     le_bytes 2 (cqe_sq_id e) @ le_bytes 2 (cqe_cid e) @ le_bytes 2 (cqe_status e)"

definition cqe_of_bytes :: "u8 list \<Rightarrow> completion_queue_entry" where
  "cqe_of_bytes bs =
     \<lparr>cqe_result = of_le (take 4 (drop 0 bs)),
      cqe_reserved = of_le (take 4 (drop 4 bs)),
      cqe_sq_head = of_le (take 2 (drop 8 bs)),
      cqe_sq_id = of_le (take 2 (drop 10 bs)),
      cqe_cid = of_le (take 2 (drop 12 bs)),
      cqe_status = of_le (take 2 (drop 14 bs))\<rparr>"

definition phase :: "completion_queue_entry \<Rightarrow> bool" where
  "phase c \<longleftrightarrow> cqe_status c AND 0x1 \<noteq> 0"

definition status_code :: "completion_queue_entry \<Rightarrow> u8" where
  "status_code c = ucast (drop_bit 1 (cqe_status c) AND 0xFF)"

definition status_code_type :: "completion_queue_entry \<Rightarrow> u8" where
  "status_code_type c = ucast (drop_bit 9 (cqe_status c) AND 0x7)"

definition is_success :: "completion_queue_entry \<Rightarrow> bool" where
  "is_success c \<longleftrightarrow> status_code c = 0 \<and> status_code_type c = 0"

text \<open>Byte representations handed to the typed DMA accessors.\<close>

definition sqe_repr :: "submission_queue_entry repr" where
  "sqe_repr = \<lparr>rsize = size_of (Struct sqe_layout), ralign = align_of (Struct sqe_layout),
     encode = sqe_bytes, decode = sqe_of_bytes\<rparr>"

definition cqe_repr :: "completion_queue_entry repr" where
  "cqe_repr = \<lparr>rsize = size_of (Struct cqe_layout), ralign = align_of (Struct cqe_layout),
     encode = cqe_bytes, decode = cqe_of_bytes\<rparr>"

lemma length_sqe_bytes [simp]: "length (sqe_bytes e) = 64"
  by (simp add: sqe_bytes_def)

lemma length_cqe_bytes [simp]: "length (cqe_bytes e) = 16"
  by (simp add: cqe_bytes_def)

lemma sqe_repr_simps [simp]:
  "rsize sqe_repr = 64" "ralign sqe_repr = 8"
  "encode sqe_repr = sqe_bytes" "decode sqe_repr = sqe_of_bytes"
  by (simp_all add: sqe_repr_def sqe_layout_def round_up_def)

lemma cqe_repr_simps [simp]:
  "rsize cqe_repr = 16" "ralign cqe_repr = 4"
  "encode cqe_repr = cqe_bytes" "decode cqe_repr = cqe_of_bytes"
  by (simp_all add: cqe_repr_def cqe_layout_def round_up_def)

lemma sqe_of_sqe_bytes: "sqe_of_bytes (sqe_bytes e) = e"
  by (simp add: sqe_of_bytes_def sqe_bytes_def of_le_le_bytes)

lemma cqe_of_cqe_bytes: "cqe_of_bytes (cqe_bytes e) = e"
  by (simp add: cqe_of_bytes_def cqe_bytes_def of_le_le_bytes)

lemma sqe_bytes_sqe_of: "length bs = 64 \<Longrightarrow> sqe_bytes (sqe_of_bytes bs) = bs"
  unfolding sqe_bytes_def sqe_of_bytes_def submission_queue_entry.simps
  by (simp add: le_bytes_slice del: drop_0 take_all take_all_iff One_nat_def)
    (use le_bytes_slice [of 1 bs 0, where 'a = 8] in \<open>simp add: take_drop_append\<close>)

lemma cqe_bytes_cqe_of: "length bs = 16 \<Longrightarrow> cqe_bytes (cqe_of_bytes bs) = bs"
  unfolding cqe_bytes_def cqe_of_bytes_def completion_queue_entry.simps
  by (simp add: le_bytes_slice del: drop_0 take_all take_all_iff)
    (use le_bytes_slice [of 4 bs 0, where 'a = 32] in \<open>simp add: take_drop_append\<close>)

interpretation sqer: byte_repr sqe_repr
  by unfold_locales (simp_all add: sqe_of_sqe_bytes sqe_bytes_sqe_of)

interpretation cqer: byte_repr cqe_repr
  by unfold_locales (simp_all add: cqe_of_cqe_bytes cqe_bytes_cqe_of)

lemma sqe_new_simps [simp]:
  "sqe_opc (sqe_new n) = n" "sqe_flags (sqe_new n) = 0" "sqe_cid (sqe_new n) = 0"
  "sqe_nsid (sqe_new n) = 0" "sqe_cdw2 (sqe_new n) = 0" "sqe_cdw3 (sqe_new n) = 0"
  "sqe_mptr (sqe_new n) = 0" "sqe_prp1 (sqe_new n) = 0" "sqe_prp2 (sqe_new n) = 0"
  "sqe_cdw10 (sqe_new n) = 0" "sqe_cdw11 (sqe_new n) = 0" "sqe_cdw12 (sqe_new n) = 0"
  "sqe_cdw13 (sqe_new n) = 0" "sqe_cdw14 (sqe_new n) = 0" "sqe_cdw15 (sqe_new n) = 0"
  by (simp_all add: sqe_new_def sqe_of_bytes_def numeral_eq_Suc)

section \<open>Identify data structures\<close>

definition power_state_descriptor :: "(string \<times> ctype) list" where
  "power_state_descriptor =
   [(''mp'', U16), (''_reserved2'', U8), (''mxps_nops'', U8), (''enlat'', U32), (''exlat'', U32),
    (''rrt'', U8), (''rrl'', U8), (''rwt'', U8), (''rwl'', U8), (''idlp'', U16), (''ips'', U8),
    (''_reserved19'', U8), (''actp'', U16), (''apw_aps'', U8), (''_upper'', Array U8 9)]"

definition identify_controller :: "(string \<times> ctype) list" where
  "identify_controller =
   [(''vid'', U16), (''ssvid'', U16), (''sn'', Array U8 20), (''mn'', Array U8 40),
    (''fr'', Array U8 8), (''rab'', U8), (''ieee'', Array U8 3), (''cmic'', U8), (''mdts'', U8),
    (''cntlid'', U16), (''ver'', U32), (''rtd3r'', U32), (''rtd3e'', U32), (''oaes'', U32),
    (''ctratt'', U32), (''rrls'', U16), (''bpcap'', U8), (''_reserved103'', U8), (''nssl'', U32),
    (''_reserved108'', Array U8 2), (''plsi'', U8), (''cntrltype'', U8),
    (''fguid'', Array U8 16), (''crdt1'', U16), (''crdt2'', U16), (''crdt3'', U16),
    (''crcap'', U8), (''ciu'', U8), (''cirn'', Array U8 8), (''_reserved144'', Array U8 96),
    (''_reserved240'', Array U8 13), (''nvmsr'', U8), (''vwci'', U8), (''mec'', U8),
    (''oacs'', U16), (''acl'', U8), (''aerl'', U8), (''frmw'', U8), (''lpa'', U8),
    (''elpe'', U8), (''npss'', U8), (''avscc'', U8), (''apsta'', U8), (''wctemp'', U16),
    (''cctemp'', U16), (''mtfa'', U16), (''hmpre'', U32), (''hmmin'', U32),
    (''tnvmcap'', Array U8 16), (''unvmcap'', Array U8 16), (''rpmbs'', U32), (''edstt'', U16),
    (''dsto'', U8), (''fwug'', U8), (''kas'', U16), (''hctma'', U16), (''mntmt'', U16),
    (''mxtmt'', U16), (''sanicap'', U32), (''hmminds'', U32), (''hmmaxd'', U16),
    (''nsetidmax'', U16), (''endgidmax'', U16), (''anatt'', U8), (''anacap'', U8),
    (''anagrpmax'', U32), (''nanagrpid'', U32), (''pels'', U32), (''did'', U16), (''kpioc'', U8),
    (''_reserved359'', U8), (''mptfawr'', U16), (''_reserved362'', Array U8 6),
    (''megcap'', Array U8 16), (''tmptthha'', U8), (''mupa'', U8), (''cqt'', U16),
    (''cdpa'', U16), (''mup'', U16), (''ipmsr'', U16), (''srv'', U16),
    (''_reserved396'', Array U8 116), (''sqes'', U8), (''cqes'', U8), (''maxcmd'', U16),
    (''nn'', U32), (''oncs'', U16), (''fuses'', U16), (''fna'', U8), (''vwc'', U8),
    (''awun'', U16), (''awupf'', U16), (''icsvscc'', U8), (''nwpc'', U8), (''acwu'', U16),
    (''cdfs'', U16), (''sgls'', U32), (''mnan'', U32), (''maxdna'', Array U8 16),
    (''maxcna'', U32), (''oaqd'', U32), (''rhiri'', U8), (''hirt'', U8), (''cmmrtd'', U16),
    (''nmmrtd'', U16), (''minmrtg'', U8), (''maxmrtg'', U8), (''trattr'', U8),
    (''_reserved577'', U8), (''mcudmq'', U16), (''mnsudmq'', U16), (''mcmr'', U16),
    (''nmcmr'', U16), (''mcdqpc'', U16), (''_reserved588'', Array U8 180),
    (''subnqn'', Array U8 256), (''_reserved1024'', Array U8 768), (''ioccsz'', U32),
    (''iorcsz'', U32), (''icdoff'', U16), (''fcatt'', U8), (''msdbd'', U8), (''ofcs'', U16),
    (''dctype'', U8), (''_reserved1807'', Array U8 241),
    (''psds'', Array (Struct power_state_descriptor) 32), (''vendor_specific'', Array U8 1024)]"

definition lba_format :: "(string \<times> ctype) list" where
  "lba_format =
   [(''ms'', U16), (''lbads'', U8), (''rp'', U8)]"

definition identify_namespace :: "(string \<times> ctype) list" where
  "identify_namespace =
   [(''nsze'', U64), (''ncap'', U64), (''nuse'', U64), (''nsfeat'', U8), (''nlbaf'', U8),
    (''flbas'', U8), (''mc'', U8), (''dpc'', U8), (''dps'', U8), (''nmic'', U8),
    (''rescap'', U8), (''fpi'', U8), (''dlfeat'', U8), (''nawun'', U16), (''nawupf'', U16),
    (''nacwu'', U16), (''nabsn'', U16), (''nabo'', U16), (''nabspf'', U16), (''noiob'', U16),
    (''nvmcap'', Array U8 16), (''npwg'', U16), (''npwa'', U16), (''npdg'', U16),
    (''npda'', U16), (''nows'', U16), (''mssrl'', U16), (''mcl'', U32), (''msrc'', U8),
    (''kpios'', U8), (''nulbaf'', U8), (''_reserved83'', U8), (''kpiodaag'', U32),
    (''_reserved88'', Array U8 4), (''anagrpid'', U32), (''_reserved96'', Array U8 3),
    (''nsattr'', U8), (''nvmsetid'', U16), (''endgid'', U16), (''nguid'', Array U8 16),
    (''eui64'', Array U8 8), (''lba_formats'', Array (Struct lba_format) 64),
    (''vendor_specific'', Array U8 3712)]"

text \<open>
  \<open>T::read_from_prefix(data)\<close>: the first \<open>size_of::<T>()\<close> bytes, or an error when there
  are fewer.
\<close>

definition read_from_prefix :: "(string \<times> ctype) list \<Rightarrow> u8 list \<Rightarrow> u8 list option" where
  "read_from_prefix fs data =
     (if size_of (Struct fs) \<le> length data then Some (take (size_of (Struct fs)) data) else None)"

section \<open>Layout theorems\<close>

lemma power_state_descriptor_sizes [simp]:
  "align_fields power_state_descriptor = 4" "end_of 0 power_state_descriptor = 32"
  by (simp_all add: power_state_descriptor_def round_up_def max_def)

lemma lba_format_sizes [simp]: "align_fields lba_format = 2" "end_of 0 lba_format = 4"
  by (simp_all add: lba_format_def round_up_def max_def)

lemma lba_format_layout:
  "layout_from 0 lba_format = [(''ms'', 0, 2), (''lbads'', 2, 1), (''rp'', 3, 1)]"
  by (simp add: lba_format_def round_up_def)

lemma identify_controller_tiles: "tiles 0 (layout_from 0 identify_controller) 4096"
  by (simp add: identify_controller_def round_up_def)

lemma identify_namespace_tiles: "tiles 0 (layout_from 0 identify_namespace) 4096"
  by (simp add: identify_namespace_def round_up_def)

lemma align_identify_controller: "align_fields identify_controller = 4"
  by (simp add: identify_controller_def max_def)

lemma align_identify_namespace: "align_fields identify_namespace = 8"
  by (simp add: identify_namespace_def max_def)

lemma identify_sizes [simp]:
  "size_of (Struct identify_controller) = 4096" "size_of (Struct identify_namespace) = 4096"
  using tiles_end [OF identify_controller_tiles] tiles_end [OF identify_namespace_tiles]
  by (simp_all add: align_identify_controller align_identify_namespace round_up_def)

text \<open>
  The Identify Controller structure the code declares has the layout of the
  specification (the unit test \<open>identify_controller_byte_layout\<close> checks some of these
  offsets): 4096 bytes, no padding between fields, and the table gives every field's
  offset and size.
\<close>

lemma identify_controller_byte_layout:
  "size_of (Struct identify_controller) = 4096 \<and>
   size_of (Struct power_state_descriptor) = 32 \<and>
   tiles 0 (layout_from 0 identify_controller) 4096 \<and>
   layout_from 0 identify_controller =
    [(''vid'', 0, 2), (''ssvid'', 2, 2), (''sn'', 4, 20), (''mn'', 24, 40), (''fr'', 64, 8),
     (''rab'', 72, 1), (''ieee'', 73, 3), (''cmic'', 76, 1), (''mdts'', 77, 1),
     (''cntlid'', 78, 2), (''ver'', 80, 4), (''rtd3r'', 84, 4), (''rtd3e'', 88, 4),
     (''oaes'', 92, 4), (''ctratt'', 96, 4), (''rrls'', 100, 2), (''bpcap'', 102, 1),
     (''_reserved103'', 103, 1), (''nssl'', 104, 4), (''_reserved108'', 108, 2),
     (''plsi'', 110, 1), (''cntrltype'', 111, 1), (''fguid'', 112, 16), (''crdt1'', 128, 2),
     (''crdt2'', 130, 2), (''crdt3'', 132, 2), (''crcap'', 134, 1), (''ciu'', 135, 1),
     (''cirn'', 136, 8), (''_reserved144'', 144, 96), (''_reserved240'', 240, 13),
     (''nvmsr'', 253, 1), (''vwci'', 254, 1), (''mec'', 255, 1), (''oacs'', 256, 2),
     (''acl'', 258, 1), (''aerl'', 259, 1), (''frmw'', 260, 1), (''lpa'', 261, 1),
     (''elpe'', 262, 1), (''npss'', 263, 1), (''avscc'', 264, 1), (''apsta'', 265, 1),
     (''wctemp'', 266, 2), (''cctemp'', 268, 2), (''mtfa'', 270, 2), (''hmpre'', 272, 4),
     (''hmmin'', 276, 4), (''tnvmcap'', 280, 16), (''unvmcap'', 296, 16), (''rpmbs'', 312, 4),
     (''edstt'', 316, 2), (''dsto'', 318, 1), (''fwug'', 319, 1), (''kas'', 320, 2),
     (''hctma'', 322, 2), (''mntmt'', 324, 2), (''mxtmt'', 326, 2), (''sanicap'', 328, 4),
     (''hmminds'', 332, 4), (''hmmaxd'', 336, 2), (''nsetidmax'', 338, 2),
     (''endgidmax'', 340, 2), (''anatt'', 342, 1), (''anacap'', 343, 1), (''anagrpmax'', 344, 4),
     (''nanagrpid'', 348, 4), (''pels'', 352, 4), (''did'', 356, 2), (''kpioc'', 358, 1),
     (''_reserved359'', 359, 1), (''mptfawr'', 360, 2), (''_reserved362'', 362, 6),
     (''megcap'', 368, 16), (''tmptthha'', 384, 1), (''mupa'', 385, 1), (''cqt'', 386, 2),
     (''cdpa'', 388, 2), (''mup'', 390, 2), (''ipmsr'', 392, 2), (''srv'', 394, 2),
     (''_reserved396'', 396, 116), (''sqes'', 512, 1), (''cqes'', 513, 1), (''maxcmd'', 514, 2),
     (''nn'', 516, 4), (''oncs'', 520, 2), (''fuses'', 522, 2), (''fna'', 524, 1),
     (''vwc'', 525, 1), (''awun'', 526, 2), (''awupf'', 528, 2), (''icsvscc'', 530, 1),
     (''nwpc'', 531, 1), (''acwu'', 532, 2), (''cdfs'', 534, 2), (''sgls'', 536, 4),
     (''mnan'', 540, 4), (''maxdna'', 544, 16), (''maxcna'', 560, 4), (''oaqd'', 564, 4),
     (''rhiri'', 568, 1), (''hirt'', 569, 1), (''cmmrtd'', 570, 2), (''nmmrtd'', 572, 2),
     (''minmrtg'', 574, 1), (''maxmrtg'', 575, 1), (''trattr'', 576, 1),
     (''_reserved577'', 577, 1), (''mcudmq'', 578, 2), (''mnsudmq'', 580, 2), (''mcmr'', 582, 2),
     (''nmcmr'', 584, 2), (''mcdqpc'', 586, 2), (''_reserved588'', 588, 180),
     (''subnqn'', 768, 256), (''_reserved1024'', 1024, 768), (''ioccsz'', 1792, 4),
     (''iorcsz'', 1796, 4), (''icdoff'', 1800, 2), (''fcatt'', 1802, 1), (''msdbd'', 1803, 1),
     (''ofcs'', 1804, 2), (''dctype'', 1806, 1), (''_reserved1807'', 1807, 241),
     (''psds'', 2048, 1024), (''vendor_specific'', 3072, 1024)]"
  by (simp add: identify_controller_tiles round_up_def)
    (simp add: identify_controller_def round_up_def)

text \<open>
  The Identify Namespace structure has the layout of the specification (unit test
  \<open>identify_namespace_byte_layout\<close>): 4096 bytes without padding, the LBA formats at 128 with
  the data size exponent at byte 2 of each 4-byte format, and the table gives every field's
  offset and size.
\<close>

lemma identify_namespace_byte_layout:
  "size_of (Struct identify_namespace) = 4096 \<and>
   size_of (Struct lba_format) = 4 \<and>
   layout_from 0 lba_format = [(''ms'', 0, 2), (''lbads'', 2, 1), (''rp'', 3, 1)] \<and>
   tiles 0 (layout_from 0 identify_namespace) 4096 \<and>
   layout_from 0 identify_namespace =
    [(''nsze'', 0, 8), (''ncap'', 8, 8), (''nuse'', 16, 8), (''nsfeat'', 24, 1),
     (''nlbaf'', 25, 1), (''flbas'', 26, 1), (''mc'', 27, 1), (''dpc'', 28, 1), (''dps'', 29, 1),
     (''nmic'', 30, 1), (''rescap'', 31, 1), (''fpi'', 32, 1), (''dlfeat'', 33, 1),
     (''nawun'', 34, 2), (''nawupf'', 36, 2), (''nacwu'', 38, 2), (''nabsn'', 40, 2),
     (''nabo'', 42, 2), (''nabspf'', 44, 2), (''noiob'', 46, 2), (''nvmcap'', 48, 16),
     (''npwg'', 64, 2), (''npwa'', 66, 2), (''npdg'', 68, 2), (''npda'', 70, 2),
     (''nows'', 72, 2), (''mssrl'', 74, 2), (''mcl'', 76, 4), (''msrc'', 80, 1),
     (''kpios'', 81, 1), (''nulbaf'', 82, 1), (''_reserved83'', 83, 1), (''kpiodaag'', 84, 4),
     (''_reserved88'', 88, 4), (''anagrpid'', 92, 4), (''_reserved96'', 96, 3),
     (''nsattr'', 99, 1), (''nvmsetid'', 100, 2), (''endgid'', 102, 2), (''nguid'', 104, 16),
     (''eui64'', 120, 8), (''lba_formats'', 128, 256), (''vendor_specific'', 384, 3712)]"
  by (simp add: identify_namespace_tiles lba_format_layout round_up_def)
    (simp add: identify_namespace_def round_up_def)

text \<open>
  The bytes written for a submission queue entry are its fields at their \<open>repr(C)\<close>
  offsets (the unit test \<open>submission_queue_entry_byte_layout\<close>): 64 bytes, no padding, every
  field little-endian where the layout says.
\<close>

lemma sqe_wire_layout:
  "size_of (Struct sqe_layout) = 64 \<and> align_of (Struct sqe_layout) = 8 \<and>
   tiles 0 (layout_from 0 sqe_layout) 64 \<and> length (sqe_bytes e) = 64 \<and>
   field_bytes sqe_layout ''opc'' (sqe_bytes e) = le_bytes 1 (sqe_opc e) \<and>
   field_bytes sqe_layout ''flags'' (sqe_bytes e) = le_bytes 1 (sqe_flags e) \<and>
   field_bytes sqe_layout ''cid'' (sqe_bytes e) = le_bytes 2 (sqe_cid e) \<and>
   field_bytes sqe_layout ''nsid'' (sqe_bytes e) = le_bytes 4 (sqe_nsid e) \<and>
   field_bytes sqe_layout ''cdw2'' (sqe_bytes e) = le_bytes 4 (sqe_cdw2 e) \<and>
   field_bytes sqe_layout ''cdw3'' (sqe_bytes e) = le_bytes 4 (sqe_cdw3 e) \<and>
   field_bytes sqe_layout ''mptr'' (sqe_bytes e) = le_bytes 8 (sqe_mptr e) \<and>
   field_bytes sqe_layout ''prp1'' (sqe_bytes e) = le_bytes 8 (sqe_prp1 e) \<and>
   field_bytes sqe_layout ''prp2'' (sqe_bytes e) = le_bytes 8 (sqe_prp2 e) \<and>
   field_bytes sqe_layout ''cdw10'' (sqe_bytes e) = le_bytes 4 (sqe_cdw10 e) \<and>
   field_bytes sqe_layout ''cdw11'' (sqe_bytes e) = le_bytes 4 (sqe_cdw11 e) \<and>
   field_bytes sqe_layout ''cdw12'' (sqe_bytes e) = le_bytes 4 (sqe_cdw12 e) \<and>
   field_bytes sqe_layout ''cdw13'' (sqe_bytes e) = le_bytes 4 (sqe_cdw13 e) \<and>
   field_bytes sqe_layout ''cdw14'' (sqe_bytes e) = le_bytes 4 (sqe_cdw14 e) \<and>
   field_bytes sqe_layout ''cdw15'' (sqe_bytes e) = le_bytes 4 (sqe_cdw15 e)"
  by (simp add: sqe_layout_def sqe_bytes_def field_bytes_def round_up_def)



text \<open>
  Decoding of the completion status word: the phase tag is bit 0, the status code is
  bits 1 to 8 and the status code type bits 9 to 11, and a completion counts as successful
  exactly when bits 1 to 11 are all zero, whatever the phase tag and the retry, more and
  do-not-retry bits are.
\<close>

lemma completion_status_decoding:
  "(phase c \<longleftrightarrow> odd (unat (cqe_status c))) \<and>
   unat (status_code c) = unat (cqe_status c) div 2 mod 256 \<and>
   unat (status_code_type c) = unat (cqe_status c) div 512 mod 8 \<and>
   (is_success c \<longleftrightarrow> unat (cqe_status c) div 2 mod 2048 = 0)"
proof -
  have sc: "unat (status_code c) = unat (cqe_status c) div 2 mod 256"
    unfolding status_code_def by (simp only: unat_bits) simp
  have sct: "unat (status_code_type c) = unat (cqe_status c) div 512 mod 8"
    unfolding status_code_type_def by (simp only: unat_bits) simp
  have "n div 2 mod 2048 = 256 * (n div 512 mod 8) + n div 2 mod 256" for n :: nat
    using mod_mult2_eq [of "n div 2" 256 8] div_mult2_eq [of n 2 256] by simp
  moreover have zero: "x = 0 \<longleftrightarrow> unat x = 0" for x :: u8 by (simp add: unsigned_eq_0_iff)
  ultimately have "is_success c \<longleftrightarrow> unat (cqe_status c) div 2 mod 2048 = 0"
    unfolding is_success_def zero sc sct by auto
  with sc sct show ?thesis by (simp add: phase_def and_one_iff_odd)
qed

text \<open>No two admin opcodes, and no two I/O opcodes, have the same encoding.\<close>

lemma opcodes_injective: "inj admin_opcode_u8 \<and> inj io_opcode_u8"
proof -
  have "distinct (map admin_opcode_u8 enum_class.enum)"
    and "distinct (map io_opcode_u8 enum_class.enum)"
    by (simp_all add: enum_admin_opcode_def enum_io_opcode_def)
  then show ?thesis by (simp add: distinct_map UNIV_enum [symmetric])
qed

end
