(* ===== verification/Machine.thy ===== *)
theory Machine
  imports Nvme_Spec
begin

text \<open>
  The machine the driver runs on: the DMA region's bytes, the controller, and a log of what
  the CPU does that the controller or the user can observe.

  The controller is not part of the repository, so it is a parameter: a \<open>device\<close> record of
  functions over a device state \<open>'d\<close> that no theorem constrains unless it says so.
  \<open>dev_step\<close> is the controller's own activity (fetching commands, moving data, posting
  completions): it may change its state and any byte of the region, and it runs before every
  CPU access, so whatever the controller does between two accesses is covered by some device.
  Register reads and writes are handed to the device with their byte offset in the BAR.
  One access of the CPU (a volatile access of a register or a queue entry, a bulk copy) is
  one step of the model; that an entry is not torn is what the comment in
  \<open>DmaRegion::read_volatile\<close> leaves undischarged.
\<close>

record 'd device =
  dev_step :: "'d \<Rightarrow> mem \<Rightarrow> 'd \<times> mem"
  dev_read32 :: "'d \<Rightarrow> usize \<Rightarrow> u32 \<times> 'd"
  dev_read64 :: "'d \<Rightarrow> usize \<Rightarrow> u64 \<times> 'd"
  dev_write32 :: "'d \<Rightarrow> usize \<Rightarrow> u32 \<Rightarrow> 'd"
  dev_write64 :: "'d \<Rightarrow> usize \<Rightarrow> u64 \<Rightarrow> 'd"

datatype event =
    DmaStore nat "u8 list"
  | RegWrite32 usize u32
  | RegWrite64 usize u64
  | Fence
  | Pause
  | Sleep nat
  | Print rtext
  | ConfigWrite rtext nat "u8 list"
  | Report io_error

record 'd world =
  dma :: mem
  dev :: 'd
  log :: "event list"

definition step_device :: "'d device \<Rightarrow> 'd world \<Rightarrow> 'd world" where
  "step_device D w = (let (d', m') = dev_step D (dev w) (dma w) in w\<lparr>dma := m', dev := d'\<rparr>)"

text \<open>The accesses. Loads leave no event; their effect is the value returned.\<close>

definition dma_store :: "'d device \<Rightarrow> nat \<Rightarrow> u8 list \<Rightarrow> ('d world, unit) prog" where
  "dma_store D off bs = (\<lambda>w.
     let w = step_device D w
     in (Ok (), w\<lparr>dma := store (dma w) off bs, log := log w @ [DmaStore off bs]\<rparr>))"

definition dma_load :: "'d device \<Rightarrow> nat \<Rightarrow> nat \<Rightarrow> ('d world, u8 list) prog" where
  "dma_load D off n = (\<lambda>w. let w = step_device D w in (Ok (load (dma w) off n), w))"

definition reg_read32 :: "'d device \<Rightarrow> usize \<Rightarrow> ('d world, u32) prog" where
  "reg_read32 D off = (\<lambda>w.
     let w = step_device D w; (v, d') = dev_read32 D (dev w) off in (Ok v, w\<lparr>dev := d'\<rparr>))"

definition reg_read64 :: "'d device \<Rightarrow> usize \<Rightarrow> ('d world, u64) prog" where
  "reg_read64 D off = (\<lambda>w.
     let w = step_device D w; (v, d') = dev_read64 D (dev w) off in (Ok v, w\<lparr>dev := d'\<rparr>))"

definition reg_write32 :: "'d device \<Rightarrow> usize \<Rightarrow> u32 \<Rightarrow> ('d world, unit) prog" where
  "reg_write32 D off v = (\<lambda>w.
     let w = step_device D w
     in (Ok (), w\<lparr>dev := dev_write32 D (dev w) off v, log := log w @ [RegWrite32 off v]\<rparr>))"

definition reg_write64 :: "'d device \<Rightarrow> usize \<Rightarrow> u64 \<Rightarrow> ('d world, unit) prog" where
  "reg_write64 D off v = (\<lambda>w.
     let w = step_device D w
     in (Ok (), w\<lparr>dev := dev_write64 D (dev w) off v, log := log w @ [RegWrite64 off v]\<rparr>))"

text \<open>Actions that only leave a mark: a fence, waiting for Enter, sleeping, printing.\<close>

definition emit :: "event \<Rightarrow> ('d world, unit) prog" where
  "emit e = modify (\<lambda>w. w\<lparr>log := log w @ [e]\<rparr>)"

text \<open>\<open>nvmetoy::pause\<close> (lib.rs): prompt and wait for a line; its result is ignored.\<close>

definition pause :: "('d world, unit) prog" where
  "pause = emit Pause"

section \<open>Evaluation of the accesses\<close>

lemma step_device_log [simp]: "log (step_device D w) = log w"
  by (simp add: step_device_def split: prod.split)

lemma run_access [run_simps]:
  "dma_store D off bs w = (Ok (), (step_device D w)\<lparr>dma := store (dma (step_device D w)) off bs,
     log := log w @ [DmaStore off bs]\<rparr>)"
  "dma_load D off n w = (Ok (load (dma (step_device D w)) off n), step_device D w)"
  "reg_read32 D reg w = (Ok (fst (dev_read32 D (dev (step_device D w)) reg)),
     (step_device D w)\<lparr>dev := snd (dev_read32 D (dev (step_device D w)) reg)\<rparr>)"
  "reg_read64 D reg w = (Ok (fst (dev_read64 D (dev (step_device D w)) reg)),
     (step_device D w)\<lparr>dev := snd (dev_read64 D (dev (step_device D w)) reg)\<rparr>)"
  "reg_write32 D reg v w = (Ok (), (step_device D w)\<lparr>
     dev := dev_write32 D (dev (step_device D w)) reg v, log := log w @ [RegWrite32 reg v]\<rparr>)"
  "reg_write64 D reg u w = (Ok (), (step_device D w)\<lparr>
     dev := dev_write64 D (dev (step_device D w)) reg u, log := log w @ [RegWrite64 reg u]\<rparr>)"
  "emit e w = (Ok (), w\<lparr>log := log w @ [e]\<rparr>)"
  "pause w = (Ok (), w\<lparr>log := log w @ [Pause]\<rparr>)"
  by (simp_all add: dma_store_def dma_load_def reg_read32_def reg_read64_def reg_write32_def
      reg_write64_def emit_def pause_def run_simps Let_def split: prod.split)

lemma step_device_log_update:
  "step_device D (w\<lparr>log := l\<rparr>) = (step_device D w)\<lparr>log := l\<rparr>"
  by (simp add: step_device_def case_prod_unfold Let_def)

section \<open>Safe programs\<close>

text \<open>
  \<open>safe lg I P p Q\<close>: from any state satisfying \<open>I\<close>, \<open>p\<close> does not panic, ends in a state
  satisfying \<open>I\<close>, appends only events satisfying \<open>P\<close> to the log \<open>lg\<close>, and a normal result
  satisfies \<open>Q\<close>; for every device, since the device is inside the state.
\<close>

definition safe ::
  "('s \<Rightarrow> event list) \<Rightarrow> ('s \<Rightarrow> bool) \<Rightarrow> (event \<Rightarrow> bool) \<Rightarrow> ('s, 'a) prog \<Rightarrow> ('a \<Rightarrow> bool) \<Rightarrow> bool" where
  "safe lg I P p Q \<longleftrightarrow> (\<forall>s. I s \<longrightarrow> I (snd (p s)) \<and>
     (\<exists>es. lg (snd (p s)) = lg s @ es \<and> list_all P es) \<and>
     (case fst (p s) of Ok x \<Rightarrow> Q x | Err e \<Rightarrow> True | Panic q \<Rightarrow> False))"

named_theorems safe_rules "decomposition of safe along the structure of a program"

lemma safeI:
  assumes "\<And>s. I s \<Longrightarrow> \<exists>es. lg (snd (p s)) = lg s @ es \<and> list_all P es"
    and "\<And>s. I s \<Longrightarrow> I (snd (p s))" and "\<And>s x. I s \<Longrightarrow> fst (p s) = Ok x \<Longrightarrow> Q x"
    and "\<And>s q. I s \<Longrightarrow> fst (p s) \<noteq> Panic q"
  shows "safe lg I P p Q"
  using assms by (auto simp: safe_def split: outcome.split)

lemma safeD:
  assumes "safe lg I P p Q" and "I s"
  shows "I (snd (p s))" and "\<exists>es. lg (snd (p s)) = lg s @ es \<and> list_all P es"
    and "fst (p s) \<noteq> Panic q" and "fst (p s) = Ok x \<Longrightarrow> Q x"
  using assms by (auto simp: safe_def split: outcome.splits)

lemma safe_pure [safe_rules]:
  "Q x \<Longrightarrow> safe lg I P (ret x) Q" "safe lg I P (fail e) Q"
  "(\<And>s. I s \<Longrightarrow> Q (f s)) \<Longrightarrow> safe lg I P (gets f) Q"
  by (auto simp: safe_def run_simps)

lemma safe_of_outcome [safe_rules]:
  "(\<And>q. r \<noteq> Panic q) \<Longrightarrow> (\<And>x. r = Ok x \<Longrightarrow> Q x) \<Longrightarrow> safe lg I P (of_outcome r) Q"
  by (auto simp: safe_def run_simps split: outcome.split)

lemma safe_modify: "(\<And>s. I s \<Longrightarrow> I (f s) \<and> lg (f s) = lg s) \<Longrightarrow> Q () \<Longrightarrow> safe lg I P (modify f) Q"
  by (auto simp: safe_def run_simps)

lemma safe_andthen [safe_rules]:
  assumes "safe lg I P p R" and "\<And>x. R x \<Longrightarrow> safe lg I P (f x) Q"
  shows "safe lg I P (andthen p f) Q"
  unfolding safe_def
proof (intro allI impI)
  fix s assume I: "I s"
  obtain es where es: "lg (snd (p s)) = lg s @ es" "list_all P es"
    using safeD(2) [OF assms(1) I] by blast
  show "I (snd (andthen p f s)) \<and>
      (\<exists>es. lg (snd (andthen p f s)) = lg s @ es \<and> list_all P es) \<and>
      (case fst (andthen p f s) of Ok x \<Rightarrow> Q x | Err e \<Rightarrow> True | Panic q \<Rightarrow> False)"
  proof (cases "fst (p s)")
    case (Ok x)
    have f: "safe lg I P (f x) Q" by (rule assms(2)) (rule safeD(4) [OF assms(1) I Ok])
    note I' = safeD(1) [OF assms(1) I]
    obtain fs where "lg (snd (f x (snd (p s)))) = lg (snd (p s)) @ fs" "list_all P fs"
      using safeD(2) [OF f I'] by blast
    then have "\<exists>es. lg (snd (f x (snd (p s)))) = lg s @ es \<and> list_all P es"
      using es by (intro exI [of _ "es @ fs"]) simp
    then show ?thesis using Ok safeD(1,3,4) [OF f I'] by (auto simp: run_andthen split: outcome.split)
  qed (use es I safeD(1,3) [OF assms(1) I] in \<open>auto simp: run_andthen\<close>)
qed

lemma safe_if [safe_rules]:
  "(c \<Longrightarrow> safe lg I P p Q) \<Longrightarrow> (\<not> c \<Longrightarrow> safe lg I P q Q) \<Longrightarrow> safe lg I P (if c then p else q) Q"
  by simp

lemma safe_Let [safe_rules]:
  "(\<And>x. x = t \<Longrightarrow> safe lg I P (p x) Q) \<Longrightarrow> safe lg I P (let x = t in p x) Q"
  by simp

lemma safe_case_option [safe_rules]:
  "(x = None \<Longrightarrow> safe lg I P p Q) \<Longrightarrow> (\<And>y. x = Some y \<Longrightarrow> safe lg I P (q y) Q) \<Longrightarrow>
   safe lg I P (case x of None \<Rightarrow> p | Some y \<Rightarrow> q y) Q"
  by (simp split: option.split)

lemma safe_case_prod [safe_rules]:
  "(\<And>a b. x = (a, b) \<Longrightarrow> safe lg I P (p a b) Q) \<Longrightarrow> safe lg I P (case x of (a, b) \<Rightarrow> p a b) Q"
  by (simp split: prod.split)

lemma safe_weaken:
  assumes "safe lg I P p Q" and "\<And>e. P e \<Longrightarrow> P' e" and "\<And>x. Q x \<Longrightarrow> Q' x"
  shows "safe lg I P' p Q'"
proof (rule safeI)
  fix s assume I: "I s"
  show "\<exists>es. lg (snd (p s)) = lg s @ es \<and> list_all P' es"
    using safeD(2) [OF assms(1) I] assms(2) by (meson list.pred_mono_strong)
qed (use safeD(1,3,4) [OF assms(1)] assms(3) in auto)

lemma safe_emit [safe_rules]:
  "P e \<Longrightarrow> Q () \<Longrightarrow> safe log (\<lambda>_. True) P (emit e) Q"
  "P Pause \<Longrightarrow> Q () \<Longrightarrow> safe log (\<lambda>_. True) P pause Q"
  by (auto simp: safe_def run_simps)

text \<open>A continuation that sees the whole outcome of the first program.\<close>

lemma safe_then:
  assumes "safe lg I P p R" and "\<And>r. (\<And>q. r \<noteq> Panic q) \<Longrightarrow> safe lg I P (f r) Q"
  shows "safe lg I P (\<lambda>s. f (fst (p s)) (snd (p s))) Q"
proof (rule safeI)
  fix s x q assume I: "I s"
  have f: "safe lg I P (f (fst (p s))) Q" by (rule assms(2)) (rule safeD(3) [OF assms(1) I])
  note I' = safeD(1) [OF assms(1) I]
  obtain es fs where "lg (snd (p s)) = lg s @ es" "list_all P es"
    "lg (snd (f (fst (p s)) (snd (p s)))) = lg (snd (p s)) @ fs" "list_all P fs"
    using safeD(2) [OF assms(1) I] safeD(2) [OF f I'] by blast
  then show "\<exists>es. lg (snd (f (fst (p s)) (snd (p s)))) = lg s @ es \<and> list_all P es"
    by (intro exI [of _ "es @ fs"]) simp
  show "I (snd (f (fst (p s)) (snd (p s))))" "fst (f (fst (p s)) (snd (p s))) \<noteq> Panic q"
    "fst (f (fst (p s)) (snd (p s))) = Ok x \<Longrightarrow> Q x"
    using safeD(1,3,4) [OF f I'] by simp_all
qed

text \<open>A program of the machine, run beside a first component that it does not touch.\<close>

lemma safe_on_snd:
  fixes p :: "('d world, 'a) prog"
  assumes "safe log (\<lambda>_. True) P p Q"
  shows "safe (\<lambda>s. log (snd s)) (\<lambda>s. J (fst s)) P (on_snd p) Q"
proof (rule safeI)
  fix s :: "'b \<times> 'd world" and x q
  obtain a w where s: "s = (a, w)" by (cases s)
  note d = safeD(2-4) [OF assms TrueI, where s = w]
  show "\<exists>es. log (snd (snd (on_snd p s))) = log (snd s) @ es \<and> list_all P es"
    using d(1) by (simp add: s run_simps)
  show "fst (on_snd p s) \<noteq> Panic q" using d(2) by (simp add: s run_simps)
  show "fst (on_snd p s) = Ok x \<Longrightarrow> Q x" using d(3) by (simp add: s run_simps)
  show "J (fst s) \<Longrightarrow> J (fst (snd (on_snd p s)))" by (simp add: s run_simps)
qed

end
