(* ===== verification/Dma_Region.thy ===== *)
theory Dma_Region
  imports Machine
begin

text \<open>
  \<open>src/dma_region.rs\<close>: the pinned hugepage. The mapping itself is the \<open>dma\<close> component of
  the world; a \<open>dma_region\<close> holds where it is. The accessors check bounds and alignment
  and panic when a check fails.
\<close>

unbundle bit_operations_syntax

definition HUGE_PAGE_SIZE :: usize where "HUGE_PAGE_SIZE = 2 * 1024 * 1024"
definition PAGE_SIZE :: usize where "PAGE_SIZE = 4096"

record dma_region =
  virtual_address :: usize
  dma_length :: usize
  physical_address :: u64

definition physical_address_at :: "dma_region \<Rightarrow> usize \<Rightarrow> u64" where
  "physical_address_at r offset = physical_address r + offset"

definition check_bytes :: "dma_region \<Rightarrow> usize \<Rightarrow> usize \<Rightarrow> unit outcome" where
  "check_bytes r offset sz =
     (case checked_add offset sz of
        None \<Rightarrow> Panic OffsetOverflow
      | Some stop \<Rightarrow>
          if stop \<le> dma_length r then Ok () else Panic (AccessOutOfBounds offset sz (dma_length r)))"

definition check_typed :: "'a repr \<Rightarrow> dma_region \<Rightarrow> usize \<Rightarrow> unit outcome" where
  "check_typed t r offset =
     (case check_bytes r offset (of_nat (rsize t)) of
        Ok _ \<Rightarrow>
          if offset mod of_nat (ralign t) = 0 then Ok ()
          else Panic (AccessUnaligned offset (of_nat (ralign t)))
      | Err e \<Rightarrow> Err e
      | Panic p \<Rightarrow> Panic p)"

definition write_volatile ::
  "'d device \<Rightarrow> 'a repr \<Rightarrow> dma_region \<Rightarrow> usize \<Rightarrow> 'a \<Rightarrow> ('d world, unit) prog" where
  "write_volatile D t r offset v =
     andthen (of_outcome (check_typed t r offset)) (\<lambda>_.
     dma_store D (unat offset) (encode t v))"

definition read_volatile ::
  "'d device \<Rightarrow> 'a repr \<Rightarrow> dma_region \<Rightarrow> usize \<Rightarrow> ('d world, 'a) prog" where
  "read_volatile D t r offset =
     andthen (of_outcome (check_typed t r offset)) (\<lambda>_.
     andthen (dma_load D (unat offset) (rsize t)) (\<lambda>bs.
     ret (decode t bs)))"

text \<open>\<open>read_bytes\<close> fills a slice of the given length; the model returns its content.\<close>

definition read_bytes ::
  "'d device \<Rightarrow> dma_region \<Rightarrow> usize \<Rightarrow> usize \<Rightarrow> ('d world, u8 list) prog" where
  "read_bytes D r offset len =
     andthen (of_outcome (check_bytes r offset len)) (\<lambda>_.
     dma_load D (unat offset) (unat len))"

definition write_bytes ::
  "'d device \<Rightarrow> dma_region \<Rightarrow> usize \<Rightarrow> u8 list \<Rightarrow> ('d world, unit) prog" where
  "write_bytes D r offset source =
     andthen (of_outcome (check_bytes r offset (of_nat (length source)))) (\<lambda>_.
     dma_store D (unat offset) source)"

section \<open>Allocation\<close>

text \<open>
  The operating system is a parameter: the result of \<open>mmap\<close> for an anonymous hugepage
  mapping of a length (an errno or the address), of \<open>mlock\<close>, and of opening
  \<open>/proc/self/pagemap\<close>, seeking to a byte position and reading eight bytes there. The
  calls that change the process's mappings are recorded in order.
\<close>

record mem_os =
  os_mmap :: "usize \<Rightarrow> nat + usize"
  os_mlock :: "usize \<Rightarrow> usize \<Rightarrow> nat option"
  os_pagemap :: "usize \<Rightarrow> nat + u8 list"

datatype os_call =
    Mmap usize usize
  | ZeroFill usize usize
  | Mlock usize usize
  | Munmap usize usize
  | MmapResource usize usize

definition os_did :: "os_call \<Rightarrow> (os_call list, unit) prog" where
  "os_did c = modify (\<lambda>cs. cs @ [c])"

definition virtual_to_physical :: "mem_os \<Rightarrow> usize \<Rightarrow> u64 outcome" where
  "virtual_to_physical os va =
     (case os_pagemap os (va div PAGE_SIZE * 8) of
        Inl e \<Rightarrow> Err (OsError e)
      | Inr buffer \<Rightarrow>
          let entry = (of_le buffer :: u64)
          in if entry AND push_bit 63 1 = 0 then Err PageNotPresent
             else Ok ((entry AND (push_bit 55 1 - 1)) * PAGE_SIZE + va mod PAGE_SIZE))"

definition alloc_huge :: "mem_os \<Rightarrow> (os_call list, dma_region) prog" where
  "alloc_huge os =
     (case os_mmap os HUGE_PAGE_SIZE of
        Inl e \<Rightarrow> fail (OsError e)
      | Inr va \<Rightarrow>
          andthen (os_did (Mmap va HUGE_PAGE_SIZE)) (\<lambda>_.
          andthen (os_did (ZeroFill va HUGE_PAGE_SIZE)) (\<lambda>_.
          case os_mlock os va HUGE_PAGE_SIZE of
            Some e \<Rightarrow> andthen (os_did (Munmap va HUGE_PAGE_SIZE)) (\<lambda>_. fail (OsError e))
          | None \<Rightarrow>
              andthen (os_did (Mlock va HUGE_PAGE_SIZE)) (\<lambda>_.
              andthen (of_outcome (virtual_to_physical os va)) (\<lambda>pa.
              ret \<lparr>virtual_address = va, dma_length = HUGE_PAGE_SIZE, physical_address = pa\<rparr>)))))"

text \<open>\<open>Drop\<close>.\<close>

definition drop_region :: "dma_region \<Rightarrow> (os_call list, unit) prog" where
  "drop_region r = os_did (Munmap (virtual_address r) (dma_length r))"

section \<open>Bounds\<close>

lemma check_bytes_Ok:
  "check_bytes r offset sz = Ok () \<longleftrightarrow> unat offset + unat sz \<le> unat (dma_length r)"
proof -
  have "unat (dma_length r) < 2 ^ 64" using unsigned_less [of "dma_length r"] by simp
  then show ?thesis
    by (auto simp: check_bytes_def checked_add_def word_le_nat_alt unat_add_no_wrap)
qed

lemma check_bytes_cases: "check_bytes r offset sz = Ok () \<or> (\<exists>p. check_bytes r offset sz = Panic p)"
  by (auto simp: check_bytes_def split: option.split)

lemma check_bytes_not_Err [simp]: "check_bytes r offset sz \<noteq> Err e"
  using check_bytes_cases [of r offset sz] by auto

definition access_ok :: "'a repr \<Rightarrow> dma_region \<Rightarrow> usize \<Rightarrow> bool" where
  "access_ok t r offset \<longleftrightarrow>
     unat offset + rsize t \<le> unat (dma_length r) \<and> unat offset mod ralign t = 0"

lemma word_mod_zero_iff:
  fixes w :: "'a::len word"
  assumes "n < 2 ^ LENGTH('a)"
  shows "w mod of_nat n = 0 \<longleftrightarrow> unat w mod n = 0"
  using assms by (metis unat_mod unat_of_nat_small unsigned_eq_0_iff)

context byte_repr
begin

lemma check_typed_Ok: "check_typed r reg offset = Ok () \<longleftrightarrow> access_ok r reg offset"
proof -
  have "unat (of_nat (rsize r) :: usize) = rsize r" using size_small by (simp add: unat_of_nat_small)
  moreover have "offset mod of_nat (ralign r) = 0 \<longleftrightarrow> unat offset mod ralign r = 0"
    using align_small by (intro word_mod_zero_iff) simp
  ultimately show ?thesis
    using check_bytes_Ok [of reg offset "of_nat (rsize r)"]
    by (auto simp: check_typed_def access_ok_def split: outcome.split)
qed

lemma check_typed_cases: "check_typed r reg offset = Ok () \<or> (\<exists>p. check_typed r reg offset = Panic p)"
  by (auto simp: check_typed_def split: outcome.split)

end

section \<open>The typed access interface\<close>

text \<open>
  What the queue pair and the PRP list builder rely on: at an allowed offset a write stores
  the encoded value there and logs it, a read returns the decoded bytes there, and at any
  other offset both panic before touching anything. The device runs once before each access.
\<close>

locale typed_access = byte_repr r for r :: "'a repr" +
  fixes D :: "'d device"
    and wr :: "usize \<Rightarrow> 'a \<Rightarrow> ('d world, unit) prog"
    and rd :: "usize \<Rightarrow> ('d world, 'a) prog"
    and allowed :: "usize \<Rightarrow> bool"
  assumes wr_allowed: "allowed off \<Longrightarrow> wr off v w =
      (Ok (), (step_device D w)\<lparr>dma := store (dma (step_device D w)) (unat off) (encode r v),
         log := log w @ [DmaStore (unat off) (encode r v)]\<rparr>)"
    and rd_allowed: "allowed off \<Longrightarrow> rd off w =
      (Ok (decode r (load (dma (step_device D w)) (unat off) (rsize r))), step_device D w)"
    and wr_refused: "\<not> allowed off \<Longrightarrow> \<exists>p. wr off v w = (Panic p, w)"
    and rd_refused: "\<not> allowed off \<Longrightarrow> \<exists>p. rd off w = (Panic p, w)"
begin

lemma wr_cases: "fst (wr off v w) = Ok () \<longleftrightarrow> allowed off"
  using wr_allowed [of off v w] wr_refused [of off v w] by (cases "allowed off") auto

lemma safe_wr:
  "allowed off \<Longrightarrow> P (DmaStore (unat off) (encode r v)) \<Longrightarrow> safe log (\<lambda>_. True) P (wr off v) (\<lambda>_. True)"
  by (simp add: safe_def wr_allowed)

lemma safe_rd: "allowed off \<Longrightarrow> safe log (\<lambda>_. True) P (rd off) (\<lambda>_. True)"
  by (simp add: safe_def rd_allowed)

lemma rd_after_wr:
  assumes "allowed off" and "snd (wr off v w) = w'"
    and "load (dma (step_device D w')) (unat off) (rsize r) = load (dma w') (unat off) (rsize r)"
  shows "fst (rd off w') = Ok v"
  using assms by (auto simp: rd_allowed wr_allowed typed_load_store)

lemma wr_frame:
  assumes "unat off + rsize r \<le> a \<or> a + n \<le> unat off"
  shows "load (dma (snd (wr off v w))) a n =
    load (dma (if allowed off then step_device D w else w)) a n"
  using assms wr_refused [of off v w]
  by (auto simp: wr_allowed typed_load_disjoint)

end

context byte_repr
begin

lemma typed_access_region:
  "typed_access r D (write_volatile D r reg) (read_volatile D r reg) (access_ok r reg)"
proof (intro typed_access.intro typed_access_axioms.intro byte_repr_axioms)
  fix off v w
  assume "access_ok r reg off"
  then show "write_volatile D r reg off v w =
    (Ok (), (step_device D w)\<lparr>dma := store (dma (step_device D w)) (unat off) (encode r v),
       log := log w @ [DmaStore (unat off) (encode r v)]\<rparr>)"
    and "read_volatile D r reg off w =
      (Ok (decode r (load (dma (step_device D w)) (unat off) (rsize r))), step_device D w)"
    by (simp_all add: write_volatile_def read_volatile_def run_simps flip: check_typed_Ok)
next
  fix off v w
  assume "\<not> access_ok r reg off"
  then obtain p where "check_typed r reg off = Panic p"
    using check_typed_cases [of reg off] by (auto simp: check_typed_Ok)
  then show "\<exists>p. write_volatile D r reg off v w = (Panic p, w)"
    and "\<exists>p. read_volatile D r reg off w = (Panic p, w)"
    by (simp_all add: write_volatile_def read_volatile_def run_simps)
qed

end

interpretation sqe_access: typed_access sqe_repr D "write_volatile D sqe_repr reg"
  "read_volatile D sqe_repr reg" "access_ok sqe_repr reg" for D reg
  by (rule sqer.typed_access_region)

interpretation cqe_access: typed_access cqe_repr D "write_volatile D cqe_repr reg"
  "read_volatile D cqe_repr reg" "access_ok cqe_repr reg" for D reg
  by (rule cqer.typed_access_region)

interpretation u64_access: typed_access u64_repr D "write_volatile D u64_repr reg"
  "read_volatile D u64_repr reg" "access_ok u64_repr reg" for D reg
  by (rule u64r.typed_access_region)

section \<open>Allocation and access\<close>

definition pagemap_frame :: "u8 list \<Rightarrow> nat" where
  "pagemap_frame bs = unat (of_le bs :: u64) mod 2 ^ 55"

definition pagemap_present :: "u8 list \<Rightarrow> bool" where
  "pagemap_present bs \<longleftrightarrow> bit (of_le bs :: u64) 63"

text \<open>
  C22: The bulk accesses touch exactly the bytes they name, or nothing. When the range lies in
  the region, \<open>write_bytes\<close> stores the bytes at the offset and \<open>read_bytes\<close> returns the bytes
  there; when it does not (the end past the region's length, or the addition overflowing
  \<open>usize\<close>), both panic and the machine is as before: no byte, device state or event changed.
\<close>

theorem bulk_access_confined:
  assumes "length bs < 2 ^ 64"
  shows "if unat off + length bs \<le> unat (dma_length r)
    then write_bytes D r off bs w =
        (Ok (), (step_device D w)\<lparr>dma := store (dma (step_device D w)) (unat off) bs,
           log := log w @ [DmaStore (unat off) bs]\<rparr>) \<and>
      read_bytes D r off (of_nat (length bs)) w =
        (Ok (load (dma (step_device D w)) (unat off) (length bs)), step_device D w)
    else \<exists>p. write_bytes D r off bs w = (Panic p, w) \<and>
      read_bytes D r off (of_nat (length bs)) w = (Panic p, w)"
proof -
  let ?n = "of_nat (length bs) :: usize"
  have n: "unat ?n = length bs" using assms by (simp add: unat_of_nat_small)
  show ?thesis
  proof (cases "unat off + length bs \<le> unat (dma_length r)")
    case True
    then have "check_bytes r off ?n = Ok ()" by (simp only: check_bytes_Ok n)
    then show ?thesis using True
      by (simp add: write_bytes_def read_bytes_def run_simps n del: unat_of_nat)
  next
    case False
    then obtain p where "check_bytes r off ?n = Panic p"
      using check_bytes_cases [of r off ?n] by (auto simp only: check_bytes_Ok n)
    then show ?thesis using False by (simp add: write_bytes_def read_bytes_def run_simps)
  qed
qed

text \<open>
  C25: A page-frame number found in the pagemap is turned into the physical address of the very
  byte asked for: with the present bit set and a frame below \<open>2 ^ 52\<close> (so that the address has
  64 bits) the result lies in that frame, at the offset of the virtual address in its page.
  Without the present bit the call fails, and a failure to read the pagemap is passed on. The
  pagemap entry looked at is the one of the page, eight bytes each.
\<close>

theorem virtual_to_physical_translates:
  assumes "os_pagemap os (of_nat (unat va div 4096 * 8)) = e"
    and "\<And>bs. e = Inr bs \<Longrightarrow> pagemap_frame bs < 2 ^ 52"
  shows "case e of
      Inl n \<Rightarrow> virtual_to_physical os va = Err (OsError n)
    | Inr bs \<Rightarrow>
        if pagemap_present bs
        then \<exists>pa. virtual_to_physical os va = Ok pa \<and>
          unat pa = pagemap_frame bs * 4096 + unat va mod 4096
        else virtual_to_physical os va = Err PageNotPresent"
proof -
  have "va div PAGE_SIZE * 8 = of_nat (unat va div 4096 * 8)"
  proof (rule unat_eqD)
    have "unat va < 2 ^ 64" using unsigned_less [of va] by simp
    then show "unat (va div PAGE_SIZE * 8) = unat va div 4096 * 8"
      by (simp add: PAGE_SIZE_def unat_mult_no_wrap unat_div)
  qed
  then have e: "os_pagemap os (va div PAGE_SIZE * 8) = e" using assms(1) by (simp only:)
  show ?thesis
  proof (cases e)
    case (Inr bs)
    let ?w = "of_le bs :: u64"
    let ?f = "?w AND (push_bit 55 1 - 1)"
    have p: "?w AND push_bit 63 1 = 0 \<longleftrightarrow> \<not> pagemap_present bs"
      by (simp only: pagemap_present_def push_bit_of_1 and_exp_eq_0_iff_not_bit)
    define fr where "fr = ?f"
    have "fr = ?w AND mask 55" by (simp add: fr_def mask_eq_exp_minus_1 push_bit_of_1)
    then have f: "unat fr = pagemap_frame bs" by (simp only: unat_and_mask pagemap_frame_def)
    have small: "pagemap_frame bs < 2 ^ 52" using assms(2) Inr by simp
    then have "unat (fr * PAGE_SIZE) = pagemap_frame bs * 4096"
      by (subst unat_mult_no_wrap) (simp_all add: f PAGE_SIZE_def)
    moreover have "unat (va mod PAGE_SIZE) = unat va mod 4096" by (simp add: PAGE_SIZE_def unat_mod)
    ultimately have "unat (fr * PAGE_SIZE + va mod PAGE_SIZE) = pagemap_frame bs * 4096 + unat va mod 4096"
      using small by (subst unat_add_no_wrap) simp_all
    then have "pagemap_present bs \<Longrightarrow> \<exists>pa. virtual_to_physical os va = Ok pa \<and>
        unat pa = pagemap_frame bs * 4096 + unat va mod 4096"
      by (simp only: virtual_to_physical_def e Inr sum.case Let_def p fr_def not_True_eq_False if_False) simp
    moreover have "\<not> pagemap_present bs \<Longrightarrow> virtual_to_physical os va = Err PageNotPresent"
      by (simp only: virtual_to_physical_def e Inr sum.case Let_def p not_False_eq_True if_True)
    ultimately show ?thesis using Inr by simp
  qed (use e in \<open>simp add: virtual_to_physical_def\<close>)
qed

definition example_pagemap :: mem_os where
  "example_pagemap = \<lparr>os_mmap = \<lambda>_. Inr 0x200000, os_mlock = \<lambda>_ _. None,
     os_pagemap = \<lambda>pos. if pos = 8 then Inr (le_bytes 8 (0x8000000000012345 :: u64)) else Inl 5\<rparr>"

theorem virtual_to_physical_translates_witness:
  "\<exists>pa. virtual_to_physical example_pagemap 0x1678 = Ok pa \<and> unat pa = 0x12345678"
proof -
  let ?bs = "le_bytes 8 (0x8000000000012345 :: u64)"
  have le: "(of_le ?bs :: u64) = 0x8000000000012345" by (rule of_le_le_bytes) simp
  have "pagemap_frame ?bs = 0x12345" by (simp only: pagemap_frame_def le) simp
  moreover have "pagemap_present ?bs" by (simp only: pagemap_present_def le) simp
  ultimately show ?thesis
    using virtual_to_physical_translates [of example_pagemap "0x1678" "Inr ?bs"]
    by (simp add: example_pagemap_def)
qed

text \<open>
  The mapping of \<open>alloc_huge\<close>, on every path, from the calls it makes. On success the
  region describes the mapping it made, zeroed it and locked it before asking for its physical
  address, and \<open>drop\<close> unmaps exactly it. When mapping fails nothing was mapped; when locking
  fails the mapping is removed again. But when the translation fails, nothing unmaps it: the
  early return happens before the \<open>DmaRegion\<close> whose \<open>Drop\<close> would, and the hugepage stays
  mapped and locked.
\<close>

lemma alloc_huge_mappings:
  "case os_mmap os HUGE_PAGE_SIZE of
     Inl e \<Rightarrow> alloc_huge os cs = (Err (OsError e), cs)
   | Inr va \<Rightarrow>
     (let mapped = cs @ [Mmap va HUGE_PAGE_SIZE, ZeroFill va HUGE_PAGE_SIZE] in
      case os_mlock os va HUGE_PAGE_SIZE of
        Some e \<Rightarrow> alloc_huge os cs = (Err (OsError e), mapped @ [Munmap va HUGE_PAGE_SIZE])
      | None \<Rightarrow>
          (case virtual_to_physical os va of
             Ok pa \<Rightarrow> (\<exists>r. alloc_huge os cs = (Ok r, mapped @ [Mlock va HUGE_PAGE_SIZE]) \<and>
               virtual_address r = va \<and> physical_address r = pa \<and> unat (dma_length r) = 2 ^ 21 \<and>
               drop_region r cs' = (Ok (), cs' @ [Munmap va HUGE_PAGE_SIZE]))
           | Err e \<Rightarrow> alloc_huge os cs = (Err e, mapped @ [Mlock va HUGE_PAGE_SIZE])
           | Panic p \<Rightarrow> False))"
  by (auto simp: alloc_huge_def drop_region_def os_did_def run_simps HUGE_PAGE_SIZE_def
      virtual_to_physical_def Let_def split: sum.split option.split outcome.split)

end
