(* ===== verification/Nvme_Bar.thy ===== *)
theory Nvme_Bar
  imports Machine Dma_Region
begin

text \<open>
  \<open>src/nvme_bar.rs\<close>: the mapped register BAR. Every access is checked for bounds and
  natural alignment, then goes to the device. The \<open>chat!\<close> lines only narrate on stderr and
  are not modelled; the register decoding they print is (\<open>cap_max_queue_entries\<close> and so on).
\<close>

unbundle bit_operations_syntax

record nvme_bar =
  bar_address :: usize
  bar_length :: usize

text \<open>
  \<open>NvmeBar::map\<close>. The operating system gives the result of opening the resource file of a
  PCI function and BAR index, its length, and the result of mapping that length.
\<close>

record bar_os =
  os_open_resource :: "rtext \<Rightarrow> u8 \<Rightarrow> nat option"
  os_resource_length :: "rtext \<Rightarrow> u8 \<Rightarrow> nat + u64"
  os_mmap_resource :: "rtext \<Rightarrow> u8 \<Rightarrow> usize \<Rightarrow> nat + usize"

definition bar_map :: "bar_os \<Rightarrow> rtext \<Rightarrow> u8 \<Rightarrow> (os_call list, nvme_bar) prog" where
  "bar_map os bdf index =
     (case os_open_resource os bdf index of
        Some e \<Rightarrow> fail (OsError e)
      | None \<Rightarrow>
          case os_resource_length os bdf index of
            Inl e \<Rightarrow> fail (OsError e)
          | Inr len \<Rightarrow>
              case os_mmap_resource os bdf index len of
                Inl e \<Rightarrow> fail (OsError e)
              | Inr a \<Rightarrow>
                  andthen (os_did (MmapResource a len)) (\<lambda>_.
                  ret \<lparr>bar_address = a, bar_length = len\<rparr>))"

text \<open>\<open>Drop\<close>.\<close>

definition drop_bar :: "nvme_bar \<Rightarrow> (os_call list, unit) prog" where
  "drop_bar b = os_did (Munmap (bar_address b) (bar_length b))"

definition bar_check :: "nvme_bar \<Rightarrow> usize \<Rightarrow> usize \<Rightarrow> unit outcome" where
  "bar_check b offset sz =
     (case checked_add offset sz of
        None \<Rightarrow> Panic OffsetOverflow
      | Some stop \<Rightarrow>
          if \<not> stop \<le> bar_length b then Panic (AccessOutOfBounds offset sz (bar_length b))
          else if offset mod sz \<noteq> 0 then Panic (AccessUnaligned offset sz)
          else Ok ())"

definition read32 :: "'d device \<Rightarrow> nvme_bar \<Rightarrow> usize \<Rightarrow> ('d world, u32) prog" where
  "read32 D b offset = andthen (of_outcome (bar_check b offset 4)) (\<lambda>_. reg_read32 D offset)"

definition write32 :: "'d device \<Rightarrow> nvme_bar \<Rightarrow> usize \<Rightarrow> u32 \<Rightarrow> ('d world, unit) prog" where
  "write32 D b offset v = andthen (of_outcome (bar_check b offset 4)) (\<lambda>_. reg_write32 D offset v)"

definition read64 :: "'d device \<Rightarrow> nvme_bar \<Rightarrow> usize \<Rightarrow> ('d world, u64) prog" where
  "read64 D b offset = andthen (of_outcome (bar_check b offset 8)) (\<lambda>_. reg_read64 D offset)"

definition write64 :: "'d device \<Rightarrow> nvme_bar \<Rightarrow> usize \<Rightarrow> u64 \<Rightarrow> ('d world, unit) prog" where
  "write64 D b offset v = andthen (of_outcome (bar_check b offset 8)) (\<lambda>_. reg_write64 D offset v)"

section \<open>Register accessors\<close>

definition cap_max_queue_entries :: "u64 \<Rightarrow> u64" where
  "cap_max_queue_entries value = (value AND 0xFFFF) + 1"

definition cap_timeout_ms :: "u64 \<Rightarrow> u64" where
  "cap_timeout_ms value = (drop_bit 24 value AND 0xFF) * 500"

definition cap_stride :: "u64 \<Rightarrow> usize" where
  "cap_stride value = shl_masked 4 (unat (drop_bit 32 value AND 0xF))"

definition read_capabilities :: "'d device \<Rightarrow> nvme_bar \<Rightarrow> ('d world, u64) prog" where
  "read_capabilities D b = read64 D b CAP"

definition read_configuration :: "'d device \<Rightarrow> nvme_bar \<Rightarrow> ('d world, u32) prog" where
  "read_configuration D b = read32 D b CC"

definition write_configuration :: "'d device \<Rightarrow> nvme_bar \<Rightarrow> u32 \<Rightarrow> ('d world, unit) prog" where
  "write_configuration D b value = write32 D b CC value"

definition read_status :: "'d device \<Rightarrow> nvme_bar \<Rightarrow> ('d world, u32) prog" where
  "read_status D b = read32 D b CSTS"

definition write_admin_queue_attributes ::
  "'d device \<Rightarrow> nvme_bar \<Rightarrow> u32 \<Rightarrow> ('d world, unit) prog" where
  "write_admin_queue_attributes D b value = write32 D b AQA value"

definition write_admin_submission_queue ::
  "'d device \<Rightarrow> nvme_bar \<Rightarrow> u64 \<Rightarrow> ('d world, unit) prog" where
  "write_admin_submission_queue D b physical = write64 D b ASQ physical"

definition write_admin_completion_queue ::
  "'d device \<Rightarrow> nvme_bar \<Rightarrow> u64 \<Rightarrow> ('d world, unit) prog" where
  "write_admin_completion_queue D b physical = write64 D b ACQ physical"

definition submission_doorbell :: "u16 \<Rightarrow> usize \<Rightarrow> usize" where
  "submission_doorbell queue_id stride = DOORBELL_BASE + (2 * ucast queue_id) * stride"

definition completion_doorbell :: "u16 \<Rightarrow> usize \<Rightarrow> usize" where
  "completion_doorbell queue_id stride = DOORBELL_BASE + (2 * ucast queue_id + 1) * stride"

definition ring_submission_doorbell ::
  "'d device \<Rightarrow> nvme_bar \<Rightarrow> u16 \<Rightarrow> usize \<Rightarrow> u32 \<Rightarrow> ('d world, unit) prog" where
  "ring_submission_doorbell D b queue_id stride value =
     write32 D b (submission_doorbell queue_id stride) value"

definition ring_completion_doorbell ::
  "'d device \<Rightarrow> nvme_bar \<Rightarrow> u16 \<Rightarrow> usize \<Rightarrow> u32 \<Rightarrow> ('d world, unit) prog" where
  "ring_completion_doorbell D b queue_id stride value =
     write32 D b (completion_doorbell queue_id stride) value"

section \<open>The register access interface\<close>

text \<open>
  What the queue pair and the driver rely on: an access at an allowed offset reaches the
  device, which has run once before it, and a write is logged; any other access panics
  before it has an effect. The region's bytes change only through the device.
\<close>

locale mmio_access =
  fixes D :: "'d device"
    and wr :: "usize \<Rightarrow> 'v \<Rightarrow> ('d world, unit) prog"
    and rd :: "usize \<Rightarrow> ('d world, 'v) prog"
    and allowed :: "usize \<Rightarrow> bool"
    and dwrite :: "'d \<Rightarrow> usize \<Rightarrow> 'v \<Rightarrow> 'd"
    and dread :: "'d \<Rightarrow> usize \<Rightarrow> 'v \<times> 'd"
    and ev :: "usize \<Rightarrow> 'v \<Rightarrow> event"
  assumes wr_allowed: "allowed off \<Longrightarrow> wr off v w =
      (Ok (), (step_device D w)\<lparr>dev := dwrite (dev (step_device D w)) off v,
         log := log w @ [ev off v]\<rparr>)"
    and rd_allowed: "allowed off \<Longrightarrow> rd off w =
      (Ok (fst (dread (dev (step_device D w)) off)),
       (step_device D w)\<lparr>dev := snd (dread (dev (step_device D w)) off)\<rparr>)"
    and wr_refused: "\<not> allowed off \<Longrightarrow> \<exists>p. wr off v w = (Panic p, w)"
    and rd_refused: "\<not> allowed off \<Longrightarrow> \<exists>p. rd off w = (Panic p, w)"
begin

lemma safe_wr:
  "allowed off \<Longrightarrow> P (ev off v) \<Longrightarrow> safe log (\<lambda>_. True) P (wr off v) (\<lambda>_. True)"
  by (simp add: safe_def wr_allowed)

lemma safe_rd: "allowed off \<Longrightarrow> safe log (\<lambda>_. True) P (rd off) (\<lambda>_. True)"
  by (simp add: safe_def rd_allowed)

lemma wr_dma: "dma (snd (wr off v w)) = dma (if allowed off then step_device D w else w)"
  using wr_allowed [of off v w] wr_refused [of off v w] by (cases "allowed off") auto

end

definition reg_ok :: "nat \<Rightarrow> nvme_bar \<Rightarrow> usize \<Rightarrow> bool" where
  "reg_ok n b offset \<longleftrightarrow> unat offset + n \<le> unat (bar_length b) \<and> unat offset mod n = 0"

lemma bar_check_Ok:
  assumes "n < 2 ^ 64"
  shows "bar_check b offset (of_nat n) = Ok () \<longleftrightarrow> reg_ok n b offset"
proof -
  have n: "unat (of_nat n :: usize) = n" using assms by (simp add: unat_of_nat_small)
  have "unat (bar_length b) < 2 ^ 64" using unsigned_less [of "bar_length b"] by simp
  moreover have "offset mod of_nat n = 0 \<longleftrightarrow> unat offset mod n = 0"
    using assms by (intro word_mod_zero_iff) simp
  ultimately show ?thesis
    by (auto simp: bar_check_def checked_add_def word_le_nat_alt unat_add_no_wrap reg_ok_def n)
qed

lemma bar_check_cases: "bar_check b offset sz = Ok () \<or> (\<exists>p. bar_check b offset sz = Panic p)"
  by (auto simp: bar_check_def split: option.split)

lemma bar_check_4: "bar_check b offset 4 = Ok () \<longleftrightarrow> reg_ok 4 b offset"
  using bar_check_Ok [of 4 b offset] by simp

lemma bar_check_8: "bar_check b offset 8 = Ok () \<longleftrightarrow> reg_ok 8 b offset"
  using bar_check_Ok [of 8 b offset] by simp

interpretation reg32: mmio_access D "write32 D b" "read32 D b" "reg_ok 4 b"
  "dev_write32 D" "dev_read32 D" RegWrite32 for D b
proof
  fix off v w assume "reg_ok 4 b off"
  then show "write32 D b off v w = (Ok (), (step_device D w)\<lparr>
      dev := dev_write32 D (dev (step_device D w)) off v, log := log w @ [RegWrite32 off v]\<rparr>)"
    and "read32 D b off w = (Ok (fst (dev_read32 D (dev (step_device D w)) off)),
       (step_device D w)\<lparr>dev := snd (dev_read32 D (dev (step_device D w)) off)\<rparr>)"
    by (simp_all add: write32_def read32_def run_simps flip: bar_check_4)
next
  fix off v w assume "\<not> reg_ok 4 b off"
  then obtain p where "bar_check b off 4 = Panic p"
    using bar_check_cases [of b off 4] by (auto simp: bar_check_4)
  then show "\<exists>p. write32 D b off v w = (Panic p, w)" and "\<exists>p. read32 D b off w = (Panic p, w)"
    by (simp_all add: write32_def read32_def run_simps)
qed

interpretation reg64: mmio_access D "write64 D b" "read64 D b" "reg_ok 8 b"
  "dev_write64 D" "dev_read64 D" RegWrite64 for D b
proof
  fix off v w assume "reg_ok 8 b off"
  then show "write64 D b off v w = (Ok (), (step_device D w)\<lparr>
      dev := dev_write64 D (dev (step_device D w)) off v, log := log w @ [RegWrite64 off v]\<rparr>)"
    and "read64 D b off w = (Ok (fst (dev_read64 D (dev (step_device D w)) off)),
       (step_device D w)\<lparr>dev := snd (dev_read64 D (dev (step_device D w)) off)\<rparr>)"
    by (simp_all add: write64_def read64_def run_simps flip: bar_check_8)
next
  fix off v w assume "\<not> reg_ok 8 b off"
  then obtain p where "bar_check b off 8 = Panic p"
    using bar_check_cases [of b off 8] by (auto simp: bar_check_8)
  then show "\<exists>p. write64 D b off v w = (Panic p, w)" and "\<exists>p. read64 D b off w = (Panic p, w)"
    by (simp_all add: write64_def read64_def run_simps)
qed

section \<open>What the accesses and the doorbells guarantee\<close>

text \<open>
  C23: Register access on every branch. A 32-bit or 64-bit access whose bytes lie inside the
  mapped BAR at a multiple of its size reaches the device once, with exactly that offset, and a
  write is the only event it leaves; any other offset (past the end, an end that overflows
  \<open>usize\<close>, or unaligned) panics without an effect on the device, the memory or the log.
\<close>

theorem register_access_checked:
  "(if unat off + 4 \<le> unat (bar_length b) \<and> unat off mod 4 = 0
    then write32 D b off v w = (Ok (), (step_device D w)\<lparr>
           dev := dev_write32 D (dev (step_device D w)) off v, log := log w @ [RegWrite32 off v]\<rparr>) \<and>
         fst (read32 D b off w) = Ok (fst (dev_read32 D (dev (step_device D w)) off))
    else \<exists>p q. write32 D b off v w = (Panic p, w) \<and> read32 D b off w = (Panic q, w)) \<and>
   (if unat off + 8 \<le> unat (bar_length b) \<and> unat off mod 8 = 0
    then write64 D b off u w = (Ok (), (step_device D w)\<lparr>
           dev := dev_write64 D (dev (step_device D w)) off u, log := log w @ [RegWrite64 off u]\<rparr>) \<and>
         fst (read64 D b off w) = Ok (fst (dev_read64 D (dev (step_device D w)) off))
    else \<exists>p q. write64 D b off u w = (Panic p, w) \<and> read64 D b off w = (Panic q, w))"
  using reg32.wr_allowed [of b off D v w] reg32.rd_allowed [of b off D w]
    reg32.wr_refused [of b off D v w] reg32.rd_refused [of b off D w]
    reg64.wr_allowed [of b off D u w] reg64.rd_allowed [of b off D w]
    reg64.wr_refused [of b off D u w] reg64.rd_refused [of b off D w]
  by (cases "reg_ok 4 b off"; cases "reg_ok 8 b off") (auto simp: reg_ok_def)

lemma cap_stride_pow: "unat (cap_stride v) = 4 * 2 ^ (unat v div 2 ^ 32 mod 16)"
proof -
  let ?d = "unat v div 2 ^ 32 mod 16"
  have d: "unat (drop_bit 32 v AND 0xF) = ?d" by (simp only: unat_bits) simp
  have "?d < 16" by simp
  moreover from this have "(2::nat) ^ ?d \<le> 2 ^ 15" by (intro power_increasing) simp_all
  then have "4 * 2 ^ ?d < (2::nat) ^ LENGTH(64)" by simp
  then have "unat (of_nat (4 * 2 ^ ?d) :: usize) = 4 * 2 ^ ?d" by (rule unat_of_nat_small)
  moreover have "push_bit ?d 4 = (of_nat (4 * 2 ^ ?d) :: usize)" by (simp add: push_bit_eq_mult)
  ultimately show ?thesis by (simp only: cap_stride_def shl_masked_def d) simp
qed

text \<open>The doorbell of a queue: its submission tail, or its completion head.\<close>

definition doorbell :: "bool \<Rightarrow> u16 \<Rightarrow> usize \<Rightarrow> usize" where
  "doorbell completion queue_id stride =
     (if completion then completion_doorbell queue_id stride else submission_doorbell queue_id stride)"

definition doorbell_index :: "bool \<Rightarrow> u16 \<Rightarrow> nat" where
  "doorbell_index completion queue_id = 2 * unat queue_id + (if completion then 1 else 0)"

lemma unat_doorbell:
  assumes "unat s \<le> 2 ^ 17"
  shows "unat (doorbell c q s) = 4096 + doorbell_index c q * unat s"
proof -
  let ?k = "2 * ucast q + (if c then 1 else 0) :: usize"
  have "unat (ucast q :: usize) = unat q" by (rule unat_ucast_up) simp
  moreover have q: "unat q < 2 ^ 16" using unsigned_less [of q] by simp
  ultimately have k: "unat ?k = doorbell_index c q"
    by (simp add: doorbell_index_def unat_word_ariths)
  have "doorbell_index c q * unat s \<le> 2 ^ 17 * 2 ^ 17"
    using q assms by (intro mult_le_mono) (simp_all add: doorbell_index_def)
  then have "unat (?k * s) = doorbell_index c q * unat s"
      and "doorbell_index c q * unat s + 4096 < 2 ^ 64"
    using unat_mult_no_wrap [of ?k s] k by simp_all
  moreover have "doorbell c q s = DOORBELL_BASE + ?k * s"
    by (simp add: doorbell_def submission_doorbell_def completion_doorbell_def)
  ultimately show ?thesis
    using unat_add_no_wrap [of DOORBELL_BASE "?k * s"] by (simp add: DOORBELL_BASE_def)
qed

lemma doorbell_index_inj: "doorbell_index c q = doorbell_index c' q' \<longleftrightarrow> c = c' \<and> q = q'"
proof
  assume "doorbell_index c q = doorbell_index c' q'"
  then have "c = c'" and "unat q = unat q'"
    by (auto simp: doorbell_index_def split: if_splits) presburger+
  then show "c = c' \<and> q = q'" by (simp add: word_unat_eq_iff)
qed simp

text \<open>
  C24: With the stride read from any CAP value, the doorbells of any two queues, or of the two
  ends of one queue, are 32-bit registers that do not overlap, each aligned to four bytes and
  above every other controller register: ringing one queue's doorbell can reach neither another
  queue nor the configuration registers. The address arithmetic does not wrap.
\<close>

theorem doorbells_disjoint:
  assumes "(c, q) \<noteq> (c', q')"
  shows "let a = unat (doorbell c q (cap_stride cap)); a' = unat (doorbell c' q' (cap_stride cap))
    in (a + 4 \<le> a' \<or> a' + 4 \<le> a) \<and> a mod 4 = 0 \<and> unat ACQ + 8 \<le> a \<and>
      a = 4096 + doorbell_index c q * (4 * 2 ^ (unat cap div 2 ^ 32 mod 16))"
proof -
  define s where "s = unat (cap_stride cap)"
  have s: "s = 4 * 2 ^ (unat cap div 2 ^ 32 mod 16)" by (simp only: s_def cap_stride_pow)
  have "unat cap div 2 ^ 32 mod 16 \<le> 15" by simp
  then have "(2::nat) ^ (unat cap div 2 ^ 32 mod 16) \<le> 2 ^ 15" by (rule power_increasing) simp
  then have le: "unat (cap_stride cap) \<le> 2 ^ 17" using s by (simp add: s_def)
  have gap: "i * s + 4 \<le> j * s" if "i < j" for i j
  proof -
    have "Suc i * s \<le> j * s" using that by (intro mult_le_mono1) simp
    moreover have "4 \<le> s" using s by simp
    ultimately show ?thesis by simp
  qed
  have "doorbell_index c q \<noteq> doorbell_index c' q'" using assms by (simp add: doorbell_index_inj)
  then have "doorbell_index c q * s + 4 \<le> doorbell_index c' q' * s \<or>
      doorbell_index c' q' * s + 4 \<le> doorbell_index c q * s"
    using gap by (metis nat_neq_iff)
  moreover have "(4096 + doorbell_index c q * s) mod 4 = 0" by (simp add: s)
  ultimately show ?thesis
    using s by (auto simp: unat_doorbell [OF le] Let_def ACQ_def simp flip: s_def)
qed

theorem doorbells_disjoint_witness:
  "unat (doorbell False 1 (cap_stride 0x100000000)) + 4 \<le> unat (doorbell True 1 (cap_stride 0x100000000)) \<or>
   unat (doorbell True 1 (cap_stride 0x100000000)) + 4 \<le> unat (doorbell False 1 (cap_stride 0x100000000))"
  using doorbells_disjoint [of False 1 True 1 "0x100000000"] unfolding Let_def by blast

end
