(* ===== verification/Queue_Pair.thy ===== *)
theory Queue_Pair
  imports Dma_Region Nvme_Bar
begin

text \<open>
  \<open>src/queue_pair.rs\<close>: one submission/completion queue pair. The state of the methods is
  the queue pair (\<open>&mut self\<close>) and the world.
\<close>

unbundle bit_operations_syntax

definition QUEUE_DEPTH :: usize where "QUEUE_DEPTH = 64"

record queue_pair =
  queue_id :: u16
  submission_offset :: usize
  completion_offset :: usize
  submission_tail :: u32
  completion_head :: u32
  completion_phase :: bool
  next_cid :: u16

definition queue_new :: "u16 \<Rightarrow> usize \<Rightarrow> usize \<Rightarrow> queue_pair" where
  "queue_new ident sq_offset cq_offset =
     \<lparr>queue_id = ident, submission_offset = sq_offset, completion_offset = cq_offset,
      submission_tail = 0, completion_head = 0, completion_phase = True, next_cid = 0\<rparr>"

text \<open>The slots the next command and the next completion use.\<close>

definition sqe_slot :: "queue_pair \<Rightarrow> usize" where
  "sqe_slot q = submission_offset q + ucast (submission_tail q) * of_nat (rsize sqe_repr)"

definition cqe_slot :: "queue_pair \<Rightarrow> usize" where
  "cqe_slot q = completion_offset q + ucast (completion_head q) * of_nat (rsize cqe_repr)"

text \<open>The updates of the queue pair: taking a command identifier, advancing tail and head.\<close>

definition take_cid :: "queue_pair \<Rightarrow> queue_pair" where
  "take_cid q = q\<lparr>next_cid := next_cid q + 1\<rparr>"

definition advance_tail :: "queue_pair \<Rightarrow> queue_pair" where
  "advance_tail q = q\<lparr>submission_tail := (submission_tail q + 1) mod ucast QUEUE_DEPTH\<rparr>"

definition advance_head :: "queue_pair \<Rightarrow> queue_pair" where
  "advance_head q =
     (let q = q\<lparr>completion_head := (completion_head q + 1) mod ucast QUEUE_DEPTH\<rparr>
      in if completion_head q = 0 then q\<lparr>completion_phase := \<not> completion_phase q\<rparr> else q)"

text \<open>A completion with the expected phase tag was read: consume it (the \<open>if\<close> of the loop).\<close>

definition consume_completion ::
  "'d device \<Rightarrow> nvme_bar \<Rightarrow> usize \<Rightarrow> u16 \<Rightarrow> completion_queue_entry \<Rightarrow>
   (queue_pair \<times> 'd world, completion_queue_entry) prog" where
  "consume_completion D bar stride cid completion =
     andthen (on_snd (emit Fence)) (\<lambda>_.
     andthen (on_fst (modify advance_head)) (\<lambda>_.
     andthen (gets fst) (\<lambda>q.
     andthen (on_snd (ring_completion_doorbell D bar (queue_id q) stride (completion_head q))) (\<lambda>_.
     if cqe_cid completion \<noteq> cid then fail (CidMismatch (cqe_cid completion) cid)
     else ret completion))))"

text \<open>
  The polling loop, entered with the number of spins so far. It gives up when the
  incremented count exceeds 200\,000, so a call reads the slot at most 200\,001 times.
\<close>

function poll ::
  "'d device \<Rightarrow> nvme_bar \<Rightarrow> dma_region \<Rightarrow> usize \<Rightarrow> u16 \<Rightarrow> nat \<Rightarrow>
   (queue_pair \<times> 'd world, completion_queue_entry) prog" where
  "poll D bar region stride cid spins =
     andthen (on_snd pause) (\<lambda>_.
     andthen (gets fst) (\<lambda>q.
     andthen (on_snd (read_volatile D cqe_repr region (cqe_slot q))) (\<lambda>completion.
     if phase completion = completion_phase q then
       consume_completion D bar stride cid completion
     else if spins + 1 > 200000 then fail PollTimedOut
     else poll D bar region stride cid (spins + 1))))"
  by pat_completeness auto
termination
  by (relation "measure (\<lambda>(D, bar, region, stride, cid, spins). 200001 - spins)") auto

declare poll.simps [simp del]

definition submit_and_wait ::
  "'d device \<Rightarrow> nvme_bar \<Rightarrow> dma_region \<Rightarrow> usize \<Rightarrow> submission_queue_entry \<Rightarrow>
   (queue_pair \<times> 'd world, completion_queue_entry) prog" where
  "submit_and_wait D bar region stride command =
     andthen (gets (\<lambda>(q, w). next_cid q)) (\<lambda>cid.
     andthen (on_fst (modify take_cid)) (\<lambda>_.
     andthen (gets (\<lambda>(q, w). sqe_slot q)) (\<lambda>sqe_offset.
     andthen (on_snd (write_volatile D sqe_repr region sqe_offset (command\<lparr>sqe_cid := cid\<rparr>))) (\<lambda>_.
     andthen (on_snd (read_volatile D sqe_repr region sqe_offset)) (\<lambda>written_back.
     andthen (on_snd (emit Fence)) (\<lambda>_.
     andthen (on_fst (modify advance_tail)) (\<lambda>_.
     andthen (gets fst) (\<lambda>q.
     andthen (on_snd (ring_submission_doorbell D bar (queue_id q) stride (submission_tail q))) (\<lambda>_.
     poll D bar region stride cid 0)))))))))"

section \<open>Ring positions\<close>

text \<open>
  The tail, the head and the command identifier are counters modulo a depth; the head also
  carries a phase tag that flips when it wraps. Iterating the update \<open>n\<close> times from
  position 0 gives \<open>n mod depth\<close> and the lap parity: the ring counters represent unbounded
  counts.
\<close>

locale modular_counter =
  fixes bump :: "'s \<Rightarrow> 's" and pos :: "'s \<Rightarrow> nat" and depth :: nat
  assumes depth_pos: "0 < depth"
    and pos_bump: "pos (bump s) = (pos s + 1) mod depth"
begin

lemma pos_bump_less: "pos (bump s) < depth"
  using depth_pos by (simp add: pos_bump)

lemma at_bump: "pos s = n mod depth \<Longrightarrow> pos (bump s) = Suc n mod depth"
  by (simp add: pos_bump mod_Suc_eq)

lemma pos_iter: "pos s < depth \<Longrightarrow> pos ((bump ^^ n) s) = (pos s + n) mod depth"
  by (induction n) (simp_all add: pos_bump mod_Suc_eq)

end

locale tagged_counter = modular_counter bump pos depth
  for bump :: "'s \<Rightarrow> 's" and pos :: "'s \<Rightarrow> nat" and depth :: nat +
  fixes tag :: "'s \<Rightarrow> bool"
  assumes tag_bump: "tag (bump s) = (if pos (bump s) = 0 then \<not> tag s else tag s)"
begin

lemma lap_bump:
  assumes "pos s = n mod depth" and "tag s = even (n div depth)"
  shows "tag (bump s) = even (Suc n div depth)"
proof -
  have "Suc n div depth = (if Suc n mod depth = 0 then Suc (n div depth) else n div depth)"
    by (simp add: div_Suc)
  with assms show ?thesis by (simp add: tag_bump pos_bump mod_Suc_eq)
qed

end

lemma advance_tail_simps [simp]:
  "queue_id (advance_tail q) = queue_id q" "submission_offset (advance_tail q) = submission_offset q"
  "completion_offset (advance_tail q) = completion_offset q"
  "completion_head (advance_tail q) = completion_head q"
  "completion_phase (advance_tail q) = completion_phase q" "next_cid (advance_tail q) = next_cid q"
  by (simp_all add: advance_tail_def)

lemma take_cid_simps [simp]:
  "queue_id (take_cid q) = queue_id q" "submission_offset (take_cid q) = submission_offset q"
  "completion_offset (take_cid q) = completion_offset q"
  "completion_head (take_cid q) = completion_head q"
  "completion_phase (take_cid q) = completion_phase q"
  "submission_tail (take_cid q) = submission_tail q"
  by (simp_all add: take_cid_def)

lemma advance_head_simps [simp]:
  "queue_id (advance_head q) = queue_id q" "submission_offset (advance_head q) = submission_offset q"
  "completion_offset (advance_head q) = completion_offset q"
  "submission_tail (advance_head q) = submission_tail q" "next_cid (advance_head q) = next_cid q"
  by (simp_all add: advance_head_def Let_def)

lemma unat_bump_64: "unat ((x + 1) mod ucast QUEUE_DEPTH) = (unat x + 1) mod 64" for x :: u32
proof -
  have "unat (x + 1) mod 64 = (unat x + 1) mod 64"
    by (simp add: unat_word_ariths mod_mod_cancel)
  then show ?thesis by (simp add: QUEUE_DEPTH_def unat_mod)
qed

lemma bump_64_zero:
  "(x + 1) mod ucast QUEUE_DEPTH = 0 \<longleftrightarrow> Suc (unat x) mod 64 = 0" for x :: u32
  using unat_bump_64 [of x] by (metis Suc_eq_plus1 unsigned_eq_0_iff)

interpretation sq_tail: modular_counter advance_tail "\<lambda>q. unat (submission_tail q)" 64
  by unfold_locales (simp_all add: advance_tail_def unat_bump_64)

interpretation cid_counter: modular_counter take_cid "\<lambda>q. unat (next_cid q)" "2 ^ 16"
  by unfold_locales (simp_all add: take_cid_def unat_word_ariths)

interpretation cq_head: tagged_counter advance_head "\<lambda>q. unat (completion_head q)" 64
  completion_phase
  by unfold_locales
    (simp_all add: advance_head_def Let_def unat_bump_64 bump_64_zero)

section \<open>One submission\<close>

text \<open>What the slots rely on: the rings lie in the region and the doorbells in the BAR.\<close>

definition queue_ok :: "nvme_bar \<Rightarrow> dma_region \<Rightarrow> usize \<Rightarrow> queue_pair \<Rightarrow> bool" where
  "queue_ok bar region stride q \<longleftrightarrow>
     unat (submission_tail q) < 64 \<and> unat (completion_head q) < 64 \<and>
     unat (submission_offset q) mod 8 = 0 \<and> unat (completion_offset q) mod 4 = 0 \<and>
     unat (submission_offset q) + 64 * 64 \<le> unat (dma_length region) \<and>
     unat (completion_offset q) + 64 * 16 \<le> unat (dma_length region) \<and>
     reg_ok 4 bar (submission_doorbell (queue_id q) stride) \<and>
     reg_ok 4 bar (completion_doorbell (queue_id q) stride)"

lemma unat_slot:
  fixes off :: usize and i :: u32
  assumes "unat i < 64" and "n \<le> 64" and "unat off + 64 * n < 2 ^ 64"
  shows "unat (off + ucast i * of_nat n) = unat off + unat i * n"
proof -
  have i: "unat (ucast i :: usize) = unat i" by (simp add: unat_ucast_up)
  have n: "unat (of_nat n :: usize) = n" using assms by (simp add: unat_of_nat_small)
  have le: "unat i * n \<le> 64 * n" using assms by (intro mult_le_mono1) simp
  then have lt: "unat i * n < 2 ^ 64" using assms(3) by linarith
  then have p: "unat (ucast i * of_nat n :: usize) = unat i * n"
    using lt by (subst unat_mult_no_wrap) (simp_all add: i n)
  have "unat off + unat i * n < 2 ^ 64" using assms(3) le by linarith
  with p show ?thesis by (subst unat_add_no_wrap) simp_all
qed

lemma queue_ok_slots:
  assumes "queue_ok bar region stride q"
  shows "unat (sqe_slot q) = unat (submission_offset q) + unat (submission_tail q) * 64"
    and "unat (cqe_slot q) = unat (completion_offset q) + unat (completion_head q) * 16"
    and "access_ok sqe_repr region (sqe_slot q)" and "access_ok cqe_repr region (cqe_slot q)"
proof -
  have len: "unat (dma_length region) < 2 ^ 64" using unsigned_less [of "dma_length region"] by simp
  note ok = assms [unfolded queue_ok_def]
  show s: "unat (sqe_slot q) = unat (submission_offset q) + unat (submission_tail q) * 64"
    unfolding sqe_slot_def using ok len by (subst unat_slot) simp_all
  show c: "unat (cqe_slot q) = unat (completion_offset q) + unat (completion_head q) * 16"
    unfolding cqe_slot_def using ok len by (subst unat_slot) simp_all
  show "access_ok sqe_repr region (sqe_slot q)"
    using ok by (simp add: access_ok_def s mod_add_eq [symmetric] mod_mult_eq [symmetric])
  show "access_ok cqe_repr region (cqe_slot q)"
    using ok by (simp add: access_ok_def c mod_add_eq [symmetric] mod_mult_eq [symmetric])
qed

lemma queue_ok_updates [simp]:
  "queue_ok bar region stride q \<Longrightarrow> queue_ok bar region stride (take_cid q)"
  "queue_ok bar region stride q \<Longrightarrow> queue_ok bar region stride (advance_tail q)"
  "queue_ok bar region stride q \<Longrightarrow> queue_ok bar region stride (advance_head q)"
  using sq_tail.pos_bump_less cq_head.pos_bump_less by (simp_all add: queue_ok_def)

text \<open>
  The world after one poll that looked at the slot: the user pressed Enter and the device
  ran. \<open>seen\<close> is the completion the slot then holds.
\<close>

definition idle_poll :: "'d device \<Rightarrow> 'd world \<Rightarrow> 'd world" where
  "idle_poll D w = step_device D (w\<lparr>log := log w @ [Pause]\<rparr>)"

definition seen :: "queue_pair \<Rightarrow> 'd world \<Rightarrow> completion_queue_entry" where
  "seen q w = cqe_of_bytes (load (dma w) (unat (cqe_slot q)) 16)"

definition fresh :: "queue_pair \<Rightarrow> 'd world \<Rightarrow> bool" where
  "fresh q w \<longleftrightarrow> phase (seen q w) = completion_phase q"

lemma log_idle_polls: "log ((idle_poll D ^^ k) w) = log w @ replicate k Pause"
  by (induction k) (simp_all add: idle_poll_def replicate_append_same flip: replicate_Suc)

lemma poll_step:
  assumes "access_ok cqe_repr region (cqe_slot q)"
  shows "poll D bar region stride cid spins (q, w) =
    (if fresh q (idle_poll D w)
     then consume_completion D bar stride cid (seen q (idle_poll D w)) (q, idle_poll D w)
     else if 200000 \<le> spins then (Err PollTimedOut, (q, idle_poll D w))
     else poll D bar region stride cid (spins + 1) (q, idle_poll D w))"
  by (subst poll.simps)
    (simp add: run_simps cqe_access.rd_allowed [OF assms] fresh_def seen_def idle_poll_def)

text \<open>The loop is a bounded search for the first poll that finds a fresh entry.\<close>

definition first_fresh :: "'d device \<Rightarrow> queue_pair \<Rightarrow> nat \<Rightarrow> 'd world \<Rightarrow> nat option" where
  "first_fresh D q n w = find (\<lambda>k. fresh q ((idle_poll D ^^ k) w)) [1..<Suc n]"

lemma first_fresh_0: "first_fresh D q 0 w = None"
  by (simp add: first_fresh_def)

lemma first_fresh_Suc:
  "first_fresh D q (Suc n) w =
     (if fresh q (idle_poll D w) then Some 1
      else map_option Suc (first_fresh D q n (idle_poll D w)))"
proof -
  have split: "[1..<Suc (Suc n)] = 1 # map Suc [1..<Suc n]"
    by (simp add: upt_conv_Cons map_Suc_upt del: upt_Suc)
  have find_map: "find P (map g xs) = map_option g (find (\<lambda>x. P (g x)) xs)"
    for P :: "nat \<Rightarrow> bool" and g :: "nat \<Rightarrow> nat" and xs
    by (induction xs) auto
  show ?thesis unfolding first_fresh_def split
    by (simp add: find_map funpow_Suc_right del: funpow.simps upt_Suc)
qed

lemma poll_search:
  assumes "access_ok cqe_repr region (cqe_slot q)" and "spins + n = 200001" and "0 < n"
  shows "poll D bar region stride cid spins (q, w) =
    (case first_fresh D q n w of
       Some k \<Rightarrow> consume_completion D bar stride cid (seen q ((idle_poll D ^^ k) w))
                   (q, (idle_poll D ^^ k) w)
     | None \<Rightarrow> (Err PollTimedOut, (q, (idle_poll D ^^ n) w)))"
  using assms(2,3)
proof (induction n arbitrary: spins w)
  case (Suc n)
  show ?case
  proof (cases "n = 0")
    case True
    with Suc.prems show ?thesis
      by (subst poll_step [OF assms(1)]) (simp add: first_fresh_Suc first_fresh_0)
  next
    case False
    then have "\<not> 200000 \<le> spins" using Suc.prems by simp
    then show ?thesis
      using Suc.IH [of "spins + 1" "idle_poll D w"] Suc.prems False
      by (subst poll_step [OF assms(1)])
        (simp add: first_fresh_Suc funpow_Suc_right del: funpow.simps split: option.split)
  qed
qed simp

definition after_consume ::
  "'d device \<Rightarrow> usize \<Rightarrow> queue_pair \<Rightarrow> 'd world \<Rightarrow> 'd world" where
  "after_consume D stride q w =
     (let w = step_device D (w\<lparr>log := log w @ [Fence]\<rparr>);
          reg = completion_doorbell (queue_id q) stride; head = completion_head (advance_head q)
      in w\<lparr>dev := dev_write32 D (dev w) reg head, log := log w @ [RegWrite32 reg head]\<rparr>)"

lemma run_consume:
  assumes "reg_ok 4 bar (completion_doorbell (queue_id q) stride)"
  shows "consume_completion D bar stride cid c (q, w) =
    (if cqe_cid c = cid then Ok c else Err (CidMismatch (cqe_cid c) cid),
     (advance_head q, after_consume D stride q w))"
  by (simp add: consume_completion_def run_simps ring_completion_doorbell_def after_consume_def
      reg32.wr_allowed [OF assms] Let_def)

definition after_submit ::
  "'d device \<Rightarrow> usize \<Rightarrow> submission_queue_entry \<Rightarrow> queue_pair \<Rightarrow> 'd world \<Rightarrow> 'd world" where
  "after_submit D stride command q w =
     (let bs = sqe_bytes (command\<lparr>sqe_cid := next_cid q\<rparr>); off = unat (sqe_slot q);
          w = step_device D w;
          w = w\<lparr>dma := store (dma w) off bs, log := log w @ [DmaStore off bs]\<rparr>;
          w = step_device D w;
          w = step_device D (w\<lparr>log := log w @ [Fence]\<rparr>);
          reg = submission_doorbell (queue_id q) stride; tail = submission_tail (advance_tail q)
      in w\<lparr>dev := dev_write32 D (dev w) reg tail, log := log w @ [RegWrite32 reg tail]\<rparr>)"

lemma advance_tail_take_cid: "submission_tail (advance_tail (take_cid q)) = submission_tail (advance_tail q)"
  by (simp add: advance_tail_def take_cid_def)

lemma sqe_slot_take_cid [simp]: "sqe_slot (take_cid q) = sqe_slot q"
  by (simp add: sqe_slot_def)

lemma run_submit:
  assumes "access_ok sqe_repr region (sqe_slot q)"
    and "reg_ok 4 bar (submission_doorbell (queue_id q) stride)"
  shows "submit_and_wait D bar region stride command (q, w) =
    poll D bar region stride (next_cid q) 0
      (advance_tail (take_cid q), after_submit D stride command q w)"
  by (simp add: submit_and_wait_def run_simps ring_submission_doorbell_def after_submit_def
      reg32.wr_allowed [OF assms(2)] sqe_access.wr_allowed [OF assms(1)]
      sqe_access.rd_allowed [OF assms(1)] Let_def advance_tail_take_cid)

text \<open>
  The result of a submission as a function of the device's behaviour: consumed or timed out.
\<close>

lemma run_submit_and_wait:
  assumes "queue_ok bar region stride q"
  shows "submit_and_wait D bar region stride command (q, w) =
    (let q' = advance_tail (take_cid q); w' = after_submit D stride command q w in
     case first_fresh D q' 200001 w' of
       Some k \<Rightarrow>
         let w'' = (idle_poll D ^^ k) w'; c = seen q' w'' in
         (if cqe_cid c = next_cid q then Ok c else Err (CidMismatch (cqe_cid c) (next_cid q)),
          (advance_head q', after_consume D stride q' w''))
     | None \<Rightarrow> (Err PollTimedOut, (q', (idle_poll D ^^ 200001) w')))"
proof -
  let ?q = "advance_tail (take_cid q)"
  have ok: "queue_ok bar region stride ?q" using assms by simp
  have "submit_and_wait D bar region stride command (q, w) =
    poll D bar region stride (next_cid q) 0 (?q, after_submit D stride command q w)"
    using assms by (intro run_submit queue_ok_slots) (auto simp: queue_ok_def)
  also have "\<dots> = (case first_fresh D ?q 200001 (after_submit D stride command q w) of
       Some k \<Rightarrow> consume_completion D bar stride (next_cid q)
                   (seen ?q ((idle_poll D ^^ k) (after_submit D stride command q w)))
                   (?q, (idle_poll D ^^ k) (after_submit D stride command q w))
     | None \<Rightarrow> (Err PollTimedOut, (?q, (idle_poll D ^^ 200001) (after_submit D stride command q w))))"
    using queue_ok_slots(4) [OF ok] by (intro poll_search) simp_all
  finally show ?thesis
    using ok by (simp only: Let_def run_consume queue_ok_def cong: option.case_cong)
qed

section \<open>Guarantees for every device\<close>

definition timed_out :: "'a outcome \<Rightarrow> bool" where
  "timed_out r \<longleftrightarrow> r = Err PollTimedOut"

text \<open>The unbounded counts of submissions and of consumed completions the rings stand for.\<close>

definition at_counts :: "queue_pair \<Rightarrow> nat \<Rightarrow> nat \<Rightarrow> bool" where
  "at_counts q m n \<longleftrightarrow>
     unat (submission_tail q) = m mod 64 \<and> unat (next_cid q) = m mod 2 ^ 16 \<and>
     unat (completion_head q) = n mod 64 \<and> completion_phase q = even (n div 64)"

lemma at_counts_new: "at_counts (queue_new i so co) 0 0"
  by (simp add: at_counts_def queue_new_def)

lemma at_counts_submit: "at_counts q m n \<Longrightarrow> at_counts (advance_tail (take_cid q)) (Suc m) n"
  using sq_tail.at_bump [of "take_cid q" m] cid_counter.at_bump [of q m]
  by (simp add: at_counts_def)

lemma at_counts_consume: "at_counts q m n \<Longrightarrow> at_counts (advance_head q) m (Suc n)"
  using cq_head.at_bump [of q n] cq_head.lap_bump [of q n] by (simp add: at_counts_def)

text \<open>The three ways a submission ends.\<close>

lemma submit_cases:
  assumes "queue_ok bar region stride q"
  obtains (completed) k c where
      "first_fresh D (advance_tail (take_cid q)) 200001 (after_submit D stride command q w) = Some k"
      "c = seen (advance_tail (take_cid q)) ((idle_poll D ^^ k) (after_submit D stride command q w))"
      "submit_and_wait D bar region stride command (q, w) =
        (if cqe_cid c = next_cid q then Ok c else Err (CidMismatch (cqe_cid c) (next_cid q)),
         (advance_head (advance_tail (take_cid q)),
          after_consume D stride (advance_tail (take_cid q))
            ((idle_poll D ^^ k) (after_submit D stride command q w))))"
      "1 \<le> k" "k \<le> 200001" "phase c = completion_phase q"
  | (timeout)
      "first_fresh D (advance_tail (take_cid q)) 200001 (after_submit D stride command q w) = None"
      "submit_and_wait D bar region stride command (q, w) =
        (Err PollTimedOut, (advance_tail (take_cid q),
          (idle_poll D ^^ 200001) (after_submit D stride command q w)))"
proof (cases "first_fresh D (advance_tail (take_cid q)) 200001 (after_submit D stride command q w)")
  case None
  with assms show thesis by (intro timeout) (simp_all add: run_submit_and_wait)
next
  case (Some k)
  then have "k \<in> set [1..<Suc 200001]"
    and "fresh (advance_tail (take_cid q)) ((idle_poll D ^^ k) (after_submit D stride command q w))"
    unfolding first_fresh_def by (metis find_Some_iff nth_mem)+
  with Some assms show thesis
    by (intro completed [of k]) (simp_all add: run_submit_and_wait fresh_def Let_def)
qed

lemma log_after_submit: "log (after_submit D stride command q w) = log w @
   [DmaStore (unat (sqe_slot q)) (sqe_bytes (command\<lparr>sqe_cid := next_cid q\<rparr>)), Fence,
    RegWrite32 (submission_doorbell (queue_id q) stride) (submission_tail (advance_tail q))]"
  by (simp add: after_submit_def Let_def)

lemma log_after_consume: "log (after_consume D stride q w) = log w @
   [Fence, RegWrite32 (completion_doorbell (queue_id q) stride) (completion_head (advance_head q))]"
  by (simp add: after_consume_def Let_def)

lemma submit_outcomes:
  assumes "queue_ok bar region stride q" and "at_counts q m n"
    and "submit_and_wait D bar region stride command (q, w) = (r, (q', w'))"
  shows "queue_ok bar region stride q' \<and>
    ((\<exists>c. r = Ok c \<and> cqe_cid c = next_cid q \<and> phase c = completion_phase q) \<or>
     (\<exists>x. r = Err (CidMismatch x (next_cid q)) \<and> x \<noteq> next_cid q) \<or> r = Err PollTimedOut) \<and>
    at_counts q' (Suc m) (if timed_out r then n else Suc n)"
proof (rule submit_cases [OF assms(1), of D command w])
  fix k c
  assume "submit_and_wait D bar region stride command (q, w) =
      (if cqe_cid c = next_cid q then Ok c else Err (CidMismatch (cqe_cid c) (next_cid q)),
       (advance_head (advance_tail (take_cid q)),
        after_consume D stride (advance_tail (take_cid q))
          ((idle_poll D ^^ k) (after_submit D stride command q w))))"
    and "phase c = completion_phase q"
  then show ?thesis
    using assms at_counts_consume [OF at_counts_submit [OF assms(2)]]
    by (auto simp: timed_out_def split: if_splits)
next
  assume "submit_and_wait D bar region stride command (q, w) = (Err PollTimedOut,
    (advance_tail (take_cid q), (idle_poll D ^^ 200001) (after_submit D stride command q w)))"
  then show ?thesis using assms at_counts_submit [OF assms(2)] by (auto simp: timed_out_def)
qed

lemma submit_trace:
  assumes "queue_ok bar region stride q"
    and "submit_and_wait D bar region stride command (q, w) = (r, (q', w'))"
  shows "\<exists>k\<in>{1..200001}. log w' = log w @
    [DmaStore (unat (submission_offset q) + unat (submission_tail q) * 64)
       (sqe_bytes (command\<lparr>sqe_cid := next_cid q\<rparr>)), Fence,
     RegWrite32 (submission_doorbell (queue_id q) stride)
       (of_nat ((unat (submission_tail q) + 1) mod 64))] @
    replicate k Pause @
    (if timed_out r then []
     else [Fence, RegWrite32 (completion_doorbell (queue_id q) stride)
       (of_nat ((unat (completion_head q) + 1) mod 64))])"
proof -
  let ?q = "advance_tail (take_cid q)"
  have tail: "submission_tail (advance_tail q) = of_nat ((unat (submission_tail q) + 1) mod 64)"
    by (rule unat_eqD) (rule sq_tail.pos_bump)
  have head: "completion_head (advance_head ?q) = of_nat ((unat (completion_head q) + 1) mod 64)"
    using cq_head.pos_bump [of ?q] by (intro unat_eqD) simp
  have slot: "unat (sqe_slot q) = unat (submission_offset q) + unat (submission_tail q) * 64"
    by (rule queue_ok_slots(1) [OF assms(1)])
  show ?thesis
  proof (rule submit_cases [OF assms(1), of D command w])
    fix k c
    assume k: "1 \<le> k" "k \<le> 200001" and eq: "submit_and_wait D bar region stride command (q, w) =
        (if cqe_cid c = next_cid q then Ok c else Err (CidMismatch (cqe_cid c) (next_cid q)),
         (advance_head ?q, after_consume D stride ?q ((idle_poll D ^^ k) (after_submit D stride command q w))))"
    have "\<not> timed_out r" using eq assms(2) by (auto simp: timed_out_def split: if_splits)
    then show ?thesis
      using k eq assms(2)
      by (intro bexI [of _ k])
        (auto simp: log_after_consume log_idle_polls log_after_submit tail head slot)
  next
    assume "submit_and_wait D bar region stride command (q, w) = (Err PollTimedOut,
      (?q, (idle_poll D ^^ 200001) (after_submit D stride command q w)))"
    then show ?thesis
      using assms(2) by (intro bexI [of _ 200001])
        (auto simp: log_idle_polls log_after_submit tail slot timed_out_def)
  qed
qed

text \<open>
  C11: Whatever the controller does, a submission on a queue pair whose rings lie in the DMA
  region and whose doorbells lie in the BAR does not panic: it returns a completion carrying
  the command's own identifier and the expected phase tag, or reports the identifier it got
  instead, or reports a timeout. The rings stay within their 64 slots, and the ring
  positions move exactly with the counts of submissions and of consumed completions (the
  head stays where it was on a timeout, although the command has been submitted).
\<close>

theorem submit_and_wait_outcomes:
  assumes "queue_ok bar region stride q" and "at_counts q m n"
    and "submit_and_wait D bar region stride command (q, w) = (r, (q', w'))"
  shows "queue_ok bar region stride q' \<and>
    ((\<exists>c. r = Ok c \<and> cqe_cid c = next_cid q \<and> phase c = completion_phase q) \<or>
     (\<exists>x. r = Err (CidMismatch x (next_cid q)) \<and> x \<noteq> next_cid q) \<or> r = Err PollTimedOut) \<and>
    at_counts q' (Suc m) (if timed_out r then n else Suc n)"
  by (rule submit_outcomes [OF assms])

text \<open>
  C12: What a submission lets the controller see, in order: the 64 bytes of the command
  with its identifier filled in, stored at the tail slot; a fence; then the submission
  doorbell with the new tail; then between 1 and 200\,001 polls; then, if a completion was
  consumed, a fence and the completion doorbell with the new head. The doorbell never rings
  before the entry is in memory, and nothing else is written.
\<close>

theorem submit_and_wait_trace:
  assumes "queue_ok bar region stride q"
    and "submit_and_wait D bar region stride command (q, w) = (r, (q', w'))"
  shows "\<exists>k\<in>{1..200001}. log w' = log w @
    [DmaStore (unat (submission_offset q) + unat (submission_tail q) * 64)
       (sqe_bytes (command\<lparr>sqe_cid := next_cid q\<rparr>)), Fence,
     RegWrite32 (submission_doorbell (queue_id q) stride)
       (of_nat ((unat (submission_tail q) + 1) mod 64))] @
    replicate k Pause @
    (if timed_out r then []
     else [Fence, RegWrite32 (completion_doorbell (queue_id q) stride)
       (of_nat ((unat (completion_head q) + 1) mod 64))])"
  by (rule submit_trace [OF assms])

lemma at_counts_cid: "at_counts q m n \<Longrightarrow> next_cid q = of_nat m"
proof -
  assume "at_counts q m n"
  then have "next_cid q = of_nat (m mod 2 ^ 16)" by (intro unat_eqD) (simp add: at_counts_def)
  then show ?thesis using of_nat_mod_len [where 'a = 16, of m] by simp
qed

lemma after_submit_slot [simp]:
  "cqe_slot (advance_tail (take_cid q)) = cqe_slot q"
  "seen (advance_tail (take_cid q)) = seen q" "fresh (advance_tail (take_cid q)) = fresh q"
  "first_fresh D (advance_tail (take_cid q)) = first_fresh D q"
  by (simp_all add: cqe_slot_def seen_def fresh_def first_fresh_def fun_eq_iff)


section \<open>Sessions\<close>

text \<open>
  A session submits commands one after the other; between two submissions the driver does
  other things to the world (copies data in or out, writes the PRP list), given as a function.
\<close>

fun submit_all ::
  "'d device \<Rightarrow> nvme_bar \<Rightarrow> dma_region \<Rightarrow> usize \<Rightarrow>
   (('d world \<Rightarrow> 'd world) \<times> submission_queue_entry) list \<Rightarrow> queue_pair \<times> 'd world \<Rightarrow>
   completion_queue_entry outcome list \<times> (queue_pair \<times> 'd world)" where
  "submit_all D bar region stride [] s = ([], s)"
| "submit_all D bar region stride ((between, command) # cs) (q, w) =
     (let (r, s) = submit_and_wait D bar region stride command (q, between w);
          (rs, s') = submit_all D bar region stride cs s
      in (r # rs, s'))"

lemma submit_all_counts:
  assumes "queue_ok bar region stride q" and "at_counts q m n"
    and "submit_all D bar region stride cs (q, w) = (rs, (q', w'))"
  shows "queue_ok bar region stride q' \<and> length rs = length cs \<and>
    at_counts q' (m + length cs) (n + length (filter (\<lambda>r. \<not> timed_out r) rs))"
  using assms
proof (induction cs arbitrary: q w m n rs)
  case (Cons bc cs)
  obtain between command where bc: "bc = (between, command)" by (cases bc)
  obtain r q1 w1 where r: "submit_and_wait D bar region stride command (q, between w) = (r, (q1, w1))"
    by (metis prod.exhaust)
  obtain rs1 where rs: "submit_all D bar region stride cs (q1, w1) = (rs1, (q', w'))" "rs = r # rs1"
    using Cons.prems(3) by (auto simp: bc r split: prod.splits)
  have ok: "queue_ok bar region stride q1"
    and at: "at_counts q1 (Suc m) (if timed_out r then n else Suc n)"
    using submit_outcomes [OF Cons.prems(1,2) r] by blast+
  show ?case using Cons.IH [OF ok at rs(1)] by (auto simp: rs(2) split: if_splits)
qed simp

text \<open>
  The ring counters of a fresh queue pair represent unbounded counts through any session
  and any number of wraps: after any sequence of submissions, whatever the controller and
  the rest of the driver do, the tail is the number of submissions modulo 64, the next
  identifier that number modulo 65536, the head the number of consumed completions modulo
  64, and the expected phase tag the parity of the number of laps of the head.
\<close>

lemma ring_counters_count:
  assumes "queue_ok bar region stride (queue_new i so co)"
    and "submit_all D bar region stride cs (queue_new i so co, w) = (rs, (q', w'))"
  defines "consumed \<equiv> length (filter (\<lambda>r. \<not> timed_out r) rs)"
  shows "queue_ok bar region stride q' \<and> length rs = length cs \<and>
    unat (submission_tail q') = length cs mod 64 \<and> unat (next_cid q') = length cs mod 65536 \<and>
    unat (completion_head q') = consumed mod 64 \<and>
    completion_phase q' = even (consumed div 64)"
  using submit_all_counts [OF assms(1) at_counts_new assms(2)]
  by (simp add: at_counts_def consumed_def)

section \<open>Controllers that complete commands in order\<close>

text \<open>
  The documented behaviour the driver relies on. \<open>R m n b d mem\<close> relates a controller state
  and the region's bytes to the number \<open>m\<close> of commands announced by submission doorbells
  and the number \<open>n\<close> of completions posted; \<open>b\<close> bounds how many steps of the controller may
  pass before it posts the next one. The slot of completion \<open>n\<close> is \<open>n mod 64\<close>, its phase tag
  the parity of the lap, its identifier that of command \<open>n\<close>; until it is posted the slot
  shows the other phase tag. The CPU's accesses outside the completion queue and its
  completion doorbell change nothing in this.
\<close>

definition slot_entry :: "nat \<Rightarrow> mem \<Rightarrow> nat \<Rightarrow> completion_queue_entry" where
  "slot_entry co mem n = cqe_of_bytes (load mem (co + 16 * (n mod 64)) 16)"

definition in_order_controller ::
  "'d device \<Rightarrow> queue_pair \<Rightarrow> usize \<Rightarrow> nat \<Rightarrow> (nat \<Rightarrow> nat \<Rightarrow> nat \<Rightarrow> 'd \<Rightarrow> mem \<Rightarrow> bool) \<Rightarrow> bool" where
  "in_order_controller D q stride latency R \<longleftrightarrow>
     (\<forall>m n b d mem. R m n b d mem \<longrightarrow>
        n \<le> m \<and> phase (slot_entry (unat (completion_offset q)) mem n) \<noteq> even (n div 64)) \<and>
     (\<forall>m n b d mem. R m (Suc n) b d mem \<longrightarrow>
        phase (slot_entry (unat (completion_offset q)) mem n) = even (n div 64) \<and>
        cqe_cid (slot_entry (unat (completion_offset q)) mem n) = of_nat n) \<and>
     (\<forall>m n b d mem. R m n b d mem \<longrightarrow>
        (\<exists>n' b'. n \<le> n' \<and> (n' = n \<and> n < m \<longrightarrow> b' < b) \<and>
           R m n' b' (fst (dev_step D d mem)) (snd (dev_step D d mem)))) \<and>
     (\<forall>m n b d mem off bs. R m n b d mem \<longrightarrow>
        off + length bs \<le> unat (completion_offset q) \<or>
        unat (completion_offset q) + 64 * 16 \<le> off \<longrightarrow>
        R m n b d (store mem off bs)) \<and>
     (\<forall>m b d mem. R m m b d mem \<longrightarrow>
        R (Suc m) m latency
          (dev_write32 D d (submission_doorbell (queue_id q) stride) (of_nat (Suc m mod 64))) mem) \<and>
     (\<forall>m n b d mem v. R m n b d mem \<longrightarrow>
        R m n b (dev_write32 D d (completion_doorbell (queue_id q) stride) v) mem)"

lemma seen_slot_entry:
  assumes "queue_ok bar region stride q" and "at_counts q m n"
  shows "seen q w = slot_entry (unat (completion_offset q)) (dma w) n"
  using assms by (simp add: seen_def slot_entry_def queue_ok_slots(2) at_counts_def mult.commute)

lemma first_freshI:
  assumes "1 \<le> k" and "k \<le> n" and "fresh q ((idle_poll D ^^ k) w)"
    and "\<And>j. 1 \<le> j \<Longrightarrow> j < k \<Longrightarrow> \<not> fresh q ((idle_poll D ^^ j) w)"
  shows "first_fresh D q n w = Some k"
  unfolding first_fresh_def find_Some_iff
  using assms by (intro exI [of _ "k - 1"]) (auto simp del: upt_Suc funpow.simps)

lemma in_order_controllerD:
  assumes "in_order_controller D q stride latency R" and "R m n b d mem"
  shows "n \<le> m" and "phase (slot_entry (unat (completion_offset q)) mem n) \<noteq> even (n div 64)"
    and "\<exists>n' b'. n \<le> n' \<and> (n' = n \<and> n < m \<longrightarrow> b' < b) \<and>
      R m n' b' (fst (dev_step D d mem)) (snd (dev_step D d mem))"
    and "off + length bs \<le> unat (completion_offset q) \<or>
      unat (completion_offset q) + 64 * 16 \<le> off \<Longrightarrow> R m n b d (store mem off bs)"
    and "R m n b (dev_write32 D d (completion_doorbell (queue_id q) stride) v) mem"
proof -
  note ctl = assms(1) [unfolded in_order_controller_def]
  show "n \<le> m" and "phase (slot_entry (unat (completion_offset q)) mem n) \<noteq> even (n div 64)"
    using ctl [THEN conjunct1] assms(2) by blast+
  show "\<exists>n' b'. n \<le> n' \<and> (n' = n \<and> n < m \<longrightarrow> b' < b) \<and>
      R m n' b' (fst (dev_step D d mem)) (snd (dev_step D d mem))"
    using ctl [THEN conjunct2, THEN conjunct2, THEN conjunct1] assms(2) by blast
  show "off + length bs \<le> unat (completion_offset q) \<or>
      unat (completion_offset q) + 64 * 16 \<le> off \<Longrightarrow> R m n b d (store mem off bs)"
    using ctl [THEN conjunct2, THEN conjunct2, THEN conjunct2, THEN conjunct1] assms(2) by blast
  show "R m n b (dev_write32 D d (completion_doorbell (queue_id q) stride) v) mem"
    using ctl [THEN conjunct2, THEN conjunct2, THEN conjunct2, THEN conjunct2, THEN conjunct2]
      assms(2) by blast
qed

lemma in_order_controller_posted:
  assumes "in_order_controller D q stride latency R" and "R m (Suc n) b d mem"
  shows "phase (slot_entry (unat (completion_offset q)) mem n) = even (n div 64)"
    and "cqe_cid (slot_entry (unat (completion_offset q)) mem n) = of_nat n"
  using assms(1) [unfolded in_order_controller_def, THEN conjunct2, THEN conjunct1] assms(2)
  by blast+

lemma in_order_controller_doorbell:
  assumes "in_order_controller D q stride latency R" and "R m m b d mem"
  shows "R (Suc m) m latency
    (dev_write32 D d (submission_doorbell (queue_id q) stride) (of_nat (Suc m mod 64))) mem"
  using assms(1) [unfolded in_order_controller_def, THEN conjunct2, THEN conjunct2, THEN conjunct2,
    THEN conjunct2, THEN conjunct1] assms(2)
  by blast

text \<open>One step of the controller in a world; with nothing outstanding it posts nothing.\<close>

lemma step_device_R:
  assumes "in_order_controller D q stride latency R" and "R m n b (dev w) (dma w)"
  obtains n' b' where "n \<le> n'" "n' \<le> m" "n' = n \<and> n < m \<longrightarrow> b' < b"
    "R m n' b' (dev (step_device D w)) (dma (step_device D w))"
proof -
  obtain n' b' where n': "n \<le> n'" "n' = n \<and> n < m \<longrightarrow> b' < b"
    "R m n' b' (fst (dev_step D (dev w) (dma w))) (snd (dev_step D (dev w) (dma w)))"
    using in_order_controllerD(3) [OF assms] by blast
  moreover have "n' \<le> m" by (rule in_order_controllerD(1) [OF assms(1) n'(3)])
  ultimately show thesis by (intro that) (simp_all add: step_device_def case_prod_unfold Let_def)
qed

lemma step_device_R_idle:
  assumes "in_order_controller D q stride latency R" and "\<exists>b. R m m b (dev w) (dma w)"
  shows "\<exists>b. R m m b (dev (step_device D w)) (dma (step_device D w))"
  using assms by (metis step_device_R le_antisym)

lemma after_submit_R:
  assumes ctl: "in_order_controller D q stride latency R" and ok: "queue_ok bar region stride q"
    and at: "at_counts q m n"
    and apart: "unat (submission_offset q) + 64 * 64 \<le> unat (completion_offset q) \<or>
      unat (completion_offset q) + 64 * 16 \<le> unat (submission_offset q)"
    and R: "\<exists>b. R m m b (dev w) (dma w)"
  shows "R (Suc m) m latency (dev (after_submit D stride command q w))
    (dma (after_submit D stride command q w))"
proof -
  let ?bs = "sqe_bytes (command\<lparr>sqe_cid := next_cid q\<rparr>)" and ?off = "unat (sqe_slot q)"
  have tail: "submission_tail (advance_tail q) = of_nat (Suc m mod 64)"
    using sq_tail.at_bump [of q m] at by (intro unat_eqD) (simp add: at_counts_def)
  have "unat (submission_tail q) < 64" using ok by (simp add: queue_ok_def)
  then have away: "?off + length ?bs \<le> unat (completion_offset q) \<or>
      unat (completion_offset q) + 64 * 16 \<le> ?off"
    using apart by (auto simp: queue_ok_slots(1) [OF ok])
  define w1 where "w1 = step_device D w"
  define w2 where "w2 = w1\<lparr>dma := store (dma w1) ?off ?bs, log := log w1 @ [DmaStore ?off ?bs]\<rparr>"
  define w3 where "w3 = step_device D w2"
  define w4 where "w4 = step_device D (w3\<lparr>log := log w3 @ [Fence]\<rparr>)"
  have "\<exists>b. R m m b (dev w1) (dma w1)" unfolding w1_def by (rule step_device_R_idle [OF ctl R])
  then obtain b1 where "R m m b1 (dev w1) (dma w1)" by blast
  then have "R m m b1 (dev w2) (dma w2)"
    using in_order_controllerD(4) [OF ctl _ away] by (simp add: w2_def)
  then have "\<exists>b. R m m b (dev w2) (dma w2)" by blast
  then have "\<exists>b. R m m b (dev w3) (dma w3)" unfolding w3_def by (rule step_device_R_idle [OF ctl])
  then have "\<exists>b. R m m b (dev w4) (dma w4)"
    unfolding w4_def by (intro step_device_R_idle [OF ctl]) simp
  then obtain b where "R m m b (dev w4) (dma w4)" by blast
  then have "R (Suc m) m latency (dev_write32 D (dev w4) (submission_doorbell (queue_id q) stride)
      (of_nat (Suc m mod 64))) (dma w4)"
    by (rule in_order_controller_doorbell [OF ctl])
  then show ?thesis
    by (simp add: after_submit_def Let_def tail w4_def w3_def w2_def w1_def)
qed

text \<open>While one command is outstanding, polling finds its completion within the budget.\<close>

lemma polling_R:
  assumes ctl: "in_order_controller D q stride latency R" and "R (Suc m) m b (dev w) (dma w)"
  shows "\<exists>k b'. 1 \<le> k \<and> k \<le> Suc b \<and>
    R (Suc m) (Suc m) b' (dev ((idle_poll D ^^ k) w)) (dma ((idle_poll D ^^ k) w)) \<and>
    (\<forall>j. 1 \<le> j \<and> j < k \<longrightarrow>
      (\<exists>b'. R (Suc m) m b' (dev ((idle_poll D ^^ j) w)) (dma ((idle_poll D ^^ j) w))))"
  using assms(2)
proof (induction b arbitrary: w rule: less_induct)
  case (less b)
  obtain n' b' where n': "m \<le> n'" "n' \<le> Suc m" "n' = m \<and> m < Suc m \<longrightarrow> b' < b"
    and R: "R (Suc m) n' b' (dev (idle_poll D w)) (dma (idle_poll D w))"
    using step_device_R [OF ctl, of "Suc m" m b "w\<lparr>log := log w @ [Pause]\<rparr>"] less.prems
    by (auto simp: idle_poll_def)
  show ?case
  proof (cases "n' = Suc m")
    case True
    with R show ?thesis by (intro exI [of _ 1] exI [of _ b']) auto
  next
    case False
    with n' have "n' = m" "b' < b" by auto
    with less.IH [of b' "idle_poll D w"] R obtain k c where
      k: "1 \<le> k" "k \<le> Suc b'"
        "R (Suc m) (Suc m) c (dev ((idle_poll D ^^ k) (idle_poll D w))) (dma ((idle_poll D ^^ k) (idle_poll D w)))"
      and before: "\<And>j. 1 \<le> j \<Longrightarrow> j < k \<Longrightarrow> \<exists>b'. R (Suc m) m b'
        (dev ((idle_poll D ^^ j) (idle_poll D w))) (dma ((idle_poll D ^^ j) (idle_poll D w)))"
      by blast
    have shift: "(idle_poll D ^^ j) (idle_poll D w) = (idle_poll D ^^ Suc j) w" for j
      by (simp add: funpow_swap1)
    have "\<exists>b'. R (Suc m) m b' (dev ((idle_poll D ^^ j) w)) (dma ((idle_poll D ^^ j) w))"
      if "1 \<le> j" "j < Suc k" for j
      using that before [of "j - 1"] R \<open>n' = m\<close> by (cases "j = 1") (auto simp: shift)
    then show ?thesis
      using k \<open>b' < b\<close> by (intro exI [of _ "Suc k"] exI [of _ c]) (auto simp: shift)
  qed
qed

lemma submit_in_order:
  assumes ctl: "in_order_controller D q stride latency R" and "latency \<le> 200000"
    and ok: "queue_ok bar region stride q" and at: "at_counts q m m"
    and apart: "unat (submission_offset q) + 64 * 64 \<le> unat (completion_offset q) \<or>
      unat (completion_offset q) + 64 * 16 \<le> unat (submission_offset q)"
    and R: "\<exists>b. R m m b (dev w) (dma w)"
  obtains c q' w' b where "submit_and_wait D bar region stride command (q, w) = (Ok c, (q', w'))"
    "cqe_cid c = of_nat m" "R (Suc m) (Suc m) b (dev w') (dma w')"
proof -
  let ?w = "after_submit D stride command q w"
  have "R (Suc m) m latency (dev ?w) (dma ?w)"
    by (rule after_submit_R [OF ctl ok at apart R])
  then obtain k b' where k: "1 \<le> k" "k \<le> Suc latency"
      "R (Suc m) (Suc m) b' (dev ((idle_poll D ^^ k) ?w)) (dma ((idle_poll D ^^ k) ?w))"
    and before: "\<And>j. 1 \<le> j \<Longrightarrow> j < k \<Longrightarrow>
      \<exists>b'. R (Suc m) m b' (dev ((idle_poll D ^^ j) ?w)) (dma ((idle_poll D ^^ j) ?w))"
    using polling_R [OF ctl] by blast
  have head: "completion_phase q = even (m div 64)" using at by (simp add: at_counts_def)
  note sees = seen_slot_entry [OF ok at]
  have found: "fresh q ((idle_poll D ^^ k) ?w)"
    using in_order_controller_posted(1) [OF ctl k(3)] by (simp add: fresh_def sees head)
  have "\<not> fresh q ((idle_poll D ^^ j) ?w)" if "1 \<le> j" "j < k" for j
    using in_order_controllerD(2) [OF ctl] before [OF that] by (auto simp: fresh_def sees head)
  then have "first_fresh D q 200001 ?w = Some k"
    using k(1,2) found \<open>latency \<le> 200000\<close> by (intro first_freshI) simp_all
  then have run: "submit_and_wait D bar region stride command (q, w) =
      (if cqe_cid (seen q ((idle_poll D ^^ k) ?w)) = next_cid q
       then Ok (seen q ((idle_poll D ^^ k) ?w))
       else Err (CidMismatch (cqe_cid (seen q ((idle_poll D ^^ k) ?w))) (next_cid q)),
       (advance_head (advance_tail (take_cid q)),
        after_consume D stride (advance_tail (take_cid q)) ((idle_poll D ^^ k) ?w)))"
    by (simp add: run_submit_and_wait [OF ok] Let_def)
  have cid: "cqe_cid (seen q ((idle_poll D ^^ k) ?w)) = of_nat m"
    using in_order_controller_posted(2) [OF ctl k(3)] by (simp add: sees)
  obtain b where "R (Suc m) (Suc m) b (dev (step_device D ((idle_poll D ^^ k) ?w)))
      (dma (step_device D ((idle_poll D ^^ k) ?w)))"
    using k(3) step_device_R_idle [OF ctl, of "Suc m"] by blast
  then have "R (Suc m) (Suc m) b
      (dev (after_consume D stride (advance_tail (take_cid q)) ((idle_poll D ^^ k) ?w)))
      (dma (after_consume D stride (advance_tail (take_cid q)) ((idle_poll D ^^ k) ?w)))"
    using in_order_controllerD(5) [OF ctl]
    by (simp add: after_consume_def Let_def step_device_log_update)
  then show thesis using run cid at_counts_cid [OF at] by (intro that) auto
qed

lemma submit_and_wait_keeps_ids:
  assumes "queue_ok bar region stride q"
    and "submit_and_wait D bar region stride command (q, w) = (r, (q', w'))"
  shows "queue_id q' = queue_id q \<and> submission_offset q' = submission_offset q \<and>
    completion_offset q' = completion_offset q"
  using assms(2) by (cases rule: submit_cases [OF assms(1), of D command w]) auto

lemma in_order_controller_same:
  assumes "queue_id q' = queue_id q" and "completion_offset q' = completion_offset q"
  shows "in_order_controller D q' stride latency R = in_order_controller D q stride latency R"
  using assms by (simp add: in_order_controller_def)

lemma session_in_order:
  assumes "in_order_controller D q stride latency R" and "latency \<le> 200000"
    and "queue_ok bar region stride q" and "at_counts q m m"
    and "unat (submission_offset q) + 64 * 64 \<le> unat (completion_offset q) \<or>
      unat (completion_offset q) + 64 * 16 \<le> unat (submission_offset q)"
    and "\<exists>b. R m m b (dev w) (dma w)"
    and "\<forall>(between, command) \<in> set cs. \<forall>n b w. R n n b (dev w) (dma w) \<longrightarrow>
      (\<exists>b'. R n n b' (dev (between w)) (dma (between w)))"
  shows "list_all2 (\<lambda>r i. \<exists>c. r = Ok c \<and> cqe_cid c = of_nat i)
    (fst (submit_all D bar region stride cs (q, w))) [m..<m + length cs]"
  using assms
proof (induction cs arbitrary: q m w)
  case (Cons bc cs)
  obtain between command where bc: "bc = (between, command)" by (cases bc)
  have "\<exists>b. R m m b (dev (between w)) (dma (between w))"
    using Cons.prems(6,7) by (auto simp: bc)
  then obtain c q1 w1 b where
    run: "submit_and_wait D bar region stride command (q, between w) = (Ok c, (q1, w1))"
    and c: "cqe_cid c = of_nat m" and R: "R (Suc m) (Suc m) b (dev w1) (dma w1)"
    using submit_in_order [OF Cons.prems(1-5)] by metis
  have ok: "queue_ok bar region stride q1" and at: "at_counts q1 (Suc m) (Suc m)"
    using submit_outcomes [OF Cons.prems(3,4) run] by (simp_all add: timed_out_def)
  have same: "queue_id q1 = queue_id q" "completion_offset q1 = completion_offset q"
    "submission_offset q1 = submission_offset q"
    using submit_and_wait_keeps_ids [OF Cons.prems(3) run] by auto
  have "list_all2 (\<lambda>r i. \<exists>c. r = Ok c \<and> cqe_cid c = of_nat i)
    (fst (submit_all D bar region stride cs (q1, w1))) [Suc m..<Suc m + length cs]"
    by (rule Cons.IH)
      (use Cons.prems ok at R in \<open>auto simp: same in_order_controller_same [OF same(1,2)] bc\<close>)
  with c show ?case by (simp add: bc run case_prod_unfold Let_def upt_conv_Cons del: upt_Suc)
qed simp

text \<open>
  C10: With a controller that completes commands in order, within \<open>latency\<close> steps of the
  doorbell (at most 200\,000), every command of a session of any length on a fresh queue
  pair succeeds with its own completion: call \<open>i\<close> returns \<open>Ok\<close> with a completion whose
  identifier is \<open>i\<close> (modulo 65536). The tail, head, identifier and phase tag stay in step
  with the controller through every wrap.
\<close>

theorem session_completes_every_command:
  assumes "in_order_controller D (queue_new i so co) stride latency R" and "latency \<le> 200000"
    and "queue_ok bar region stride (queue_new i so co)"
    and "unat so + 64 * 64 \<le> unat co \<or> unat co + 64 * 16 \<le> unat so"
    and "R 0 0 b (dev w) (dma w)"
    and "\<forall>(between, command) \<in> set cs. \<forall>n b w. R n n b (dev w) (dma w) \<longrightarrow>
      (\<exists>b'. R n n b' (dev (between w)) (dma (between w)))"
  shows "list_all2 (\<lambda>r n. \<exists>c. r = Ok c \<and> cqe_cid c = of_nat n)
    (fst (submit_all D bar region stride cs (queue_new i so co, w))) [0..<length cs]"
  using session_in_order [OF assms(1,2,3) at_counts_new _ _ assms(6)] assms(4,5)
  by (auto simp: queue_new_def)

end
