(* ===== verification/Command_Builders.thy ===== *)
theory Command_Builders
  imports Nvme_Spec
begin

text \<open>
  \<open>src/nvme_command_builders.rs\<close>: the five commands the driver issues, built on a zeroed
  submission queue entry.
\<close>

unbundle bit_operations_syntax

definition nvme_identify :: "identify_structure \<Rightarrow> u32 \<Rightarrow> u64 \<Rightarrow> submission_queue_entry" where
  "nvme_identify structure nsid prp1 =
     (sqe_new (admin_opcode_u8 AdmIdentify))
       \<lparr>sqe_nsid := nsid, sqe_prp1 := prp1, sqe_cdw10 := ucast (identify_structure_u8 structure)\<rparr>"

definition nvme_create_io_completion_queue ::
  "u16 \<Rightarrow> u16 \<Rightarrow> u64 \<Rightarrow> submission_queue_entry" where
  "nvme_create_io_completion_queue queue_id sz prp1 =
     (sqe_new (admin_opcode_u8 AdmCreateIoCompletionQueue))
       \<lparr>sqe_prp1 := prp1,
        sqe_cdw10 := ucast queue_id OR push_bit 16 (ucast sz - 1),
        sqe_cdw11 := 1\<rparr>"

definition nvme_create_io_submission_queue ::
  "u16 \<Rightarrow> u16 \<Rightarrow> u16 \<Rightarrow> u64 \<Rightarrow> submission_queue_entry" where
  "nvme_create_io_submission_queue queue_id sz completion_queue_id prp1 =
     (sqe_new (admin_opcode_u8 AdmCreateIoSubmissionQueue))
       \<lparr>sqe_prp1 := prp1,
        sqe_cdw10 := ucast queue_id OR push_bit 16 (ucast sz - 1),
        sqe_cdw11 := 1 OR push_bit 16 (ucast completion_queue_id)\<rparr>"

definition nvme_read :: "u32 \<Rightarrow> u64 \<Rightarrow> u16 \<Rightarrow> u64 \<Rightarrow> u64 \<Rightarrow> submission_queue_entry" where
  "nvme_read nsid slba nlb prp1 prp2 =
     (sqe_new (io_opcode_u8 IoRead))
       \<lparr>sqe_nsid := nsid, sqe_prp1 := prp1, sqe_prp2 := prp2,
        sqe_cdw10 := ucast slba, sqe_cdw11 := ucast (drop_bit 32 slba), sqe_cdw12 := ucast nlb\<rparr>"

definition nvme_write :: "u32 \<Rightarrow> u64 \<Rightarrow> u16 \<Rightarrow> u64 \<Rightarrow> u64 \<Rightarrow> submission_queue_entry" where
  "nvme_write nsid slba nlb prp1 prp2 =
     (sqe_new (io_opcode_u8 IoWrite))
       \<lparr>sqe_nsid := nsid, sqe_prp1 := prp1, sqe_prp2 := prp2,
        sqe_cdw10 := ucast slba, sqe_cdw11 := ucast (drop_bit 32 slba), sqe_cdw12 := ucast nlb\<rparr>"

text \<open>
  How the NVM Command Set reads an I/O command back: the starting LBA is CDW10 (low) and
  CDW11 (high), and the number of blocks is the low half of CDW12, zero-based.
\<close>

definition command_slba :: "submission_queue_entry \<Rightarrow> u64" where
  "command_slba e = ucast (sqe_cdw10 e) OR push_bit 32 (ucast (sqe_cdw11 e))"

definition command_blocks :: "submission_queue_entry \<Rightarrow> nat" where
  "command_blocks e = unat (sqe_cdw12 e) mod 2 ^ 16 + 1"

text \<open>The halves of a command dword.\<close>

definition low16 :: "u32 \<Rightarrow> nat" where "low16 w = unat w mod 2 ^ 16"
definition high16 :: "u32 \<Rightarrow> nat" where "high16 w = unat w div 2 ^ 16"

section \<open>Reading the commands back\<close>

lemma split_rejoin_u64: "ucast (ucast w :: u32) OR push_bit 32 (ucast (ucast (drop_bit 32 w) :: u32)) = w"
  for w :: u64
  by (rule bit_eqI) (auto simp: bit_or_iff bit_ucast_iff bit_push_bit_iff bit_drop_bit_eq
      le_add_diff_inverse2 dest: bit_imp_le_length)

lemma unat_nlb: "unat (ucast nlb :: u32) mod 2 ^ 16 = unat nlb" for nlb :: u16
proof -
  have "unat nlb < 2 ^ 16" using unsigned_less [of nlb] by simp
  then show ?thesis by (simp add: unat_ucast_up)
qed

text \<open>
  C37: A Read or a Write command, as it lies in the submission queue, names exactly the blocks
  it was built for: decoding its 64 bytes gives back the namespace, the 64-bit starting LBA
  (split over CDW10 and CDW11), the zero-based block count plus one, both PRP pointers and the
  NVM opcode (2 for Read, 1 for Write), and nothing else in the entry is set.
\<close>

theorem io_commands_name_their_blocks:
  "let rd = sqe_of_bytes (sqe_bytes (nvme_read nsid slba nlb p1 p2));
       wr = sqe_of_bytes (sqe_bytes (nvme_write nsid slba nlb p1 p2))
   in sqe_opc rd = 2 \<and> sqe_opc wr = 1 \<and> wr = rd\<lparr>sqe_opc := 1\<rparr> \<and>
      sqe_nsid rd = nsid \<and> command_slba rd = slba \<and> command_blocks rd = unat nlb + 1 \<and>
      sqe_prp1 rd = p1 \<and> sqe_prp2 rd = p2 \<and> sqe_flags rd = 0 \<and> sqe_mptr rd = 0 \<and>
      sqe_cdw13 rd = 0 \<and> sqe_cdw14 rd = 0 \<and> sqe_cdw15 rd = 0"
  by (simp add: sqe_of_sqe_bytes nvme_read_def nvme_write_def command_slba_def command_blocks_def
      split_rejoin_u64 unat_nlb [simplified] io_opcode_u8_def)

lemma halves_join:
  fixes q :: u16 and h :: u32
  assumes "unat h < 2 ^ 16"
  shows "low16 (ucast q OR push_bit 16 h) = unat q \<and> high16 (ucast q OR push_bit 16 h) = unat h"
proof -
  have q: "unat (ucast q :: u32) = unat q" by (rule unat_ucast_up) simp
  have h: "unat (push_bit 16 h) = unat h * 2 ^ 16"
    using assms by (simp add: push_bit_eq_mult unat_mult_no_wrap)
  have "(ucast q :: u32) AND push_bit 16 h = 0"
    by (rule bit_eqI) (auto simp: bit_and_iff bit_ucast_iff bit_push_bit_iff dest: bit_imp_le_length)
  then have "ucast q OR push_bit 16 h = ucast q + push_bit 16 h" by (simp add: disjunctive_add_eq_or)
  moreover have "unat q < 2 ^ 16" using unsigned_less [of q] by simp
  ultimately show ?thesis using assms
    by (simp add: low16_def high16_def unat_add_no_wrap q h)
qed

text \<open>
  The queue creation commands carry the queue's identifier in the low half of CDW10 and
  its size minus one in the high half; CDW11 asks for a physically contiguous queue without
  interrupts (its low half is 1), and for a submission queue its high half names the completion
  queue. PRP1 is the queue's address, and the two commands have the opcodes 5 and 1.
\<close>

lemma queue_commands_name_their_queue:
  assumes "0 < sz"
  shows "let cq = nvme_create_io_completion_queue qid sz addr;
             sq = nvme_create_io_submission_queue qid sz cqid addr
    in sqe_opc cq = 5 \<and> sqe_opc sq = 1 \<and> sqe_prp1 cq = addr \<and> sqe_prp1 sq = addr \<and>
       low16 (sqe_cdw10 cq) = unat qid \<and> high16 (sqe_cdw10 cq) = unat sz - 1 \<and>
       sqe_cdw10 sq = sqe_cdw10 cq \<and> sqe_cdw11 cq = 1 \<and>
       low16 (sqe_cdw11 sq) = 1 \<and> high16 (sqe_cdw11 sq) = unat cqid"
proof -
  have c: "unat (ucast sz :: u32) = unat sz" "unat (ucast cqid :: u32) = unat cqid"
    by (simp_all add: unat_ucast_up)
  have "0 < unat sz" using assms by (simp add: word_less_nat_alt)
  then have m: "unat (ucast sz - 1 :: u32) = unat sz - 1"
    using c by (simp add: unat_sub word_le_nat_alt)
  have "unat sz < 2 ^ 16" "unat cqid < 2 ^ 16"
    using unsigned_less [of sz] unsigned_less [of cqid] by simp_all
  then show ?thesis
    using halves_join [of "ucast sz - 1" qid] halves_join [of "ucast cqid" 1] m c
    by (simp add: nvme_create_io_completion_queue_def nvme_create_io_submission_queue_def
        admin_opcode_u8_def Let_def)
qed

lemma queue_commands_name_their_queue_witness:
  "high16 (sqe_cdw10 (nvme_create_io_completion_queue 1 64 0x3000)) = 63 \<and>
   high16 (sqe_cdw11 (nvme_create_io_submission_queue 1 64 1 0x2000)) = 1"
  using queue_commands_name_their_queue [of 64 1 "0x3000" 1]
    queue_commands_name_their_queue [of 64 1 "0x2000" 1] by (simp add: Let_def)

text \<open>
  An Identify command carries the requested structure (0 for the namespace, 1 for the
  controller, 2 for the list of active namespaces) as the whole of CDW10, the namespace, and one PRP: the result is one page.
\<close>

lemma identify_command_fields:
  "let e = nvme_identify s nsid p in
     sqe_opc e = 6 \<and> sqe_nsid e = nsid \<and> sqe_prp1 e = p \<and> sqe_prp2 e = 0 \<and> sqe_cdw11 e = 0 \<and>
     unat (sqe_cdw10 e) = (case s of IdNamespace \<Rightarrow> 0 | IdController \<Rightarrow> 1 | IdActiveNamespaceList \<Rightarrow> 2)"
  by (simp add: nvme_identify_def admin_opcode_u8_def Let_def
      identify_structure_u8_def split: identify_structure.split)

end
