(* ===== verification/Driver.thy ===== *)
theory Driver
  imports Queue_Pair Command_Builders
begin

text \<open>
  \<open>src/nvmetoy.rs\<close>: the userspace driver. A \<open>driver\<close> record holds what
  \<open>NvmeUserspaceDriver\<close> holds; its methods run on the pair of the driver and the machine.
  The narration (\<open>chat!\<close>) is not modelled; the prompts (\<open>crate::pause\<close>) and the sleeps are.
\<close>

unbundle bit_operations_syntax

section \<open>Constants and state\<close>

definition IO_QUEUE_ID :: u16 where "IO_QUEUE_ID = 1"
definition IO_SUBMISSION_ENTRY_SIZE_EXPONENT :: u32 where "IO_SUBMISSION_ENTRY_SIZE_EXPONENT = 6"
definition IO_COMPLETION_ENTRY_SIZE_EXPONENT :: u32 where "IO_COMPLETION_ENTRY_SIZE_EXPONENT = 4"
definition ADMIN_SUBMISSION_QUEUE_OFFSET :: usize where "ADMIN_SUBMISSION_QUEUE_OFFSET = 0x0000"
definition ADMIN_COMPLETION_QUEUE_OFFSET :: usize where "ADMIN_COMPLETION_QUEUE_OFFSET = 0x1000"
definition IO_SUBMISSION_QUEUE_OFFSET :: usize where "IO_SUBMISSION_QUEUE_OFFSET = 0x2000"
definition IO_COMPLETION_QUEUE_OFFSET :: usize where "IO_COMPLETION_QUEUE_OFFSET = 0x3000"
definition PRP_LIST_OFFSET :: usize where "PRP_LIST_OFFSET = 0x4000"
definition DATA_OFFSET :: usize where "DATA_OFFSET = 0x5000"
definition MAX_TRANSFER_BYTES :: usize where "MAX_TRANSFER_BYTES = HUGE_PAGE_SIZE - DATA_OFFSET"
definition PRP_LIST_CAPACITY :: usize where "PRP_LIST_CAPACITY = (DATA_OFFSET - PRP_LIST_OFFSET) div 8"

lemmas layout_defs = ADMIN_SUBMISSION_QUEUE_OFFSET_def ADMIN_COMPLETION_QUEUE_OFFSET_def
  IO_SUBMISSION_QUEUE_OFFSET_def IO_COMPLETION_QUEUE_OFFSET_def PRP_LIST_OFFSET_def DATA_OFFSET_def

record driver =
  drv_bar :: nvme_bar
  drv_dma :: dma_region
  doorbell_stride :: usize
  admin_queue :: queue_pair
  io_queue :: queue_pair
  block_sizes :: "u32 \<rightharpoonup> usize"
  drv_nsid :: u32

type_synonym 'd machine = "driver \<times> 'd world"

text \<open>The struct literal in \<open>open\<close>.\<close>

definition driver_new :: "nvme_bar \<Rightarrow> dma_region \<Rightarrow> u64 \<Rightarrow> u32 \<Rightarrow> driver" where
  "driver_new bar region capabilities nsid =
     \<lparr>drv_bar = bar, drv_dma = region, doorbell_stride = cap_stride capabilities,
      admin_queue = queue_new 0 ADMIN_SUBMISSION_QUEUE_OFFSET ADMIN_COMPLETION_QUEUE_OFFSET,
      io_queue = queue_new IO_QUEUE_ID IO_SUBMISSION_QUEUE_OFFSET IO_COMPLETION_QUEUE_OFFSET,
      block_sizes = Map.empty, drv_nsid = nsid\<rparr>"

text \<open>Physical addresses of the areas.\<close>

definition admin_submission_queue_physical_address :: "driver \<Rightarrow> u64" where
  "admin_submission_queue_physical_address dr =
     physical_address_at (drv_dma dr) ADMIN_SUBMISSION_QUEUE_OFFSET"

definition admin_completion_queue_physical_address :: "driver \<Rightarrow> u64" where
  "admin_completion_queue_physical_address dr =
     physical_address_at (drv_dma dr) ADMIN_COMPLETION_QUEUE_OFFSET"

definition io_submission_queue_physical_address :: "driver \<Rightarrow> u64" where
  "io_submission_queue_physical_address dr =
     physical_address_at (drv_dma dr) IO_SUBMISSION_QUEUE_OFFSET"

definition io_completion_queue_physical_address :: "driver \<Rightarrow> u64" where
  "io_completion_queue_physical_address dr =
     physical_address_at (drv_dma dr) IO_COMPLETION_QUEUE_OFFSET"

definition data_page_physical_address :: "driver \<Rightarrow> usize \<Rightarrow> u64" where
  "data_page_physical_address dr page =
     physical_address_at (drv_dma dr) (DATA_OFFSET + page * PAGE_SIZE)"

definition prp_list_physical_address :: "driver \<Rightarrow> u64" where
  "prp_list_physical_address dr = physical_address_at (drv_dma dr) PRP_LIST_OFFSET"

section \<open>Submitting on the driver's queues\<close>

definition admin_submit ::
  "'d device \<Rightarrow> submission_queue_entry \<Rightarrow> ('d machine, completion_queue_entry) prog" where
  "admin_submit D command = (\<lambda>(dr, w).
     case submit_and_wait D (drv_bar dr) (drv_dma dr) (doorbell_stride dr) command (admin_queue dr, w)
     of (r, (q, w')) \<Rightarrow> (r, (dr\<lparr>admin_queue := q\<rparr>, w')))"

definition io_submit ::
  "'d device \<Rightarrow> submission_queue_entry \<Rightarrow> ('d machine, completion_queue_entry) prog" where
  "io_submit D command = (\<lambda>(dr, w).
     case submit_and_wait D (drv_bar dr) (drv_dma dr) (doorbell_stride dr) command (io_queue dr, w)
     of (r, (q, w')) \<Rightarrow> (r, (dr\<lparr>io_queue := q\<rparr>, w')))"

definition check :: "completion_queue_entry \<Rightarrow> string \<Rightarrow> unit outcome" where
  "check completion what =
     (if is_success completion then Ok ()
      else Err (CommandFailed what (status_code_type completion) (status_code completion)))"

section \<open>Bringing the controller up\<close>

text \<open>\<open>wait_ready\<close>, with the number of polls left; the loop makes 1000.\<close>

primrec wait_ready_polls ::
  "'d device \<Rightarrow> nvme_bar \<Rightarrow> bool \<Rightarrow> nat \<Rightarrow> ('d world, unit) prog" where
  "wait_ready_polls D bar want_ready 0 = fail ReadyTimedOut"
| "wait_ready_polls D bar want_ready (Suc n) =
     andthen (read_status D bar) (\<lambda>controller_status.
     if controller_status AND 0x2 \<noteq> 0 then fail FatalStatus
     else if (controller_status AND 0x1 \<noteq> 0) = want_ready then ret ()
     else andthen (emit (Sleep 5)) (\<lambda>_. wait_ready_polls D bar want_ready n))"

definition wait_ready :: "'d device \<Rightarrow> nvme_bar \<Rightarrow> bool \<Rightarrow> ('d world, unit) prog" where
  "wait_ready D bar want_ready = wait_ready_polls D bar want_ready 1000"

definition reset_and_enable :: "'d device \<Rightarrow> driver \<Rightarrow> ('d world, unit) prog" where
  "reset_and_enable D dr =
     (let bar = drv_bar dr in
      andthen (read_configuration D bar) (\<lambda>configuration.
      andthen (write_configuration D bar (configuration AND NOT 1)) (\<lambda>_.
      andthen (wait_ready D bar False) (\<lambda>_.
      let admin_queue_attributes =
        push_bit 16 (ucast QUEUE_DEPTH - 1) OR (ucast QUEUE_DEPTH - 1)
      in andthen (write_admin_queue_attributes D bar admin_queue_attributes) (\<lambda>_.
      andthen (write_admin_submission_queue D bar (admin_submission_queue_physical_address dr)) (\<lambda>_.
      andthen (write_admin_completion_queue D bar (admin_completion_queue_physical_address dr)) (\<lambda>_.
      let configuration = push_bit 20 IO_COMPLETION_ENTRY_SIZE_EXPONENT OR
        push_bit 16 IO_SUBMISSION_ENTRY_SIZE_EXPONENT OR 1
      in andthen (write_configuration D bar configuration) (\<lambda>_.
      wait_ready D bar True))))))))"

definition identify ::
  "'d device \<Rightarrow> identify_structure \<Rightarrow> u32 \<Rightarrow> ('d machine, u8 list) prog" where
  "identify D structure nsid =
     andthen (gets (\<lambda>(dr, w). nvme_identify structure nsid (data_page_physical_address dr 0)))
       (\<lambda>command.
     andthen (admin_submit D command) (\<lambda>completion.
     andthen (of_outcome (check completion ''Identify'')) (\<lambda>_.
     andthen (gets fst) (\<lambda>dr.
     on_snd (read_bytes D (drv_dma dr) DATA_OFFSET 4096)))))"

text \<open>\<open>((lo)..=(hi)).contains(&x)\<close> on the nibbles of an entry-size byte.\<close>

definition entry_size_accepted :: "u8 \<Rightarrow> u32 \<Rightarrow> bool" where
  "entry_size_accepted sizes required \<longleftrightarrow>
     sizes AND 0xF \<le> ucast required \<and> ucast required \<le> drop_bit 4 sizes"

definition check_queue_entry_sizes :: "'d device \<Rightarrow> ('d machine, unit) prog" where
  "check_queue_entry_sizes D =
     andthen (identify D IdController 0) (\<lambda>data.
     case read_from_prefix identify_controller data of
       None \<Rightarrow> fail IdentifyControllerTooShort
     | Some controller \<Rightarrow>
         let submission = field_le identify_controller ''sqes'' controller;
             completion = field_le identify_controller ''cqes'' controller
         in if \<not> entry_size_accepted submission IO_SUBMISSION_ENTRY_SIZE_EXPONENT then
              fail (SqEntrySizeExcluded (submission AND 0xF) (drop_bit 4 submission))
            else if \<not> entry_size_accepted completion IO_COMPLETION_ENTRY_SIZE_EXPONENT then
              fail (CqEntrySizeExcluded (completion AND 0xF) (drop_bit 4 completion))
            else ret ())"

definition create_io_queues :: "'d device \<Rightarrow> ('d machine, unit) prog" where
  "create_io_queues D =
     andthen (gets (\<lambda>(dr, w). nvme_create_io_completion_queue IO_QUEUE_ID (ucast QUEUE_DEPTH)
       (io_completion_queue_physical_address dr))) (\<lambda>command.
     andthen (admin_submit D command) (\<lambda>completion.
     andthen (of_outcome (check completion ''Create I/O Completion Queue'')) (\<lambda>_.
     andthen (gets (\<lambda>(dr, w). nvme_create_io_submission_queue IO_QUEUE_ID (ucast QUEUE_DEPTH)
       IO_QUEUE_ID (io_submission_queue_physical_address dr))) (\<lambda>command.
     andthen (admin_submit D command) (\<lambda>completion.
     of_outcome (check completion ''Create I/O Submission Queue''))))))"

section \<open>Block size\<close>

text \<open>
  \<open>namespace.lba_formats[format_index].lbads\<close>; the index is below 16 and the array has 64
  elements, so the bounds check of the indexing never fails.
\<close>

definition lba_format_lbads :: "u8 list \<Rightarrow> nat \<Rightarrow> u8" where
  "lba_format_lbads namespace format_index =
     field_le lba_format ''lbads''
       (take 4 (drop (4 * format_index) (field_bytes identify_namespace ''lba_formats'' namespace)))"

definition block_size_of :: "u8 list \<Rightarrow> usize" where
  "block_size_of namespace =
     (let format_index = unat (field_le identify_namespace ''flbas'' namespace AND 0xF :: u8)
      in shl_masked 1 (unat (lba_format_lbads namespace format_index)))"

definition identify_block_size :: "'d device \<Rightarrow> u32 \<Rightarrow> ('d machine, usize) prog" where
  "identify_block_size D nsid =
     andthen (identify D IdNamespace nsid) (\<lambda>data.
     case read_from_prefix identify_namespace data of
       None \<Rightarrow> fail IdentifyNamespaceTooShort
     | Some namespace \<Rightarrow>
         let block_size = block_size_of namespace
         in andthen (on_fst (modify (\<lambda>dr. dr\<lparr>block_sizes := (block_sizes dr)(nsid \<mapsto> block_size)\<rparr>)))
              (\<lambda>_. ret block_size))"

definition namespace_block_size :: "'d device \<Rightarrow> u32 \<Rightarrow> ('d machine, usize) prog" where
  "namespace_block_size D nsid =
     andthen (gets (\<lambda>(dr, w). block_sizes dr nsid)) (\<lambda>cached.
     case cached of
       Some block_size \<Rightarrow> ret block_size
     | None \<Rightarrow> identify_block_size D nsid)"

section \<open>Data pointers\<close>

primrec write_prp_list ::
  "'d device \<Rightarrow> driver \<Rightarrow> nat \<Rightarrow> nat \<Rightarrow> ('d world, unit) prog" where
  "write_prp_list D dr index 0 = ret ()"
| "write_prp_list D dr index (Suc n) =
     andthen (write_volatile D u64_repr (drv_dma dr) (PRP_LIST_OFFSET + of_nat index * 8)
       (data_page_physical_address dr (of_nat index + 1))) (\<lambda>_.
     write_prp_list D dr (Suc index) n)"

definition data_pointers :: "'d device \<Rightarrow> driver \<Rightarrow> usize \<Rightarrow> ('d world, u64 \<times> u64) prog" where
  "data_pointers D dr len =
     (let prp1 = data_page_physical_address dr 0;
          page_count = div_ceil len PAGE_SIZE
      in if page_count = 0 \<or> page_count = 1 then ret (prp1, 0)
         else if page_count = 2 then ret (prp1, data_page_physical_address dr 1)
         else andthen (write_prp_list D dr 0 (unat (page_count - 1))) (\<lambda>_.
              ret (prp1, prp_list_physical_address dr)))"

section \<open>Reading and writing\<close>

definition driver_read :: "'d device \<Rightarrow> u64 \<Rightarrow> u16 \<Rightarrow> ('d machine, u8 list) prog" where
  "driver_read D slba block_count =
     andthen (gets (\<lambda>(dr, w). drv_nsid dr)) (\<lambda>nsid.
     if block_count = 0 then fail ReadOfZeroBlocks
     else
       andthen (namespace_block_size D nsid) (\<lambda>block_size.
       let total = block_size * ucast block_count
       in if MAX_TRANSFER_BYTES < total then fail ReadLargerThanBuffer
          else
            andthen (gets fst) (\<lambda>dr.
            andthen (on_snd (data_pointers D dr total)) (\<lambda>(prp1, prp2).
            andthen (io_submit D (nvme_read nsid slba (block_count - 1) prp1 prp2)) (\<lambda>completion.
            andthen (of_outcome (check completion ''Read'')) (\<lambda>_.
            on_snd (read_bytes D (drv_dma dr) DATA_OFFSET total)))))))"

definition driver_write :: "'d device \<Rightarrow> u64 \<Rightarrow> u8 list \<Rightarrow> ('d machine, unit) prog" where
  "driver_write D slba data =
     andthen (gets (\<lambda>(dr, w). drv_nsid dr)) (\<lambda>nsid.
     andthen (namespace_block_size D nsid) (\<lambda>block_size.
     let len = of_nat (length data) :: usize
     in if data = [] then fail WriteLengthNotMultiple
        else if block_size = 0 then crash DivideByZero
        else if len mod block_size \<noteq> 0 then fail WriteLengthNotMultiple
        else if MAX_TRANSFER_BYTES < len then fail WriteLargerThanBuffer
        else
          let block_count = len div block_size
          in andthen (gets fst) (\<lambda>dr.
             andthen (on_snd (write_bytes D (drv_dma dr) DATA_OFFSET data)) (\<lambda>_.
             andthen (on_snd (data_pointers D dr len)) (\<lambda>(prp1, prp2).
             andthen (io_submit D (nvme_write nsid slba (ucast block_count - 1) prp1 prp2)) (\<lambda>completion.
             of_outcome (check completion ''Write'')))))))"

definition driver_identify_controller :: "'d device \<Rightarrow> ('d machine, u8 list) prog" where
  "driver_identify_controller D = identify D IdController 0"

section \<open>Opening the device\<close>

text \<open>
  What the host system answers, besides the mappings: reading the link to the bound kernel
  driver (the last component of its target when that is UTF-8, no link, or an error), opening
  the PCI configuration space and reading the two bytes of the command register at offset 4,
  and writing two bytes there.
\<close>

datatype driver_link = LinkMissing | LinkFailed nat | LinkTo "rtext option"

record host =
  host_driver_link :: "rtext \<Rightarrow> driver_link"
  host_read_command :: "rtext \<Rightarrow> nat + u8 list"
  host_write_command :: "rtext \<Rightarrow> u8 list \<Rightarrow> nat option"
  host_bar :: bar_os
  host_mem :: mem_os

definition refuse_if_kernel_driver_bound :: "host \<Rightarrow> rtext \<Rightarrow> unit outcome" where
  "refuse_if_kernel_driver_bound h bdf =
     (case host_driver_link h bdf of
        LinkMissing \<Rightarrow> Ok ()
      | LinkFailed e \<Rightarrow> Err (OsError e)
      | LinkTo driver_name \<Rightarrow>
          if driver_name = Some (txt_of ''nvme'') then Err KernelDriverBound else Ok ())"

definition enable_bus_master :: "host \<Rightarrow> rtext \<Rightarrow> ('d world, unit) prog" where
  "enable_bus_master h bdf =
     (case host_read_command h bdf of
        Inl e \<Rightarrow> fail (OsError e)
      | Inr buffer \<Rightarrow>
          let previous = (of_le buffer :: u16);
              command = previous OR push_bit 1 1 OR push_bit 2 1
          in case host_write_command h bdf (le_bytes 2 command) of
               Some e \<Rightarrow> fail (OsError e)
             | None \<Rightarrow> emit (ConfigWrite bdf 4 (le_bytes 2 command)))"

text \<open>
  Leaving a scope early, by an error or by a panic, runs the destructors of what the scope
  owns: \<open>or_drop p d\<close> runs \<open>d\<close> when \<open>p\<close> does not end normally.
\<close>

definition or_drop :: "('s, 'a) prog \<Rightarrow> ('s, unit) prog \<Rightarrow> ('s, 'a) prog" where
  "or_drop p d = (\<lambda>s. case p s of
     (Ok x, s') \<Rightarrow> (Ok x, s') | (Err e, s') \<Rightarrow> (Err e, snd (d s')) | (Panic q, s') \<Rightarrow> (Panic q, snd (d s')))"

text \<open>The part of \<open>open\<close> that runs on the new driver.\<close>

definition bring_up :: "'d device \<Rightarrow> ('d machine, unit) prog" where
  "bring_up D =
     andthen (gets fst) (\<lambda>dr.
     andthen (on_snd (reset_and_enable D dr)) (\<lambda>_.
     andthen (on_snd pause) (\<lambda>_.
     andthen (check_queue_entry_sizes D) (\<lambda>_.
     andthen (on_snd pause) (\<lambda>_.
     andthen (create_io_queues D) (\<lambda>_.
     andthen (on_snd pause) (\<lambda>_.
     andthen (namespace_block_size D (drv_nsid dr)) (\<lambda>_.
     ret ()))))))))"

definition run_driver :: "driver \<Rightarrow> ('d machine, unit) prog \<Rightarrow> ('d world, driver) prog" where
  "run_driver dr p = (\<lambda>w. case p (dr, w) of
     (Ok _, (dr', w')) \<Rightarrow> (Ok dr', w')
   | (Err e, (dr', w')) \<Rightarrow> (Err e, w')
   | (Panic q, (dr', w')) \<Rightarrow> (Panic q, w'))"

text \<open>
  \<open>NvmeUserspaceDriver::open\<close>, on the host's mapping calls and the machine. Locals are
  dropped in reverse order of declaration, the fields of the driver in declaration order.
\<close>

definition driver_open ::
  "'d device \<Rightarrow> host \<Rightarrow> rtext \<Rightarrow> u32 \<Rightarrow> (os_call list \<times> 'd world, driver) prog" where
  "driver_open D h bdf nsid =
     andthen (of_outcome (refuse_if_kernel_driver_bound h bdf)) (\<lambda>_.
     andthen (on_snd (enable_bus_master h bdf)) (\<lambda>_.
     andthen (on_snd pause) (\<lambda>_.
     andthen (on_fst (bar_map (host_bar h) bdf 0)) (\<lambda>bar.
     andthen (or_drop (on_fst (alloc_huge (host_mem h))) (on_fst (drop_bar bar))) (\<lambda>region.
     andthen (or_drop
         (andthen (on_snd (read_capabilities D bar)) (\<lambda>capabilities.
          andthen (on_snd pause) (\<lambda>_. ret capabilities)))
         (on_fst (andthen (drop_region region) (\<lambda>_. drop_bar bar)))) (\<lambda>capabilities.
     or_drop
       (on_snd (run_driver (driver_new bar region capabilities nsid) (bring_up D)))
       (on_fst (andthen (drop_bar bar) (\<lambda>_. drop_region region)))))))))"

text \<open>Dropping the driver unmaps the BAR and the region; the controller is left running.\<close>

definition drop_driver :: "driver \<Rightarrow> (os_call list, unit) prog" where
  "drop_driver dr = andthen (drop_bar (drv_bar dr)) (\<lambda>_. drop_region (drv_dma dr))"

end
