(* ===== verification/Driver_Safety.thy ===== *)
theory Driver_Safety
  imports Driver
begin

text \<open>
  The driver's invariant and what it gives: for every controller, no operation of the driver
  panics, every one keeps the invariant, and what it stores and which registers it writes stay
  in a known footprint. The proofs run along the programs with the rules of \<open>safe\<close>.
\<close>

unbundle bit_operations_syntax

section \<open>The invariant\<close>

definition queue_at :: "u16 \<Rightarrow> usize \<Rightarrow> usize \<Rightarrow> queue_pair \<Rightarrow> bool" where
  "queue_at i so co q \<longleftrightarrow> queue_id q = i \<and> submission_offset q = so \<and> completion_offset q = co \<and>
     unat (submission_tail q) < 64 \<and> unat (completion_head q) < 64"

text \<open>The BAR reaches past the doorbells of queues 0 and 1; the region is one hugepage.\<close>

definition hardware_ok :: "nvme_bar \<Rightarrow> dma_region \<Rightarrow> usize \<Rightarrow> bool" where
  "hardware_ok bar region stride \<longleftrightarrow> dma_length region = HUGE_PAGE_SIZE \<and>
     unat stride mod 4 = 0 \<and> unat stride \<le> 2 ^ 17 \<and> 4096 + 3 * unat stride + 4 \<le> unat (bar_length bar)"

definition driver_ok :: "driver \<Rightarrow> bool" where
  "driver_ok dr \<longleftrightarrow>
     hardware_ok (drv_bar dr) (drv_dma dr) (doorbell_stride dr) \<and>
     queue_at 0 0 0x1000 (admin_queue dr) \<and> queue_at 1 0x2000 0x3000 (io_queue dr) \<and>
     (\<forall>n bs. block_sizes dr n = Some bs \<longrightarrow> (\<exists>k<64. unat bs = 2 ^ k))"

definition same_hardware :: "driver \<Rightarrow> driver \<Rightarrow> bool" where
  "same_hardware dr dr' \<longleftrightarrow> drv_bar dr' = drv_bar dr \<and> drv_dma dr' = drv_dma dr \<and>
     doorbell_stride dr' = doorbell_stride dr \<and> drv_nsid dr' = drv_nsid dr"

lemma cap_stride_bounds: "unat (cap_stride v) mod 4 = 0" "unat (cap_stride v) \<le> 2 ^ 17"
proof -
  have "unat v div 2 ^ 32 mod 16 \<le> 15" by simp
  then have "(2::nat) ^ (unat v div 2 ^ 32 mod 16) \<le> 2 ^ 15" by (rule power_increasing) simp
  then show "unat (cap_stride v) mod 4 = 0" "unat (cap_stride v) \<le> 2 ^ 17"
    by (simp_all only: cap_stride_pow) simp_all
qed

lemma doorbells_of_queue:
  assumes "hardware_ok bar region stride" and "unat (q :: u16) \<le> 1"
  shows "reg_ok 4 bar (submission_doorbell q stride)" "reg_ok 4 bar (completion_doorbell q stride)"
proof -
  have le: "unat stride \<le> 2 ^ 17" and m: "unat stride mod 4 = 0"
    and len: "4096 + 3 * unat stride + 4 \<le> unat (bar_length bar)"
    using assms(1) by (simp_all add: hardware_ok_def)
  have i: "doorbell_index c q \<le> 3" for c using assms(2) by (simp add: doorbell_index_def)
  have "reg_ok 4 bar (doorbell c q stride)" for c
  proof -
    have "doorbell_index c q * unat stride \<le> 3 * unat stride" using i by (rule mult_le_mono1)
    then have "4096 + doorbell_index c q * unat stride + 4 \<le> unat (bar_length bar)"
      using len by linarith
    moreover have "doorbell_index c q * unat stride mod 4 = 0"
      using m by (metis mod_mult_right_eq mult_0_right mod_0)
    then have "(4096 + doorbell_index c q * unat stride) mod 4 = 0" by presburger
    ultimately show ?thesis by (simp add: reg_ok_def unat_doorbell [OF le])
  qed
  from this [of False] this [of True]
  show "reg_ok 4 bar (submission_doorbell q stride)" "reg_ok 4 bar (completion_doorbell q stride)"
    by (simp_all add: doorbell_def)
qed

lemma queue_at_ok:
  assumes "hardware_ok bar region stride" and "queue_at i so co q" and "unat i \<le> 1"
    and "unat so mod 8 = 0" "unat co mod 4 = 0" "unat so \<le> 0x3000" "unat co \<le> 0x3000"
  shows "queue_ok bar region stride q"
  using assms doorbells_of_queue [OF assms(1,3)]
  by (simp add: queue_ok_def queue_at_def hardware_ok_def HUGE_PAGE_SIZE_def)

lemma driver_ok_queues:
  assumes "driver_ok dr"
  shows "queue_ok (drv_bar dr) (drv_dma dr) (doorbell_stride dr) (admin_queue dr)"
    and "queue_ok (drv_bar dr) (drv_dma dr) (doorbell_stride dr) (io_queue dr)"
  using assms queue_at_ok [of "drv_bar dr" "drv_dma dr" "doorbell_stride dr" 0 0 "0x1000" "admin_queue dr"]
    queue_at_ok [of "drv_bar dr" "drv_dma dr" "doorbell_stride dr" 1 "0x2000" "0x3000" "io_queue dr"]
  by (simp_all add: driver_ok_def)

lemma driver_ok_new:
  assumes "dma_length region = HUGE_PAGE_SIZE"
    and "4096 + 3 * unat (cap_stride cap) + 4 \<le> unat (bar_length bar)"
  shows "driver_ok (driver_new bar region cap nsid)"
  using assms cap_stride_bounds [of cap]
  by (simp add: driver_ok_def driver_new_def hardware_ok_def queue_at_def queue_new_def layout_defs
      IO_QUEUE_ID_def)

section \<open>The footprint\<close>

text \<open>
  Where the driver stores and which registers it writes while it serves the queues in \<open>qs\<close>:
  submission rings (one page each), the PRP page and the data area behind it; tail and head
  doorbells with ring positions. The completion rings are never written.
\<close>

definition ring_base :: "u16 \<Rightarrow> nat" where
  "ring_base q = unat q * 0x2000"

definition footprint :: "usize \<Rightarrow> u16 set \<Rightarrow> event \<Rightarrow> bool" where
  "footprint stride qs e = (case e of
     DmaStore off bs \<Rightarrow>
       (\<exists>q\<in>qs. ring_base q \<le> off \<and> off + length bs \<le> ring_base q + 0x1000) \<or>
       (0x4000 \<le> off \<and> off + length bs \<le> 0x200000)
   | RegWrite32 reg v \<Rightarrow>
       (\<exists>q\<in>qs. reg = submission_doorbell q stride \<or> reg = completion_doorbell q stride) \<and> unat v < 64
   | Fence \<Rightarrow> True
   | Pause \<Rightarrow> True
   | _ \<Rightarrow> False)"

lemma footprint_mono: "footprint stride qs e \<Longrightarrow> qs \<subseteq> qs' \<Longrightarrow> footprint stride qs' e"
  by (auto simp: footprint_def split: event.splits)

text \<open>The driver at a fixed piece of hardware, and its log.\<close>

definition driver_at :: "driver \<Rightarrow> driver \<Rightarrow> bool" where
  "driver_at dr0 dr \<longleftrightarrow> driver_ok dr \<and> same_hardware dr0 dr"

abbreviation safe_driver ::
  "driver \<Rightarrow> u16 set \<Rightarrow> ('d machine, 'a) prog \<Rightarrow> ('a \<Rightarrow> bool) \<Rightarrow> bool" where
  "safe_driver dr0 qs p Q \<equiv>
     safe (\<lambda>s. log (snd s)) (\<lambda>s. driver_at dr0 (fst s)) (footprint (doorbell_stride dr0) qs) p Q"

lemma submit_keeps:
  assumes "queue_ok bar region stride q"
    and "submit_and_wait D bar region stride command (q, w) = (r, (q', w'))"
  shows "queue_ok bar region stride q'" and "r \<noteq> Panic p"
proof -
  have "queue_ok bar region stride q' \<and> r \<noteq> Panic p"
    by (rule submit_cases [OF assms(1), of D command w])
      (use assms in \<open>auto split: if_splits\<close>)
  then show "queue_ok bar region stride q'" and "r \<noteq> Panic p" by simp_all
qed

lemma submit_footprint:
  assumes "queue_ok bar region stride q" and "queue_at i so co q" and "unat so = ring_base i"
    and "submit_and_wait D bar region stride command (q, w) = (r, (q', w'))"
  shows "queue_at i so co q' \<and> r \<noteq> Panic p \<and>
    (\<exists>es. log w' = log w @ es \<and> list_all (footprint stride {i}) es)"
proof -
  have q: "queue_id q = i" "unat (submission_offset q) = ring_base i" "unat (submission_tail q) < 64"
    using assms(2,3) by (simp_all add: queue_at_def)
  have "queue_at i so co q'"
    using submit_and_wait_keeps_ids [OF assms(1,4)] submit_keeps(1) [OF assms(1,4)] assms(2)
    by (simp add: queue_at_def queue_ok_def)
  moreover have small: "unat (of_nat (n mod 64) :: u32) < 64" for n
  proof -
    have "n mod 64 < 64" by simp
    then have "unat (of_nat (n mod 64) :: u32) = n mod 64" by (intro unat_of_nat_small) simp
    then show ?thesis by simp
  qed
  obtain k where log: "log w' = log w @
    [DmaStore (ring_base i + unat (submission_tail q) * 64)
       (sqe_bytes (command\<lparr>sqe_cid := next_cid q\<rparr>)), Fence,
     RegWrite32 (submission_doorbell i stride) (of_nat ((unat (submission_tail q) + 1) mod 64))] @
    replicate k Pause @
    (if timed_out r then []
     else [Fence, RegWrite32 (completion_doorbell i stride)
       (of_nat ((unat (completion_head q) + 1) mod 64))])"
    using submit_trace [OF assms(1,4)] q by auto
  have fp: "footprint stride {i} (RegWrite32 (submission_doorbell i stride) (of_nat (n mod 64)))"
    "footprint stride {i} (RegWrite32 (completion_doorbell i stride) (of_nat (n mod 64)))"
    "footprint stride {i} Fence" "footprint stride {i} Pause"
    "footprint stride {i} (DmaStore (ring_base i + unat (submission_tail q) * 64)
       (sqe_bytes (command\<lparr>sqe_cid := next_cid q\<rparr>)))" for n
    using q(3) by (simp_all only: footprint_def event.case small) auto
  have "list_all (footprint stride {i}) (replicate k Pause)" using fp(4) by (simp add: list_all_iff)
  then have "\<exists>es. log w' = log w @ es \<and> list_all (footprint stride {i}) es"
    unfolding log by (intro exI conjI) (rule refl, simp only: list_all_append list.pred_inject fp split: if_split, simp)
  ultimately show ?thesis using submit_keeps(2) [OF assms(1,4)] by blast
qed

lemma driver_at_queue_updates:
  "driver_at dr0 dr \<Longrightarrow> queue_at 0 0 0x1000 q \<Longrightarrow> driver_at dr0 (dr\<lparr>admin_queue := q\<rparr>)"
  "driver_at dr0 dr \<Longrightarrow> queue_at 1 0x2000 0x3000 q \<Longrightarrow> driver_at dr0 (dr\<lparr>io_queue := q\<rparr>)"
  unfolding driver_at_def driver_ok_def same_hardware_def by simp_all metis+

lemma driver_atD:
  assumes "driver_at dr0 dr"
  shows "drv_bar dr = drv_bar dr0" "drv_dma dr = drv_dma dr0" "doorbell_stride dr = doorbell_stride dr0"
    "drv_nsid dr = drv_nsid dr0" "driver_ok dr" "dma_length (drv_dma dr0) = HUGE_PAGE_SIZE"
  using assms unfolding driver_at_def same_hardware_def driver_ok_def hardware_ok_def by auto

section \<open>The command channels\<close>

text \<open>
  What the driver's operations rely on when they submit a command: the submission keeps the
  driver's invariant, never panics, and writes only what belongs to its queue. A command and
  the check of its completion inherit this.
\<close>

locale command_channel =
  fixes submit :: "submission_queue_entry \<Rightarrow> ('d machine, completion_queue_entry) prog"
    and queues :: "u16 set"
  assumes submit_safe: "safe_driver dr0 queues (submit command) (\<lambda>_. True)"
begin

definition checked :: "submission_queue_entry \<Rightarrow> string \<Rightarrow> ('d machine, unit) prog" where
  "checked command what =
     andthen (submit command) (\<lambda>completion. of_outcome (check completion what))"

lemma checked_safe: "safe_driver dr0 queues (checked command what) (\<lambda>_. True)"
  unfolding checked_def
  by (rule safe_andthen [OF submit_safe]) (auto simp: check_def intro: safe_of_outcome)

lemma then_checked:
  "andthen (submit command) (\<lambda>completion. andthen (of_outcome (check completion what)) f) =
   andthen (checked command what) f"
  by (simp add: checked_def andthen_assoc)

lemma checked_Ok:
  assumes "fst (checked command what s) = Ok ()"
  obtains completion where "fst (submit command s) = Ok completion" and "is_success completion"
  using assms by (auto simp: checked_def run_simps check_def split: outcome.splits if_splits)

end

text \<open>A submission on one of the driver's queues, which \<open>put\<close> stores back.\<close>

lemma queue_submit_safe:
  fixes D :: "'d device"
  assumes put: "\<And>dr q. driver_at dr0 dr \<Longrightarrow> queue_at i so co q \<Longrightarrow> driver_at dr0 (put dr q)"
    and get: "\<And>dr. driver_ok dr \<Longrightarrow> queue_at i so co (get dr) \<and>
      queue_ok (drv_bar dr) (drv_dma dr) (doorbell_stride dr) (get dr)"
    and ring: "unat so = ring_base i"
  shows "safe_driver dr0 {i} (\<lambda>(dr, w :: 'd world). case submit_and_wait D (drv_bar dr) (drv_dma dr)
      (doorbell_stride dr) command (get dr, w) of (r, (q, w')) \<Rightarrow> (r, (put dr q, w'))) (\<lambda>_. True)"
  unfolding safe_def
proof (intro allI impI)
  fix s :: "'d machine" assume "driver_at dr0 (fst s)"
  then obtain dr w where s: "s = (dr, w)" and at: "driver_at dr0 dr" by (cases s) auto
  obtain r q w' where run: "submit_and_wait D (drv_bar dr) (drv_dma dr) (doorbell_stride dr) command
      (get dr, w) = (r, (q, w'))" by (metis prod.exhaust)
  note ok = get [OF driver_atD(5) [OF at]]
  have "queue_at i so co q \<and> r \<noteq> Panic p \<and>
      (\<exists>es. log w' = log w @ es \<and> list_all (footprint (doorbell_stride dr0) {i}) es)" for p
    using submit_footprint [OF conjunct2 [OF ok] conjunct1 [OF ok] ring run] driver_atD(3) [OF at] by simp
  then show "driver_at dr0 (fst (snd ((\<lambda>(dr, w). case submit_and_wait D (drv_bar dr) (drv_dma dr)
          (doorbell_stride dr) command (get dr, w) of (r, (q, w')) \<Rightarrow> (r, (put dr q, w'))) s))) \<and>
      (\<exists>es. log (snd (snd ((\<lambda>(dr, w). case submit_and_wait D (drv_bar dr) (drv_dma dr)
          (doorbell_stride dr) command (get dr, w) of (r, (q, w')) \<Rightarrow> (r, (put dr q, w'))) s))) = log (snd s) @ es \<and>
        list_all (footprint (doorbell_stride dr0) {i}) es) \<and>
      (case fst ((\<lambda>(dr, w). case submit_and_wait D (drv_bar dr) (drv_dma dr) (doorbell_stride dr) command
          (get dr, w) of (r, (q, w')) \<Rightarrow> (r, (put dr q, w'))) s) of
        Ok x \<Rightarrow> True | Err e \<Rightarrow> True | Panic q \<Rightarrow> False)"
    using put [OF at] by (auto simp: s run split: outcome.split)
qed

lemma admin_submit_safe: "safe_driver dr0 {0} (admin_submit D command) (\<lambda>_. True)"
  and io_submit_safe: "safe_driver dr0 {1} (io_submit D command) (\<lambda>_. True)"
proof -
  have at: "driver_ok dr \<Longrightarrow> queue_at 0 0 0x1000 (admin_queue dr)"
    "driver_ok dr \<Longrightarrow> queue_at 1 0x2000 0x3000 (io_queue dr)" for dr
    by (simp_all add: driver_ok_def)
  show "safe_driver dr0 {0} (admin_submit D command) (\<lambda>_. True)"
    unfolding admin_submit_def
    by (rule queue_submit_safe [OF driver_at_queue_updates(1)]) (auto simp: driver_ok_queues ring_base_def intro: at)
  show "safe_driver dr0 {1} (io_submit D command) (\<lambda>_. True)"
    unfolding io_submit_def
    by (rule queue_submit_safe [OF driver_at_queue_updates(2)]) (auto simp: driver_ok_queues ring_base_def intro: at)
qed

interpretation admin_channel: command_channel "admin_submit D" "{0}" for D
  by unfold_locales (rule admin_submit_safe)

interpretation io_channel: command_channel "io_submit D" "{1}" for D
  by unfold_locales (rule io_submit_safe)

section \<open>Identify and the block size\<close>

lemma safe_read_bytes:
  assumes "unat off + unat n \<le> unat (dma_length region)"
  shows "safe log (\<lambda>_. True) P (read_bytes D region off n) (\<lambda>bs. length bs = unat n)"
proof -
  have "check_bytes region off n = Ok ()" using assms by (simp only: check_bytes_Ok)
  then show ?thesis by (simp add: safe_def read_bytes_def run_simps)
qed

lemma safe_write_bytes:
  assumes "unat off + length bs \<le> unat (dma_length region)" and "P (DmaStore (unat off) bs)"
  shows "safe log (\<lambda>_. True) P (write_bytes D region off bs) (\<lambda>_. True)"
proof -
  have "unat (dma_length region) < 2 ^ 64" using unsigned_less [of "dma_length region"] by simp
  then have "length bs < 2 ^ LENGTH(64)" using assms(1) by simp
  then have "unat (of_nat (length bs) :: usize) = length bs" by (rule unat_of_nat_small)
  then have "check_bytes region off (of_nat (length bs)) = Ok ()"
    using assms by (simp only: check_bytes_Ok)
  then show ?thesis using assms by (simp add: safe_def write_bytes_def run_simps)
qed

lemma unat_MAX_TRANSFER_BYTES: "unat MAX_TRANSFER_BYTES = 0x1FB000"
  by (simp add: MAX_TRANSFER_BYTES_def HUGE_PAGE_SIZE_def DATA_OFFSET_def)

lemma data_area:
  assumes "driver_at dr0 dr" and "n \<le> 0x1FB000"
  shows "unat DATA_OFFSET + n \<le> unat (dma_length (drv_dma dr))"
  using assms driver_atD(2,6) [OF assms(1)] by (simp add: DATA_OFFSET_def HUGE_PAGE_SIZE_def)

lemma identify_safe: "safe_driver dr0 {0} (identify D structure nsid) (\<lambda>bs. length bs = 4096)"
  unfolding identify_def admin_channel.then_checked
proof (intro safe_andthen [OF safe_pure(3)])
  fix command
  show "safe_driver dr0 {0} (andthen (admin_channel.checked D command ''Identify'') (\<lambda>_.
      andthen (gets fst) (\<lambda>dr. on_snd (read_bytes D (drv_dma dr) DATA_OFFSET 4096))))
      (\<lambda>bs. length bs = 4096)"
  proof (rule safe_andthen [OF admin_channel.checked_safe],
      rule safe_andthen [where R = "driver_at dr0", OF safe_pure(3)])
    fix dr assume "driver_at dr0 dr"
    from data_area [OF this, of 4096]
    show "safe_driver dr0 {0} (on_snd (read_bytes D (drv_dma dr) DATA_OFFSET 4096)) (\<lambda>bs. length bs = 4096)"
      using safe_read_bytes [of DATA_OFFSET 4096 "drv_dma dr"] by (intro safe_on_snd) simp
  qed simp
qed auto

lemma block_size_of_pow: "unat (block_size_of ns) =
    2 ^ (unat (lba_format_lbads ns (unat (field_le identify_namespace ''flbas'' ns AND 0xF :: u8))) mod 64)"
proof -
  have pow: "unat (shl_masked 1 n :: usize) = 2 ^ (n mod 64)" for n
  proof -
    have "n mod 64 < 64" by simp
    then have "(2::nat) ^ (n mod 64) < 2 ^ LENGTH(64)" by (intro power_strict_increasing) simp_all
    then have "unat (of_nat (2 ^ (n mod 64)) :: usize) = 2 ^ (n mod 64)" by (rule unat_of_nat_small)
    then show ?thesis by (simp add: shl_masked_def push_bit_eq_mult)
  qed
  show ?thesis by (simp only: block_size_of_def Let_def pow)
qed

lemma safe_cache:
  "\<exists>k<64. unat bs = 2 ^ k \<Longrightarrow>
   safe_driver dr0 qs (on_fst (modify (\<lambda>dr. dr\<lparr>block_sizes := (block_sizes dr)(nsid \<mapsto> bs)\<rparr>))) (\<lambda>_. True)"
  by (auto simp: safe_def run_simps driver_at_def driver_ok_def same_hardware_def)

lemma identify_block_size_safe:
  "safe_driver dr0 {0} (identify_block_size D nsid) (\<lambda>bs. \<exists>k<64. unat bs = 2 ^ k)"
  unfolding identify_block_size_def
proof (rule safe_andthen [OF identify_safe], rule safe_case_option)
  fix data :: "u8 list" and ns
  have "\<exists>k<64. unat (block_size_of ns) = 2 ^ k"
    unfolding block_size_of_pow by (rule exI [of _ "n mod 64" for n]) (rule conjI [OF _ refl], simp)
  then show "safe_driver dr0 {0} (let block_size = block_size_of ns in
      andthen (on_fst (modify (\<lambda>dr. dr\<lparr>block_sizes := (block_sizes dr)(nsid \<mapsto> block_size)\<rparr>)))
        (\<lambda>_. ret block_size)) (\<lambda>bs. \<exists>k<64. unat bs = 2 ^ k)"
    unfolding Let_def by (intro safe_andthen [OF safe_cache] safe_pure)
qed (rule safe_pure)

lemma namespace_block_size_safe:
  "safe_driver dr0 {0} (namespace_block_size D nsid) (\<lambda>bs. \<exists>k<64. unat bs = 2 ^ k)"
  unfolding namespace_block_size_def
proof (rule safe_andthen [where R = "\<lambda>c. \<forall>bs. c = Some bs \<longrightarrow> (\<exists>k<64. unat bs = 2 ^ k)"])
  show "safe_driver dr0 {0} (gets (\<lambda>(dr, w). block_sizes dr nsid))
      (\<lambda>c. \<forall>bs. c = Some bs \<longrightarrow> (\<exists>k<64. unat bs = 2 ^ k))"
    by (rule safe_pure(3)) (auto simp: driver_at_def driver_ok_def)
qed (auto intro!: safe_case_option intro: identify_block_size_safe safe_pure)

section \<open>Bringing up\<close>

lemma check_queue_entry_sizes_safe:
  "safe_driver dr0 {0} (check_queue_entry_sizes D) (\<lambda>_. True)"
  unfolding check_queue_entry_sizes_def
  by (rule safe_andthen [OF identify_safe]) (intro safe_case_option safe_Let safe_if safe_pure TrueI)

lemma create_io_queues_safe: "safe_driver dr0 {0} (create_io_queues D) (\<lambda>_. True)"
  unfolding create_io_queues_def admin_channel.then_checked
  unfolding admin_channel.checked_def [symmetric]
  by (intro safe_andthen [where R = "\<lambda>_. True"] admin_channel.checked_safe safe_pure TrueI)

section \<open>Transfers\<close>

lemma write_prp_list_safe:
  assumes "dma_length (drv_dma dr) = HUGE_PAGE_SIZE" and "index + n \<le> 512"
    and P: "\<And>off bs. 0x4000 \<le> off \<Longrightarrow> off + length bs \<le> 0x5000 \<Longrightarrow> P (DmaStore off bs)"
  shows "safe log (\<lambda>_. True) P (write_prp_list D dr index n) (\<lambda>_. True)"
  using assms(2)
proof (induction n arbitrary: index)
  case 0
  then show ?case by (simp add: safe_pure)
next
  case (Suc n)
  let ?off = "PRP_LIST_OFFSET + of_nat index * 8"
  have "unat (of_nat (0x4000 + index * 8) :: usize) = 0x4000 + index * 8"
    using Suc.prems by (intro unat_of_nat_small) simp
  moreover have "?off = of_nat (0x4000 + index * 8)" by (simp add: PRP_LIST_OFFSET_def)
  ultimately have off: "unat ?off = 0x4000 + index * 8" by simp
  have "access_ok u64_repr (drv_dma dr) ?off"
    using Suc.prems assms(1) by (simp add: access_ok_def off HUGE_PAGE_SIZE_def)
  moreover have "P (DmaStore (unat ?off) (encode u64_repr v))" for v
    using Suc.prems by (intro P) (simp_all add: off)
  ultimately show ?case
    using Suc.IH [of "Suc index"] Suc.prems
    by (simp, intro safe_andthen [OF u64_access.safe_wr]) simp_all
qed

lemma pages_of:
  assumes "unat len \<le> 0x1FB000"
  shows "unat (div_ceil len PAGE_SIZE) = (unat len + 4095) div 4096" "unat (div_ceil len PAGE_SIZE) \<le> 507"
proof -
  show "unat (div_ceil len PAGE_SIZE) = (unat len + 4095) div 4096"
    by (subst unat_div_ceil) (simp_all add: PAGE_SIZE_def)
  then show "unat (div_ceil len PAGE_SIZE) \<le> 507" using assms by simp
qed

lemma data_pointers_safe:
  assumes "dma_length (drv_dma dr) = HUGE_PAGE_SIZE" and "unat len \<le> 0x1FB000"
    and "\<And>off bs. 0x4000 \<le> off \<Longrightarrow> off + length bs \<le> 0x5000 \<Longrightarrow> P (DmaStore off bs)"
  shows "safe log (\<lambda>_. True) P (data_pointers D dr len) (\<lambda>_. True)"
proof -
  let ?n = "div_ceil len PAGE_SIZE"
  have "unat (?n - 1) \<le> 507" if "?n \<noteq> 0"
    using pages_of(2) [OF assms(2)] that by (simp add: unat_minus_one)
  then have "?n \<noteq> 0 \<Longrightarrow> safe log (\<lambda>_. True) P
      (write_prp_list D dr 0 (unat (?n - 1))) (\<lambda>_. True)"
    by (intro write_prp_list_safe [OF assms(1)] assms(3)) simp_all
  then show ?thesis
    unfolding data_pointers_def Let_def
    by (auto intro!: safe_if safe_pure safe_andthen [where R = "\<lambda>_. True"])
qed

lemma data_pointers_footprint:
  assumes "dma_length (drv_dma dr) = HUGE_PAGE_SIZE" and "unat len \<le> 0x1FB000"
  shows "safe log (\<lambda>_. True) (footprint stride qs) (data_pointers D dr len) (\<lambda>_. True)"
  using assms by (rule data_pointers_safe) (simp add: footprint_def)

lemma not_above_max: "\<not> MAX_TRANSFER_BYTES < len \<Longrightarrow> unat len \<le> 0x1FB000"
  by (simp add: word_less_nat_alt unat_MAX_TRANSFER_BYTES)

lemma safe_mono: "safe_driver dr0 qs p Q \<Longrightarrow> qs \<subseteq> qs' \<Longrightarrow> safe_driver dr0 qs' p Q"
  by (erule safe_weaken) (blast intro: footprint_mono)+

text \<open>
  The parts of a transfer after the size checks: the data pointers, the command, and the copy
  of the data. Only the I/O queue is used.
\<close>

definition transfer_read ::
  "'d device \<Rightarrow> driver \<Rightarrow> u32 \<Rightarrow> u64 \<Rightarrow> u16 \<Rightarrow> usize \<Rightarrow> ('d machine, u8 list) prog" where
  "transfer_read D dr nsid slba block_count len =
     andthen (on_snd (data_pointers D dr len)) (\<lambda>(prp1, prp2).
     andthen (io_submit D (nvme_read nsid slba (block_count - 1) prp1 prp2)) (\<lambda>completion.
     andthen (of_outcome (check completion ''Read'')) (\<lambda>_.
     on_snd (read_bytes D (drv_dma dr) DATA_OFFSET len))))"

definition transfer_write ::
  "'d device \<Rightarrow> driver \<Rightarrow> u32 \<Rightarrow> u64 \<Rightarrow> u8 list \<Rightarrow> usize \<Rightarrow> usize \<Rightarrow> ('d machine, unit) prog" where
  "transfer_write D dr nsid slba data len block_count =
     andthen (on_snd (write_bytes D (drv_dma dr) DATA_OFFSET data)) (\<lambda>_.
     andthen (on_snd (data_pointers D dr len)) (\<lambda>(prp1, prp2).
     andthen (io_submit D (nvme_write nsid slba (ucast block_count - 1) prp1 prp2)) (\<lambda>completion.
     of_outcome (check completion ''Write''))))"

lemma transfer_read_safe:
  assumes "driver_at dr0 dr" and "unat len \<le> 0x1FB000"
  shows "safe_driver dr0 {1} (transfer_read D dr nsid slba n len) (\<lambda>bs. length bs = unat len)"
proof -
  have dma: "dma_length (drv_dma dr) = HUGE_PAGE_SIZE"
    using driver_atD(2,6) [OF assms(1)] by simp
  have rd: "safe_driver dr0 {1} (on_snd (read_bytes D (drv_dma dr) DATA_OFFSET len))
      (\<lambda>bs. length bs = unat len)"
    by (intro safe_on_snd safe_read_bytes data_area [OF assms])
  show ?thesis
    unfolding transfer_read_def io_channel.then_checked
    by (rule safe_andthen [OF safe_on_snd [OF data_pointers_footprint [OF dma assms(2)]]])
      (intro safe_case_prod safe_andthen [OF io_channel.checked_safe rd])
qed

lemma transfer_write_safe:
  assumes "driver_at dr0 dr" and "length data \<le> 0x1FB000" and "unat len \<le> 0x1FB000"
  shows "safe_driver dr0 {1} (transfer_write D dr nsid slba data len n) (\<lambda>_. True)"
proof -
  have dma: "dma_length (drv_dma dr) = HUGE_PAGE_SIZE"
    using driver_atD(2,6) [OF assms(1)] by simp
  have wr: "safe_driver dr0 {1} (on_snd (write_bytes D (drv_dma dr) DATA_OFFSET data)) (\<lambda>_. True)"
    using assms(2) by (intro safe_on_snd safe_write_bytes data_area [OF assms(1,2)])
      (simp add: footprint_def DATA_OFFSET_def)
  show ?thesis
    unfolding transfer_write_def io_channel.checked_def [symmetric]
    by (rule safe_andthen [OF wr], rule safe_andthen [OF safe_on_snd [OF data_pointers_footprint [OF dma assms(3)]]])
      (intro safe_case_prod io_channel.checked_safe)
qed

lemma driver_read_safe: "safe_driver dr0 {0, 1} (driver_read D slba n) (\<lambda>_. True)"
  unfolding driver_read_def transfer_read_def [symmetric]
proof (rule safe_andthen [where R = "\<lambda>_. True"], rule safe_pure(3), rule TrueI, rule safe_if, rule safe_pure(2),
    rule safe_andthen [OF safe_mono [OF namespace_block_size_safe]], simp, rule safe_Let, rule safe_if,
    rule safe_pure(2), rule safe_andthen [where R = "driver_at dr0"], rule safe_pure(3))
  fix nsid bs and len :: usize and dr
  assume "\<not> MAX_TRANSFER_BYTES < len" and "driver_at dr0 dr"
  then show "safe_driver dr0 {0, 1} (transfer_read D dr nsid slba n len) (\<lambda>_. True)"
    by (intro safe_mono [OF safe_weaken [OF transfer_read_safe]] not_above_max) auto
qed simp_all

lemma driver_write_safe:
  assumes "length data < 2 ^ 64"
  shows "safe_driver dr0 {0, 1} (driver_write D slba data) (\<lambda>_. True)"
  unfolding driver_write_def transfer_write_def [symmetric]
proof (rule safe_andthen [where R = "\<lambda>_. True"], rule safe_pure(3), rule TrueI,
    rule safe_andthen [OF safe_mono [OF namespace_block_size_safe]], simp, rule safe_Let, rule safe_if,
    rule safe_pure(2), rule safe_if)
  fix bs :: usize
  assume "\<exists>k<64. unat bs = 2 ^ k" and "bs = 0"
  then show "safe_driver dr0 {0, 1} (crash DivideByZero :: ('a machine, unit) prog) (\<lambda>_. True)" by auto
next
  fix nsid bs and len :: usize
  assume len: "len = of_nat (length data)"
  show "safe_driver dr0 {0, 1} (if len mod bs \<noteq> 0 then fail WriteLengthNotMultiple
      else if MAX_TRANSFER_BYTES < len then fail WriteLargerThanBuffer
      else let block_count = len div bs in
        andthen (gets fst) (\<lambda>dr. transfer_write D dr nsid slba data len block_count)) (\<lambda>_. True)"
  proof (intro safe_if safe_pure(2) safe_Let)
    fix n assume "\<not> MAX_TRANSFER_BYTES < len"
    then have le: "unat len \<le> 0x1FB000" by (rule not_above_max)
    moreover have "unat (of_nat (length data) :: usize) = length data"
      using assms by (intro unat_of_nat_small) simp
    ultimately have "length data \<le> 0x1FB000" by (simp add: len)
    then show "safe_driver dr0 {0, 1} (andthen (gets fst) (\<lambda>dr. transfer_write D dr nsid slba data len n)) (\<lambda>_. True)"
      by (intro safe_andthen [where R = "driver_at dr0", OF safe_pure(3)]
          safe_mono [OF transfer_write_safe] le) auto
  qed
qed

section \<open>Guarantees for every controller\<close>

lemma driver_at_self: "driver_ok dr \<Longrightarrow> driver_at dr dr"
  by (simp add: driver_at_def same_hardware_def)

lemma run_read_cached:
  assumes "block_sizes dr (drv_nsid dr) = Some bs"
  shows "driver_read D slba n (dr, w) =
    (if n = 0 then (Err ReadOfZeroBlocks, (dr, w))
     else if MAX_TRANSFER_BYTES < bs * ucast n then (Err ReadLargerThanBuffer, (dr, w))
     else transfer_read D dr (drv_nsid dr) slba n (bs * ucast n) (dr, w))"
  using assms by (simp add: driver_read_def namespace_block_size_def transfer_read_def run_simps Let_def)

lemma run_write_cached:
  assumes "block_sizes dr (drv_nsid dr) = Some bs" and "bs \<noteq> 0"
  shows "driver_write D slba data (dr, w) =
    (let len = of_nat (length data) in
     if data = [] \<or> len mod bs \<noteq> 0 then (Err WriteLengthNotMultiple, (dr, w))
     else if MAX_TRANSFER_BYTES < len then (Err WriteLargerThanBuffer, (dr, w))
     else transfer_write D dr (drv_nsid dr) slba data len (len div bs) (dr, w))"
  using assms by (simp add: driver_write_def namespace_block_size_def transfer_write_def run_simps Let_def)

lemma run_on_fst_pair: "on_fst p s = (fst (p (fst s)), (snd (p (fst s)), snd s))"
  by (cases s) (simp add: run_simps)

lemma cached_pow:
  assumes "driver_ok dr" and "block_sizes dr n = Some bs"
  obtains k where "k < 64" and "unat bs = 2 ^ k"
  using assms unfolding driver_ok_def by blast

lemma read_from_prefix_namespace: "read_from_prefix identify_namespace data =
    (if 4096 \<le> length data then Some (take 4096 data) else None)"
  by (simp only: read_from_prefix_def identify_sizes)

text \<open>No panic, the invariant kept, the hardware the same.\<close>

definition well_behaved :: "driver \<Rightarrow> 'd world \<Rightarrow> ('d machine, 'a) prog \<Rightarrow> bool" where
  "well_behaved dr w p \<longleftrightarrow> (case p (dr, w) of (r, (dr', w')) \<Rightarrow>
     (\<forall>q. r \<noteq> Panic q) \<and> driver_ok dr' \<and> same_hardware dr dr')"

lemma safe_well_behaved: "safe_driver dr qs p Q \<Longrightarrow> driver_ok dr \<Longrightarrow> well_behaved dr w p"
  using safeD(1,3) [where p = p and s = "(dr, w)" and I = "\<lambda>s. driver_at dr (fst s)"]
  by (fastforce simp: well_behaved_def driver_at_def same_hardware_def split: prod.split)

text \<open>
  C6: For every controller, whatever it answers and whatever it does to the shared memory, no
  operation of the driver panics (no bounds or alignment check fails, no division by zero), and
  each leaves a driver that is as well-formed as before, on the same hardware: Identify, reading
  the block size, checking the entry sizes, creating the queues, Read and Write of any arguments.
\<close>

theorem driver_operations_never_panic:
  assumes "driver_ok dr" and "length data < 2 ^ 64"
  shows "well_behaved dr w (driver_read D slba n) \<and> well_behaved dr w (driver_write D slba data) \<and>
    well_behaved dr w (namespace_block_size D nsid) \<and>
    well_behaved dr w (driver_identify_controller D) \<and>
    well_behaved dr w (check_queue_entry_sizes D) \<and> well_behaved dr w (create_io_queues D)"
  using assms unfolding driver_identify_controller_def
  by (intro conjI safe_well_behaved [OF driver_read_safe] safe_well_behaved [OF driver_write_safe]
      safe_well_behaved [OF namespace_block_size_safe] safe_well_behaved [OF identify_safe]
      safe_well_behaved [OF check_queue_entry_sizes_safe] safe_well_behaved [OF create_io_queues_safe])

text \<open>
  C14: What a transfer can reach. Every store of a Read or a Write lies in the submission ring of
  the I/O queue or in the PRP and data pages at \<open>0x4000..0x200000\<close> of the region, and every
  register it writes is a doorbell of the I/O queue, given a ring position below 64; for a first
  transfer, before the block size is known, the same of the admin queue. So a transfer never
  overwrites a completion ring or another queue's entries, and never touches CC, AQA, ASQ or ACQ.
\<close>

theorem transfer_footprint:
  assumes "driver_ok dr" and "length data < 2 ^ 64"
    and "queues = (if block_sizes dr (drv_nsid dr) = None then {0, 1} else {1})"
  shows "(\<exists>es. log (snd (snd (driver_read D slba n (dr, w)))) = log w @ es \<and>
      list_all (footprint (doorbell_stride dr) queues) es) \<and>
    (\<exists>es. log (snd (snd (driver_write D slba data (dr, w)))) = log w @ es \<and>
      list_all (footprint (doorbell_stride dr) queues) es)"
proof (cases "block_sizes dr (drv_nsid dr)")
  case None
  then show ?thesis
    using safeD(2) [OF driver_read_safe, of dr "(dr, w)" D slba n]
      safeD(2) [OF driver_write_safe [OF assms(2)], of dr "(dr, w)" D slba]
      driver_at_self [OF assms(1)] assms(3) by simp
next
  case (Some bs)
  have at: "driver_at dr dr" using assms(1) by (rule driver_at_self)
  obtain k where "unat bs = 2 ^ k" using cached_pow [OF assms(1) Some] .
  then have bs: "bs \<noteq> 0" by auto
  let ?len = "of_nat (length data) :: usize"
  have len: "unat ?len = length data" using assms(2) by (intro unat_of_nat_small) simp
  have "\<exists>es. log (snd (snd (driver_read D slba n (dr, w)))) = log w @ es \<and>
      list_all (footprint (doorbell_stride dr) {1}) es"
    using safeD(2) [OF transfer_read_safe [OF at not_above_max], of "bs * ucast n" "(dr, w)"] at
    by (auto simp: run_read_cached [OF Some])
  moreover have "\<exists>es. log (snd (snd (driver_write D slba data (dr, w)))) = log w @ es \<and>
      list_all (footprint (doorbell_stride dr) {1}) es"
    using safeD(2) [OF transfer_write_safe [OF at _ not_above_max], of data ?len "(dr, w)"] at
      not_above_max [of ?len] len
    by (auto simp: run_write_cached [OF Some bs] Let_def)
  ultimately show ?thesis using Some assms(3) by simp
qed

text \<open>
  The block size is asked for once per namespace. A known size is returned without any
  access to the machine; a successful query is remembered, so every later one is such a hit;
  and what is remembered is the power of two named by the in-use LBA format of the data the
  controller returned, whatever those 4096 bytes are (an exponent of 64 or more is taken
  modulo 64, as the shift of a release build does).
\<close>

lemma block_size_cached:
  "(block_sizes dr nsid = Some bs \<longrightarrow> namespace_block_size D nsid (dr, w) = (Ok bs, (dr, w))) \<and>
   (\<forall>bs' dr' w'. namespace_block_size D nsid (dr, w) = (Ok bs', (dr', w')) \<longrightarrow>
      block_sizes dr' nsid = Some bs' \<and>
      (block_sizes dr nsid = None \<longrightarrow>
        (\<exists>data. fst (identify D IdNamespace nsid (dr, w)) = Ok data \<and>
          unat bs' = 2 ^ (unat (lba_format_lbads (take 4096 data)
            (unat (field_le identify_namespace ''flbas'' (take 4096 data) AND 0xF :: u8))) mod 64))))"
  by (auto simp: namespace_block_size_def identify_block_size_def run_simps run_on_fst_pair Let_def
      read_from_prefix_namespace
      block_size_of_pow split: option.splits outcome.splits if_splits prod.splits)

end
