(* ===== verification/Driver_Transfers.thy ===== *)
theory Driver_Transfers
  imports Driver_Safety
begin

text \<open>
  What a transfer tells the controller: the physical region pages it describes are the pages of
  the data area, and the command it announces names the requested blocks.
\<close>

unbundle bit_operations_syntax

section \<open>Physical region pages\<close>

text \<open>
  How the controller reads the two PRP fields of a command for a transfer of \<open>n\<close> pages (NVM
  Express base specification): PRP1 is the first page; PRP2 is the second when there are two,
  and otherwise the address of a list of the remaining ones. The list lies in the region.
\<close>

definition walk_prps :: "dma_region \<Rightarrow> mem \<Rightarrow> nat \<Rightarrow> u64 \<Rightarrow> u64 \<Rightarrow> u64 list" where
  "walk_prps region m n prp1 prp2 =
     (if n = 0 then [] else if n = 1 then [prp1] else if n = 2 then [prp1, prp2]
      else prp1 # map (\<lambda>i. of_le (load m (unat (prp2 - physical_address region) + 8 * i) 8)) [0..<n - 1])"

text \<open>The controller does not write the bytes from \<open>lo\<close> up to \<open>hi\<close>.\<close>

definition leaves :: "'d device \<Rightarrow> nat \<Rightarrow> nat \<Rightarrow> bool" where
  "leaves D lo hi \<longleftrightarrow> (\<forall>d m i. lo \<le> i \<and> i < hi \<longrightarrow> snd (dev_step D d m) i = m i)"

text \<open>
  The same while an invariant \<open>J\<close> of the controller and the memory holds, which its own steps
  and the driver's stores into the range keep.
\<close>

definition undisturbed :: "'d device \<Rightarrow> ('d \<Rightarrow> mem \<Rightarrow> bool) \<Rightarrow> nat \<Rightarrow> nat \<Rightarrow> bool" where
  "undisturbed D J lo hi \<longleftrightarrow> (\<forall>d m. J d m \<longrightarrow>
     J (fst (dev_step D d m)) (snd (dev_step D d m)) \<and>
     (\<forall>i. lo \<le> i \<and> i < hi \<longrightarrow> snd (dev_step D d m) i = m i) \<and>
     (\<forall>off bs. lo \<le> off \<and> off + length bs \<le> hi \<longrightarrow> J d (store m off bs)))"

lemma leaves_undisturbed: "leaves D lo hi \<Longrightarrow> undisturbed D (\<lambda>_ _. True) lo hi"
  by (simp add: leaves_def undisturbed_def)

lemma undisturbedD:
  assumes "undisturbed D J lo hi" and "J (dev w) (dma w)"
  shows "J (dev (step_device D w)) (dma (step_device D w))"
    and "lo \<le> i \<Longrightarrow> i < hi \<Longrightarrow> dma (step_device D w) i = dma w i"
    and "lo \<le> off \<Longrightarrow> off + length bs \<le> hi \<Longrightarrow>
      J (dev (step_device D w)) (store (dma (step_device D w)) off bs)"
proof -
  have J: "J (dev (step_device D w)) (dma (step_device D w))"
    and same: "\<And>i. lo \<le> i \<Longrightarrow> i < hi \<Longrightarrow> dma (step_device D w) i = dma w i"
    using assms by (simp_all add: undisturbed_def step_device_def case_prod_unfold Let_def)
  show "J (dev (step_device D w)) (dma (step_device D w))" by (rule J)
  show "lo \<le> i \<Longrightarrow> i < hi \<Longrightarrow> dma (step_device D w) i = dma w i" by (rule same)
  show "lo \<le> off \<Longrightarrow> off + length bs \<le> hi \<Longrightarrow>
      J (dev (step_device D w)) (store (dma (step_device D w)) off bs)"
    using assms(1) J by (simp add: undisturbed_def)
qed

lemma prp_slot: "index < 512 \<Longrightarrow> unat (PRP_LIST_OFFSET + of_nat index * 8) = 0x4000 + 8 * index"
proof -
  assume "index < 512"
  then have "unat (of_nat (0x4000 + 8 * index) :: usize) = 0x4000 + 8 * index"
    by (intro unat_of_nat_small) simp
  moreover have "PRP_LIST_OFFSET + of_nat index * 8 = of_nat (0x4000 + 8 * index)"
    by (simp add: PRP_LIST_OFFSET_def)
  ultimately show ?thesis by (simp only:)
qed

lemma write_prp_list_Suc:
  assumes "dma_length (drv_dma dr) = HUGE_PAGE_SIZE" and "index < 512"
  shows "write_prp_list D dr index (Suc n) w = write_prp_list D dr (Suc index) n
    ((step_device D w)\<lparr>dma := store (dma (step_device D w)) (0x4000 + 8 * index)
        (le_bytes 8 (data_page_physical_address dr (of_nat (Suc index)))),
       log := log w @ [DmaStore (0x4000 + 8 * index)
        (le_bytes 8 (data_page_physical_address dr (of_nat (Suc index))))]\<rparr>)"
proof -
  have off: "unat (PRP_LIST_OFFSET + of_nat index * 8) = 0x4000 + 8 * index"
    using assms(2) by (rule prp_slot)
  have "access_ok u64_repr (drv_dma dr) (PRP_LIST_OFFSET + of_nat index * 8)"
    using assms by (simp add: access_ok_def off HUGE_PAGE_SIZE_def)
  then show ?thesis by (simp add: run_simps u64_access.wr_allowed off add.commute)
qed

lemma write_prp_list_memory:
  assumes "dma_length (drv_dma dr) = HUGE_PAGE_SIZE" and quiet: "undisturbed D J 0x4000 0x5000"
    and "J (dev w) (dma w)" and "index + n \<le> 512"
  shows "fst (write_prp_list D dr index n w) = Ok () \<and>
    J (dev (snd (write_prp_list D dr index n w))) (dma (snd (write_prp_list D dr index n w))) \<and>
    (\<forall>k. 0x4000 \<le> k \<and> k < 0x4000 + 8 * index \<longrightarrow> dma (snd (write_prp_list D dr index n w)) k = dma w k) \<and>
    (\<forall>j. index \<le> j \<and> j < index + n \<longrightarrow> load (dma (snd (write_prp_list D dr index n w))) (0x4000 + 8 * j) 8 =
       le_bytes 8 (data_page_physical_address dr (of_nat (Suc j))))"
  using assms(3,4)
proof (induction n arbitrary: index w)
  case 0
  then show ?case by (auto simp: run_simps)
next
  case (Suc n)
  let ?bs = "le_bytes 8 (data_page_physical_address dr (of_nat (Suc index)))"
  let ?w = "(step_device D w)\<lparr>dma := store (dma (step_device D w)) (0x4000 + 8 * index) ?bs,
       log := log w @ [DmaStore (0x4000 + 8 * index) ?bs]\<rparr>"
  let ?w' = "write_prp_list D dr (Suc index) n ?w"
  note step = undisturbedD [OF quiet Suc.prems(1)]
  have run: "write_prp_list D dr index (Suc n) w = ?w'"
    using Suc.prems by (intro write_prp_list_Suc assms(1)) simp
  have "J (dev ?w) (dma ?w)" using step(3) [of "0x4000 + 8 * index" ?bs] Suc.prems by simp
  then have IH: "fst ?w' = Ok ()" "J (dev (snd ?w')) (dma (snd ?w'))"
    "\<And>k. 0x4000 \<le> k \<Longrightarrow> k < 0x4000 + 8 * Suc index \<Longrightarrow> dma (snd ?w') k = dma ?w k"
    "\<And>j. Suc index \<le> j \<Longrightarrow> j < Suc index + n \<Longrightarrow> load (dma (snd ?w')) (0x4000 + 8 * j) 8 =
       le_bytes 8 (data_page_physical_address dr (of_nat (Suc j)))"
    using Suc.IH [of ?w "Suc index"] Suc.prems(2) by simp_all
  have "load (dma (snd ?w')) (0x4000 + 8 * index) 8 = load (dma ?w) (0x4000 + 8 * index) 8"
    by (rule load_cong) (use IH(3) in simp)
  also have "\<dots> = ?bs" using load_store_same [of _ _ ?bs] by simp
  finally have here: "load (dma (snd ?w')) (0x4000 + 8 * index) 8 = ?bs" .
  have "dma (snd ?w') k = dma w k" if "0x4000 \<le> k" "k < 0x4000 + 8 * index" for k
    using IH(3) [of k] that Suc.prems(2) step(2) [of k] by (simp add: store_def)
  moreover have "load (dma (snd ?w')) (0x4000 + 8 * j) 8 =
      le_bytes 8 (data_page_physical_address dr (of_nat (Suc j)))" if "index \<le> j" "j < index + Suc n" for j
  proof (cases "j = index")
    case True
    then show ?thesis using here by simp
  next
    case False
    with that show ?thesis by (intro IH(4)) simp_all
  qed
  ultimately show ?case unfolding run using IH(1,2) by blast
qed

lemma data_page_address: "data_page_physical_address dr (of_nat i) =
    physical_address (drv_dma dr) + of_nat (0x5000 + 4096 * i)"
  by (simp add: data_page_physical_address_def physical_address_at_def DATA_OFFSET_def PAGE_SIZE_def)

lemma page_count:
  assumes "unat len \<le> 0x1FB000"
  shows "div_ceil len PAGE_SIZE = 0 \<longleftrightarrow> (unat len + 4095) div 4096 = 0"
    and "div_ceil len PAGE_SIZE = 1 \<longleftrightarrow> (unat len + 4095) div 4096 = 1"
    and "div_ceil len PAGE_SIZE = 2 \<longleftrightarrow> (unat len + 4095) div 4096 = 2"
proof -
  have eq: "div_ceil len PAGE_SIZE = of_nat m \<longleftrightarrow> (unat len + 4095) div 4096 = m" if "m \<le> 507" for m
  proof -
    have "unat (of_nat m :: usize) = m" using that by (intro unat_of_nat_small) simp
    then show ?thesis by (metis pages_of(1) [OF assms] word_unat_eq_iff)
  qed
  show "div_ceil len PAGE_SIZE = 0 \<longleftrightarrow> (unat len + 4095) div 4096 = 0"
    and "div_ceil len PAGE_SIZE = 1 \<longleftrightarrow> (unat len + 4095) div 4096 = 1"
    and "div_ceil len PAGE_SIZE = 2 \<longleftrightarrow> (unat len + 4095) div 4096 = 2"
    using eq [of 0] eq [of 1] eq [of 2] by simp_all
qed

lemma data_pointers_memory:
  assumes dma: "dma_length (drv_dma dr) = HUGE_PAGE_SIZE" and quiet: "undisturbed D J 0x4000 0x5000"
    and J: "J (dev w) (dma w)" and pos_len: "0 < unat len" and le_len: "unat len \<le> 0x1FB000"
  shows "\<exists>prp1 prp2 w'. data_pointers D dr len w = (Ok (prp1, prp2), w') \<and> J (dev w') (dma w') \<and>
    walk_prps (drv_dma dr) (dma w') ((unat len + 4095) div 4096) prp1 prp2 =
      map (\<lambda>i. physical_address (drv_dma dr) + of_nat (0x5000 + 4096 * i)) [0..<(unat len + 4095) div 4096]"
proof -
  let ?n = "(unat len + 4095) div 4096"
  let ?page = "\<lambda>i. physical_address (drv_dma dr) + of_nat (0x5000 + 4096 * i) :: u64"
  have n: "unat (div_ceil len PAGE_SIZE) = ?n" and le: "?n \<le> 507" using pages_of [OF le_len] by simp_all
  have pos: "0 < ?n" using pos_len by simp
  note pc = page_count [OF le_len]
  have upt: "[0..<?n] = 0 # map Suc [0..<?n - 1]"
    using pos by (metis map_Suc_upt Suc_diff_1 upt_conv_Cons)
  have p0: "data_page_physical_address dr 0 = ?page 0" using data_page_address [of dr 0] by simp
  have p1: "data_page_physical_address dr 1 = ?page 1" using data_page_address [of dr 1] by simp
  consider "?n = 1" | "?n = 2" | "3 \<le> ?n" using pos by linarith
  then show ?thesis
  proof cases
    case 1
    then have "div_ceil len PAGE_SIZE = 1" by (simp only: pc)
    then have "data_pointers D dr len w = (Ok (?page 0, 0), w)"
      by (simp add: data_pointers_def run_simps p0)
    then show ?thesis using 1 J by (simp add: walk_prps_def)
  next
    case 2
    then have "div_ceil len PAGE_SIZE = 2" by (simp only: pc)
    then have "data_pointers D dr len w = (Ok (?page 0, ?page 1), w)"
      by (simp add: data_pointers_def run_simps p0 p1)
    then show ?thesis using 2 J by (simp add: walk_prps_def upt_rec)
  next
    case 3
    let ?w = "write_prp_list D dr 0 (?n - 1) w"
    have "div_ceil len PAGE_SIZE \<noteq> 0" "div_ceil len PAGE_SIZE \<noteq> 1" "div_ceil len PAGE_SIZE \<noteq> 2"
      using 3 unfolding pc by simp_all
    moreover from this have "unat (div_ceil len PAGE_SIZE - 1) = ?n - 1" by (simp add: unat_minus_one n)
    moreover have W: "fst ?w = Ok ()" "J (dev (snd ?w)) (dma (snd ?w))" "\<And>j. j < ?n - 1 \<Longrightarrow>
        load (dma (snd ?w)) (0x4000 + 8 * j) 8 = le_bytes 8 (?page (Suc j))"
      using write_prp_list_memory [OF dma quiet J, of 0 "?n - 1"] le
      by (simp_all only: data_page_address) simp_all
    ultimately have run: "data_pointers D dr len w = (Ok (?page 0, prp_list_physical_address dr), snd ?w)"
      by (simp only: data_pointers_def Let_def if_False simp_thms run_andthen p0 outcome.case run_ret)
    have "unat (prp_list_physical_address dr - physical_address (drv_dma dr)) = 0x4000"
      by (simp add: prp_list_physical_address_def physical_address_at_def PRP_LIST_OFFSET_def)
    then have "walk_prps (drv_dma dr) (dma (snd ?w)) ?n (?page 0) (prp_list_physical_address dr) =
        ?page 0 # map (\<lambda>j. of_le (le_bytes 8 (?page (Suc j)))) [0..<?n - 1]"
      using 3 W(3) by (simp add: walk_prps_def)
    also have "\<dots> = map ?page [0..<?n]" unfolding upt by (simp add: of_le_le_bytes)
    finally show ?thesis using run W(2) by blast
  qed
qed

text \<open>
  C9: The two PRP fields computed for a transfer of any allowed length, read the way the
  specification tells the controller to read them, are the physical addresses of exactly the
  pages of the data area that the length covers, in order: one page, two pages, or a list
  written to the PRP page, which holds it (507 pages at most, in a page of 512 entries). This
  holds for every controller that leaves the PRP page alone; the list is complete before the
  command is announced.
\<close>

theorem data_pointers_describe_the_buffer:
  assumes "dma_length (drv_dma dr) = HUGE_PAGE_SIZE" and "leaves D 0x4000 0x5000"
    and "0 < unat len" and "unat len \<le> 0x1FB000"
  shows "\<exists>prp1 prp2 w'. data_pointers D dr len w = (Ok (prp1, prp2), w') \<and>
    walk_prps (drv_dma dr) (dma w') ((unat len + 4095) div 4096) prp1 prp2 =
      map (\<lambda>i. physical_address (drv_dma dr) + of_nat (0x5000 + 4096 * i)) [0..<(unat len + 4095) div 4096]"
  using data_pointers_memory [OF assms(1) leaves_undisturbed [OF assms(2)] _ assms(3,4)] by simp

section \<open>What a transfer announces\<close>

text \<open>Stores into the PRP page, and what a submission leaves after its doorbell.\<close>

definition prp_store :: "event \<Rightarrow> bool" where
  "prp_store e = (case e of DmaStore off bs \<Rightarrow> 0x4000 \<le> off \<and> off + length bs \<le> 0x5000 | _ \<Rightarrow> False)"

definition winding_up :: "usize \<Rightarrow> event \<Rightarrow> bool" where
  "winding_up stride e = (case e of
     Pause \<Rightarrow> True | Fence \<Rightarrow> True | RegWrite32 reg v \<Rightarrow> reg = completion_doorbell 1 stride | _ \<Rightarrow> False)"

text \<open>The three events that announce an entry at the tail of the I/O submission ring.\<close>

definition announce :: "driver \<Rightarrow> submission_queue_entry \<Rightarrow> event list" where
  "announce dr e =
     [DmaStore (0x2000 + unat (submission_tail (io_queue dr)) * 64) (sqe_bytes e), Fence,
      RegWrite32 (submission_doorbell 1 (doorbell_stride dr))
        (of_nat ((unat (submission_tail (io_queue dr)) + 1) mod 64))]"

lemma io_submit_trace:
  assumes "driver_ok dr" and "io_submit D command (dr, w) = (r, (dr', w'))"
  shows "\<exists>rest. log w' = log w @ announce dr (command\<lparr>sqe_cid := next_cid (io_queue dr)\<rparr>) @ rest \<and>
    list_all (winding_up (doorbell_stride dr)) rest"
proof -
  obtain q where run: "submit_and_wait D (drv_bar dr) (drv_dma dr) (doorbell_stride dr) command
      (io_queue dr, w) = (r, (q, w'))"
    using assms(2) by (auto simp: io_submit_def split: prod.splits)
  have q: "queue_id (io_queue dr) = 1" "submission_offset (io_queue dr) = 0x2000"
    using assms(1) by (simp_all add: driver_ok_def queue_at_def)
  obtain k where "log w' = log w @ announce dr (command\<lparr>sqe_cid := next_cid (io_queue dr)\<rparr>) @ replicate k Pause @
      (if timed_out r then [] else [Fence, RegWrite32 (completion_doorbell 1 (doorbell_stride dr))
         (of_nat ((unat (completion_head (io_queue dr)) + 1) mod 64))])" (is "_ = _ @ _ @ ?rest")
    using submit_trace [OF driver_ok_queues(2) [OF assms(1)] run] by (auto simp: q announce_def)
  moreover have "list_all (winding_up (doorbell_stride dr)) ?rest"
    by (simp add: winding_up_def list_all_iff)
  ultimately show ?thesis by blast
qed

lemma run_write_bytes:
  assumes "driver_ok dr" and "length data \<le> 0x1FB000"
  shows "write_bytes D (drv_dma dr) DATA_OFFSET data w = (Ok (), (step_device D w)\<lparr>
    dma := store (dma (step_device D w)) 0x5000 data, log := log w @ [DmaStore 0x5000 data]\<rparr>)"
proof -
  have n: "unat (of_nat (length data) :: usize) = length data"
    using assms(2) by (intro unat_of_nat_small) simp
  have "check_bytes (drv_dma dr) DATA_OFFSET (of_nat (length data)) = Ok ()"
    using data_area [OF driver_at_self [OF assms(1)] assms(2)] by (simp only: check_bytes_Ok n)
  then show ?thesis by (simp add: write_bytes_def run_simps DATA_OFFSET_def)
qed

lemma write_prp_list_Ok:
  assumes "dma_length (drv_dma dr) = HUGE_PAGE_SIZE"
  shows "index + n \<le> 512 \<Longrightarrow> fst (write_prp_list D dr index n w) = Ok ()"
proof (induction n arbitrary: index w)
  case 0
  then show ?case by (simp add: run_simps)
next
  case (Suc n)
  from Suc.prems have "index < 512" by simp
  then show ?case using Suc by (simp only: write_prp_list_Suc [OF assms])
qed

definition pointers :: "driver \<Rightarrow> nat \<Rightarrow> u64 \<times> u64" where
  "pointers dr len = (let n = (len + 4095) div 4096 in
     (data_page_physical_address dr 0,
      if n \<le> 1 then 0 else if n = 2 then data_page_physical_address dr 1 else prp_list_physical_address dr))"

lemma run_data_pointers:
  assumes "driver_ok dr" and "unat len \<le> 0x1FB000"
  shows "fst (data_pointers D dr len w) = Ok (pointers dr (unat len)) \<and>
    (\<exists>es. log (snd (data_pointers D dr len w)) = log w @ es \<and> list_all prp_store es)"
proof
  have dma: "dma_length (drv_dma dr) = HUGE_PAGE_SIZE"
    using assms(1) by (simp add: driver_ok_def hardware_ok_def)
  let ?n = "(unat len + 4095) div 4096"
  note n = pages_of(1) [OF assms(2)] and le = pages_of(2) [OF assms(2), unfolded pages_of(1) [OF assms(2)]]
  note e = page_count [OF assms(2)]
  have minus: "?n \<noteq> 0 \<Longrightarrow> unat (div_ceil len PAGE_SIZE - 1) = ?n - 1"
    using e(1) by (subst unat_minus_one) (simp_all add: n)
  show "fst (data_pointers D dr len w) = Ok (pointers dr (unat len))"
    using write_prp_list_Ok [OF dma, of 0 "?n - 1" D w] le
    by (simp add: data_pointers_def pointers_def Let_def e run_simps minus)
  have "safe log (\<lambda>_. True) prp_store (data_pointers D dr len) (\<lambda>_. True)"
    by (rule data_pointers_safe [OF dma assms(2)]) (simp add: prp_store_def)
  then show "\<exists>es. log (snd (data_pointers D dr len w)) = log w @ es \<and> list_all prp_store es"
    using safeD(2) [where p = "data_pointers D dr len" and s = w and I = "\<lambda>_. True" and lg = log] by simp
qed

lemma io_submit_result:
  assumes "driver_ok dr" and "io_submit D command (dr, w) = (r, (dr', w'))"
  shows "(\<exists>c. r = Ok c \<and> cqe_cid c = next_cid (io_queue dr)) \<or>
    (\<exists>x. r = Err (CidMismatch x (next_cid (io_queue dr)))) \<or> r = Err PollTimedOut"
proof -
  obtain q where run: "submit_and_wait D (drv_bar dr) (drv_dma dr) (doorbell_stride dr) command
      (io_queue dr, w) = (r, (q, w'))"
    using assms(2) by (auto simp: io_submit_def split: prod.splits)
  show ?thesis
    by (rule submit_cases [OF driver_ok_queues(2) [OF assms(1)], of D command w])
      (use run in \<open>auto split: if_splits\<close>)
qed

text \<open>How a checked command ends: accepted, refused by its status, or one of the queue's errors.\<close>

definition command_result :: "string \<Rightarrow> u16 \<Rightarrow> unit outcome \<Rightarrow> bool" where
  "command_result what cid r \<longleftrightarrow>
     (\<exists>c. cqe_cid c = cid \<and> is_success c \<and> r = Ok ()) \<or>
     (\<exists>c. cqe_cid c = cid \<and> \<not> is_success c \<and>
        r = Err (CommandFailed what (status_code_type c) (status_code c))) \<or>
     (\<exists>x. r = Err (CidMismatch x cid)) \<or> r = Err PollTimedOut"

lemma checked_result:
  assumes "driver_ok dr" and "io_channel.checked D command what (dr, w) = (r, (dr', w'))"
  shows "command_result what (next_cid (io_queue dr)) r"
    and "\<exists>rest. log w' = log w @ announce dr (command\<lparr>sqe_cid := next_cid (io_queue dr)\<rparr>) @ rest \<and>
      list_all (winding_up (doorbell_stride dr)) rest"
proof -
  obtain r0 where run: "io_submit D command (dr, w) = (r0, (dr', w'))" and
    r: "r = (case r0 of Ok c \<Rightarrow> check c what | Err e \<Rightarrow> Err e | Panic p \<Rightarrow> Panic p)"
    using assms(2) by (cases "io_submit D command (dr, w)")
      (auto simp: io_channel.checked_def run_simps split: outcome.splits)
  show "command_result what (next_cid (io_queue dr)) r"
    using io_submit_result [OF assms(1) run] by (cases r0) (auto simp: r command_result_def check_def split: if_splits)
  show "\<exists>rest. log w' = log w @ announce dr (command\<lparr>sqe_cid := next_cid (io_queue dr)\<rparr>) @ rest \<and>
      list_all (winding_up (doorbell_stride dr)) rest"
    by (rule io_submit_trace [OF assms(1) run])
qed

lemma block_count_u16:
  assumes "0 < b" and "b < 2 ^ 16" and "unat n = b"
  shows "unat (ucast (n :: usize) - 1 :: u16) + 1 = b"
proof -
  have "unat (ucast n :: u16) = b" using assms by (simp add: unsigned_ucast_eq take_bit_nat_eq_self)
  moreover from this have "(ucast n :: u16) \<noteq> 0" using assms(1) by (metis less_irrefl unsigned_0)
  ultimately show ?thesis using assms(1) by (simp add: unat_minus_one)
qed

lemma command_blocks_write: "command_blocks (nvme_write nsid slba nlb p1 p2) = unat nlb + 1"
  "command_slba (nvme_write nsid slba nlb p1 p2) = slba"
  by (simp_all add: nvme_write_def command_blocks_def command_slba_def unat_nlb [simplified]
      split_rejoin_u64)

lemma command_blocks_read: "command_blocks (nvme_read nsid slba nlb p1 p2) = unat nlb + 1"
  "command_slba (nvme_read nsid slba nlb p1 p2) = slba"
  by (simp_all add: nvme_read_def command_blocks_def command_slba_def unat_nlb [simplified]
      split_rejoin_u64)

text \<open>Arguments that pass the checks of a transfer.\<close>

lemma run_write_good:
  assumes "block_sizes dr (drv_nsid dr) = Some bs" and "32 \<le> unat bs"
    and "data \<noteq> []" "length data mod unat bs = 0" "length data \<le> 0x1FB000"
  defines "len \<equiv> of_nat (length data) :: usize"
  shows "driver_write D slba data (dr, w) =
      transfer_write D dr (drv_nsid dr) slba data len (len div bs) (dr, w)"
    and "unat len = length data" "unat (ucast (len div bs) - 1 :: u16) + 1 = length data div unat bs"
proof -
  show len: "unat len = length data" unfolding len_def using assms(5) by (intro unat_of_nat_small) simp
  have "unat (len mod bs) = 0" by (simp only: unat_mod len assms(4))
  then have m: "len mod bs = 0" by (simp only: unsigned_eq_0_iff)
  have nz: "bs \<noteq> 0" using assms(2) by auto
  have le: "\<not> MAX_TRANSFER_BYTES < len"
    using assms(5) by (simp only: word_less_nat_alt unat_MAX_TRANSFER_BYTES len)
  show "driver_write D slba data (dr, w) =
      transfer_write D dr (drv_nsid dr) slba data len (len div bs) (dr, w)"
    using assms(3) m le by (simp only: run_write_cached [OF assms(1) nz] Let_def if_False simp_thms len_def)
  define b where "b = length data div unat bs"
  have b: "b * unat bs = length data" using assms(4) div_mult_mod_eq [of "length data" "unat bs"] by (simp add: b_def)
  then have "0 < b" using assms(3) by (cases b) auto
  have "b * 32 \<le> b * unat bs" using assms(2) by (rule mult_le_mono2)
  then have "b < 2 ^ 16" using b assms(5) by simp
  have "unat (len div bs) = b" by (simp only: unat_div len b_def)
  then show "unat (ucast (len div bs) - 1 :: u16) + 1 = length data div unat bs"
    using block_count_u16 [OF \<open>0 < b\<close> \<open>b < 2 ^ 16\<close>] by (simp add: b_def)
qed

lemma run_read_good:
  assumes "block_sizes dr (drv_nsid dr) = Some bs" and "0 < n" "unat bs * unat n \<le> 0x1FB000"
  shows "driver_read D slba n (dr, w) = transfer_read D dr (drv_nsid dr) slba n (bs * ucast n) (dr, w)"
    and "unat (bs * ucast n) = unat bs * unat n" "unat (n - 1) + 1 = unat n"
proof -
  have un: "unat (ucast n :: usize) = unat n" by (rule unat_ucast_up) simp
  show len: "unat (bs * ucast n) = unat bs * unat n" using assms(3) by (subst unat_mult_no_wrap) (simp_all add: un)
  have le: "\<not> MAX_TRANSFER_BYTES < bs * ucast n"
    using assms(3) by (simp only: word_less_nat_alt unat_MAX_TRANSFER_BYTES len)
  have nz: "n \<noteq> 0" using assms(2) by auto
  then show "unat (n - 1) + 1 = unat n"
    by (simp add: unat_minus_one word_less_nat_alt [symmetric] unat_gt_0)
  show "driver_read D slba n (dr, w) = transfer_read D dr (drv_nsid dr) slba n (bs * ucast n) (dr, w)"
    using nz le by (simp only: run_read_cached [OF assms(1)] if_False)
qed

lemma write_trace:
  assumes ok: "driver_ok dr" and bs: "block_sizes dr (drv_nsid dr) = Some bs" "32 \<le> unat bs"
    and data: "data \<noteq> []" "length data mod unat bs = 0" "length data \<le> 0x1FB000"
    and run: "driver_write D slba data (dr, w) = (r, (dr', w'))"
  shows "command_result ''Write'' (next_cid (io_queue dr)) r \<and>
    (\<exists>e prps rest. log w' = log w @ [DmaStore 0x5000 data] @ prps @ announce dr e @ rest \<and>
      list_all prp_store prps \<and> list_all (winding_up (doorbell_stride dr)) rest \<and>
      sqe_opc e = 1 \<and> sqe_cid e = next_cid (io_queue dr) \<and> sqe_nsid e = drv_nsid dr \<and>
      command_slba e = slba \<and> command_blocks e * unat bs = length data \<and>
      (sqe_prp1 e, sqe_prp2 e) = pointers dr (length data))"
proof -
  let ?len = "of_nat (length data) :: usize"
  note len = run_write_good(2) [OF bs data]
  have "unat (ucast (?len div bs) - 1 :: u16) + 1 = length data div unat bs"
    by (rule run_write_good(3) [OF bs data])
  moreover have "length data div unat bs * unat bs = length data"
    using data(2) div_mult_mod_eq [of "length data" "unat bs"] by simp
  ultimately have count: "(unat (ucast (?len div bs) - 1 :: u16) + 1) * unat bs = length data" by simp
  obtain p1 p2 where p: "pointers dr (length data) = (p1, p2)" by (cases "pointers dr (length data)")
  let ?c = "nvme_write (drv_nsid dr) slba (ucast (?len div bs) - 1) p1 p2"
  define w1 where "w1 = (step_device D w)\<lparr>dma := store (dma (step_device D w)) 0x5000 data,
    log := log w @ [DmaStore 0x5000 data]\<rparr>"
  have ptr: "fst (data_pointers D dr ?len w1) = Ok (p1, p2)"
    and "\<exists>es. log (snd (data_pointers D dr ?len w1)) = log w1 @ es \<and> list_all prp_store es"
    using run_data_pointers [OF ok, of ?len D w1] data(3) by (simp_all only: len p)
  then obtain prps where prps: "log (snd (data_pointers D dr ?len w1)) = log w @ [DmaStore 0x5000 data] @ prps"
      "list_all prp_store prps"
    by (auto simp: w1_def)
  have wr: "write_bytes D (drv_dma dr) DATA_OFFSET data w = (Ok (), w1)"
    unfolding w1_def by (rule run_write_bytes [OF ok data(3)])
  have "driver_write D slba data (dr, w) =
      transfer_write D dr (drv_nsid dr) slba data ?len (?len div bs) (dr, w)"
    by (rule run_write_good(1) [OF bs data])
  also have "\<dots> = io_channel.checked D ?c ''Write'' (dr, snd (data_pointers D dr ?len w1))"
    by (simp add: transfer_write_def io_channel.checked_def [symmetric] run_simps wr ptr)
  finally have chk: "io_channel.checked D ?c ''Write'' (dr, snd (data_pointers D dr ?len w1)) = (r, (dr', w'))"
    using run by simp
  obtain rest where rest: "log w' = (log w @ [DmaStore 0x5000 data] @ prps) @
      announce dr (?c\<lparr>sqe_cid := next_cid (io_queue dr)\<rparr>) @ rest"
      "list_all (winding_up (doorbell_stride dr)) rest"
    using checked_result(2) [OF ok chk] unfolding prps(1) by blast
  let ?e = "?c\<lparr>sqe_cid := next_cid (io_queue dr)\<rparr>"
  have "sqe_opc ?e = 1 \<and> sqe_cid ?e = next_cid (io_queue dr) \<and> sqe_nsid ?e = drv_nsid dr \<and>
      (sqe_prp1 ?e, sqe_prp2 ?e) = pointers dr (length data)"
    by (simp add: nvme_write_def io_opcode_u8_def p)
  moreover have "command_slba ?e = slba \<and> command_blocks ?e * unat bs = length data"
    using command_blocks_write [of "drv_nsid dr" slba "ucast (?len div bs) - 1" p1 p2] count
    by (simp add: command_slba_def command_blocks_def)
  ultimately show ?thesis
    using rest prps(2) checked_result(1) [OF ok chk]
    by (intro conjI exI [of _ ?e] exI [of _ prps] exI [of _ rest]) (simp_all only: append_assoc)
qed


lemma read_trace:
  assumes ok: "driver_ok dr" and bs: "block_sizes dr (drv_nsid dr) = Some bs"
    and n: "0 < n" "unat bs * unat n \<le> 0x1FB000"
    and run: "driver_read D slba n (dr, w) = (r, (dr', w'))"
  shows "(\<exists>e prps rest. log w' = log w @ prps @ announce dr e @ rest \<and>
      list_all prp_store prps \<and> list_all (winding_up (doorbell_stride dr)) rest \<and>
      sqe_opc e = 2 \<and> sqe_cid e = next_cid (io_queue dr) \<and> sqe_nsid e = drv_nsid dr \<and>
      command_slba e = slba \<and> command_blocks e = unat n \<and>
      (sqe_prp1 e, sqe_prp2 e) = pointers dr (unat bs * unat n)) \<and>
    (\<exists>c. command_result ''Read'' (next_cid (io_queue dr)) c \<and>
      (case c of Ok _ \<Rightarrow> r = Ok (load (dma w') 0x5000 (unat bs * unat n))
       | Err e \<Rightarrow> r = Err e | Panic q \<Rightarrow> False))"
proof -
  let ?len = "bs * ucast n :: usize"
  note len = run_read_good(2) [OF bs n] and count = run_read_good(3) [OF bs n]
  obtain p1 p2 where p: "pointers dr (unat bs * unat n) = (p1, p2)" by (cases "pointers dr (unat bs * unat n)")
  let ?c = "nvme_read (drv_nsid dr) slba (n - 1) p1 p2"
  let ?w2 = "snd (data_pointers D dr ?len w)"
  have ptr: "fst (data_pointers D dr ?len w) = Ok (p1, p2)"
    and "\<exists>es. log ?w2 = log w @ es \<and> list_all prp_store es"
    using run_data_pointers [OF ok, of ?len D w] n(2) by (simp_all only: len p)
  then obtain prps where prps: "log ?w2 = log w @ prps" "list_all prp_store prps" by blast
  have "driver_read D slba n (dr, w) = transfer_read D dr (drv_nsid dr) slba n ?len (dr, w)"
    by (rule run_read_good(1) [OF bs n])
  also have "\<dots> = andthen (io_channel.checked D ?c ''Read'')
      (\<lambda>_. on_snd (read_bytes D (drv_dma dr) DATA_OFFSET ?len)) (dr, ?w2)"
    by (simp add: transfer_read_def io_channel.then_checked run_simps ptr)
  finally have eq: "andthen (io_channel.checked D ?c ''Read'')
      (\<lambda>_. on_snd (read_bytes D (drv_dma dr) DATA_OFFSET ?len)) (dr, ?w2) = (r, (dr', w'))"
    using run by simp
  obtain c dr2 w3 where chk: "io_channel.checked D ?c ''Read'' (dr, ?w2) = (c, (dr2, w3))"
    by (metis prod.exhaust)
  have res: "command_result ''Read'' (next_cid (io_queue dr)) c" by (rule checked_result(1) [OF ok chk])
  have "check_bytes (drv_dma dr) DATA_OFFSET ?len = Ok ()"
    using data_area [OF driver_at_self [OF ok] n(2)] by (simp only: check_bytes_Ok len)
  then have rd: "read_bytes D (drv_dma dr) DATA_OFFSET ?len w3 =
      (Ok (load (dma (step_device D w3)) 0x5000 (unat bs * unat n)), step_device D w3)"
    by (simp add: read_bytes_def run_simps DATA_OFFSET_def len)
  have r: "log w' = log w3 \<and> (case c of Ok _ \<Rightarrow> r = Ok (load (dma w') 0x5000 (unat bs * unat n))
      | Err e \<Rightarrow> r = Err e | Panic q \<Rightarrow> False)"
    using eq res by (cases c) (auto simp: run_andthen chk run_on_snd rd command_result_def)
  obtain rest where rest: "log w3 = (log w @ prps) @
      announce dr (?c\<lparr>sqe_cid := next_cid (io_queue dr)\<rparr>) @ rest"
      "list_all (winding_up (doorbell_stride dr)) rest"
    using checked_result(2) [OF ok chk] unfolding prps(1) by blast
  let ?e = "?c\<lparr>sqe_cid := next_cid (io_queue dr)\<rparr>"
  have "sqe_opc ?e = 2 \<and> sqe_cid ?e = next_cid (io_queue dr) \<and> sqe_nsid ?e = drv_nsid dr \<and>
      (sqe_prp1 ?e, sqe_prp2 ?e) = pointers dr (unat bs * unat n)"
    by (simp add: nvme_read_def io_opcode_u8_def p)
  moreover have "command_slba ?e = slba \<and> command_blocks ?e = unat n"
    using command_blocks_read [of "drv_nsid dr" slba "n - 1" p1 p2] count
    by (simp add: command_slba_def command_blocks_def)
  ultimately have "\<exists>e prps rest. log w' = log w @ prps @ announce dr e @ rest \<and>
      list_all prp_store prps \<and> list_all (winding_up (doorbell_stride dr)) rest \<and>
      sqe_opc e = 2 \<and> sqe_cid e = next_cid (io_queue dr) \<and> sqe_nsid e = drv_nsid dr \<and>
      command_slba e = slba \<and> command_blocks e = unat n \<and>
      (sqe_prp1 e, sqe_prp2 e) = pointers dr (unat bs * unat n)"
    using rest prps(2) r
    by (intro exI [of _ ?e] exI [of _ prps] exI [of _ rest]) (simp only: append_assoc)
  then show ?thesis using res r by blast
qed


lemma bad_transfers:
  assumes "block_sizes dr (drv_nsid dr) = Some bs" and "bs \<noteq> 0" and "length data < 2 ^ 64"
  shows "driver_read D slba 0 (dr, w) = (Err ReadOfZeroBlocks, (dr, w)) \<and>
    (0 < n \<and> 0x1FB000 < unat bs * unat n \<and> unat bs * unat n < 2 ^ 64 \<longrightarrow>
      driver_read D slba n (dr, w) = (Err ReadLargerThanBuffer, (dr, w))) \<and>
    (data = [] \<or> length data mod unat bs \<noteq> 0 \<longrightarrow>
      driver_write D slba data (dr, w) = (Err WriteLengthNotMultiple, (dr, w))) \<and>
    (length data mod unat bs = 0 \<and> 0x1FB000 < length data \<longrightarrow>
      driver_write D slba data (dr, w) = (Err WriteLargerThanBuffer, (dr, w)))"
proof -
  let ?len = "of_nat (length data) :: usize"
  have len: "unat ?len = length data" using assms(3) by (intro unat_of_nat_small) simp
  have m: "?len mod bs = 0 \<longleftrightarrow> length data mod unat bs = 0"
  proof -
    have u: "unat (?len mod bs) = length data mod unat bs" by (simp only: unat_mod len)
    show ?thesis unfolding u [symmetric] by (simp only: unsigned_eq_0_iff)
  qed
  have big: "MAX_TRANSFER_BYTES < ?len \<longleftrightarrow> 0x1FB000 < length data"
    by (simp only: word_less_nat_alt unat_MAX_TRANSFER_BYTES len)
  have "driver_read D slba n (dr, w) = (Err ReadLargerThanBuffer, (dr, w))"
    if "0 < n" "0x1FB000 < unat bs * unat n" "unat bs * unat n < 2 ^ 64"
  proof -
    have "unat (ucast n :: usize) = unat n" by (rule unat_ucast_up) simp
    then have "unat (bs * ucast n) = unat bs * unat n" using that(3) by (subst unat_mult_no_wrap) simp_all
    then have "MAX_TRANSFER_BYTES < bs * ucast n"
      using that(2) by (simp only: word_less_nat_alt unat_MAX_TRANSFER_BYTES)
    then show ?thesis using that(1) by (auto simp: run_read_cached [OF assms(1)])
  qed
  then show ?thesis
    by (auto simp: run_read_cached [OF assms(1)] run_write_cached [OF assms(1,2)] Let_def m big)
qed

text \<open>
  C20: Arguments the driver refuses, it refuses before anything happens: a Read of zero blocks
  (before even the block size is asked for), a Read larger than the buffer, a Write of no data,
  of a length that is not a multiple of the block size, or larger than the buffer each return
  their error with the driver and the machine unchanged, nothing logged and no access made.
\<close>

theorem bad_transfers_have_no_effect:
  assumes "block_sizes dr (drv_nsid dr) = Some bs" and "bs \<noteq> 0" and "length data < 2 ^ 64"
  shows "driver_read D slba 0 (dr, w) = (Err ReadOfZeroBlocks, (dr, w)) \<and>
    (0 < n \<and> 0x1FB000 < unat bs * unat n \<and> unat bs * unat n < 2 ^ 64 \<longrightarrow>
      driver_read D slba n (dr, w) = (Err ReadLargerThanBuffer, (dr, w))) \<and>
    (data = [] \<or> length data mod unat bs \<noteq> 0 \<longrightarrow>
      driver_write D slba data (dr, w) = (Err WriteLengthNotMultiple, (dr, w))) \<and>
    (length data mod unat bs = 0 \<and> 0x1FB000 < length data \<longrightarrow>
      driver_write D slba data (dr, w) = (Err WriteLargerThanBuffer, (dr, w)))"
  by (rule bad_transfers [OF assms])

text \<open>
  C21: The size check of a Read is done in wrapping arithmetic. With a block size of
  \<open>2 ^ 60\<close> bytes, which the LBA data size exponent 60 gives, a Read of 16 blocks computes a
  total of zero bytes, passes the check against the buffer size, and announces a command for
  all 16 blocks to a controller that was given one page: the product needs a \<open>checked_mul\<close>.
\<close>

theorem oversized_read_slips_through:
  assumes ok: "driver_ok dr" and bs: "block_sizes dr (drv_nsid dr) = Some bs" "unat bs = 2 ^ 60"
    and run: "driver_read D slba 16 (dr, w) = (r, (dr', w'))"
  shows "\<exists>e rest. log w' = log w @ announce dr e @ rest \<and> command_slba e = slba \<and>
    command_blocks e = 16 \<and> sqe_prp2 e = 0"
proof -
  have "bs * 16 = 0"
  proof -
    have "bs = of_nat (2 ^ 60)" using bs(2) by (rule unat_eqD)
    then show ?thesis by simp
  qed
  then have "driver_read D slba 16 (dr, w) = transfer_read D dr (drv_nsid dr) slba 16 0 (dr, w)"
    by (simp add: run_read_cached [OF bs(1)])
  moreover obtain p1 where "data_pointers D dr 0 w = (Ok (p1, 0), w)"
    by (simp add: data_pointers_def div_ceil_def run_simps)
  ultimately have eq: "andthen (io_channel.checked D (nvme_read (drv_nsid dr) slba 15 p1 0) ''Read'')
      (\<lambda>_. on_snd (read_bytes D (drv_dma dr) DATA_OFFSET 0)) (dr, w) = (r, (dr', w'))"
    using run by (simp add: transfer_read_def io_channel.then_checked run_simps)
  obtain c dr2 w3 where chk: "io_channel.checked D (nvme_read (drv_nsid dr) slba 15 p1 0) ''Read'' (dr, w)
      = (c, (dr2, w3))" by (metis prod.exhaust)
  have "check_bytes (drv_dma dr) DATA_OFFSET 0 = Ok ()"
    using data_area [OF driver_at_self [OF ok], of 0] by (simp add: check_bytes_Ok)
  then have "log w' = log w3"
    using eq by (cases c) (auto simp: run_andthen chk run_on_snd read_bytes_def run_simps)
  then obtain rest where rest: "log w' = log w @
      announce dr ((nvme_read (drv_nsid dr) slba 15 p1 0)\<lparr>sqe_cid := next_cid (io_queue dr)\<rparr>) @ rest"
    using checked_result(2) [OF ok chk] by auto
  show ?thesis
    by (rule exI [of _ "(nvme_read (drv_nsid dr) slba 15 p1 0)\<lparr>sqe_cid := next_cid (io_queue dr)\<rparr>"],
        rule exI [of _ rest])
      (use rest command_blocks_read [of "drv_nsid dr" slba 15 p1 0] in
        \<open>simp add: command_slba_def command_blocks_def nvme_read_def\<close>)
qed

end
