(* ===== verification/Queue_Server.thy ===== *)
theory Queue_Server
  imports Queue_Pair
begin

text \<open>
  What a queue pair relies on from the controller behind it, for any set of commands: an idle
  controller lets the CPU prepare an entry, its doorbell starts the command, and a busy one ends
  with the completion of that command in the next slot. One submission is one command carried out.
\<close>

section \<open>Controllers that serve a queue\<close>

text \<open>
  A set of commands, over an abstract state \<open>'x\<close> of the controller: which entries the controller is
  asked to carry out, which bytes of the region it may change meanwhile (besides the slot of the
  completion), and what a completion says of the states and memories before and after.
\<close>

record 'x command_set =
  accepts :: "'x \<Rightarrow> mem \<Rightarrow> submission_queue_entry \<Rightarrow> bool"
  touches :: "mem \<Rightarrow> submission_queue_entry \<Rightarrow> nat \<Rightarrow> bool"
  performs :: "submission_queue_entry \<Rightarrow> 'x \<Rightarrow> mem \<Rightarrow> 'x \<Rightarrow> mem \<Rightarrow> completion_queue_entry \<Rightarrow> bool"

text \<open>
  The completion rings of the two queues are at \<open>0x1000\<close> and \<open>0x3000\<close> of the region; the CPU never
  stores there.
\<close>

definition clear_of_rings :: "nat \<Rightarrow> nat \<Rightarrow> bool" where
  "clear_of_rings off n \<longleftrightarrow> (off + n \<le> 0x1000 \<or> 0x1400 \<le> off) \<and> (off + n \<le> 0x3000 \<or> 0x3400 \<le> off)"

lemma clear_part: "clear_of_rings a n \<Longrightarrow> a \<le> off \<Longrightarrow> off + k \<le> a + n \<Longrightarrow> clear_of_rings off k"
  by (auto simp: clear_of_rings_def)

text \<open>
  The documented behaviour, seen from the queue \<open>i\<close> with its rings at \<open>so\<close> and \<open>co\<close>. \<open>idle m X d mem\<close>
  says that \<open>m\<close> commands were announced and completed and that the controller's state is \<open>X\<close>;
  \<open>busy m e b X d mem\<close> that command \<open>m\<close>, which is \<open>e\<close>, is being carried out and completes within
  \<open>b\<close> more steps. Idle, the controller writes nothing. Its doorbell starts the command at slot
  \<open>m\<close>. Busy, it changes only what it may change, and it ends with the completion of \<open>e\<close> in
  slot \<open>m\<close>.
\<close>

definition queue_server ::
  "'x command_set \<Rightarrow> 'd device \<Rightarrow> u16 \<Rightarrow> nat \<Rightarrow> nat \<Rightarrow> usize \<Rightarrow> nat \<Rightarrow>
   (nat \<Rightarrow> 'x \<Rightarrow> 'd \<Rightarrow> mem \<Rightarrow> bool) \<Rightarrow>
   (nat \<Rightarrow> submission_queue_entry \<Rightarrow> nat \<Rightarrow> 'x \<Rightarrow> 'd \<Rightarrow> mem \<Rightarrow> bool) \<Rightarrow> bool" where
  "queue_server C D i so co stride latency idle busy \<longleftrightarrow>
     (\<forall>m X d mem. idle m X d mem \<longrightarrow>
        snd (dev_step D d mem) = mem \<and> idle m X (fst (dev_step D d mem)) mem \<and>
        (\<forall>off bs. clear_of_rings off (length bs) \<longrightarrow> idle m X d (store mem off bs)) \<and>
        (\<forall>v. idle m X (dev_write32 D d (completion_doorbell i stride) v) mem) \<and>
        (let e = sqe_of_bytes (load mem (so + 64 * (m mod 64)) 64) in
           accepts C X mem e \<longrightarrow>
           busy m e latency X
             (dev_write32 D d (submission_doorbell i stride) (of_nat (Suc m mod 64))) mem)) \<and>
     (\<forall>m e b X d mem. busy m e b X d mem \<longrightarrow>
        (let (d', mem') = dev_step D d mem in
           (\<forall>i. \<not> touches C mem e i \<longrightarrow> mem' i = mem i) \<and>
           ((\<exists>b' < b. busy m e b' X d' mem' \<and> phase (slot_entry co mem' m) \<noteq> even (m div 64)) \<or>
            (\<exists>X'. idle (Suc m) X' d' mem' \<and> phase (slot_entry co mem' m) = even (m div 64) \<and>
               performs C e X mem X' mem' (slot_entry co mem' m)))))"

lemma idleD:
  assumes "queue_server C D i so co stride latency idle busy" and "idle m X d mem"
  shows "snd (dev_step D d mem) = mem" "idle m X (fst (dev_step D d mem)) mem"
    "clear_of_rings off (length bs) \<Longrightarrow> idle m X d (store mem off bs)"
    "idle m X (dev_write32 D d (completion_doorbell i stride) v) mem"
    "e = sqe_of_bytes (load mem (so + 64 * (m mod 64)) 64) \<Longrightarrow> accepts C X mem e \<Longrightarrow>
      busy m e latency X (dev_write32 D d (submission_doorbell i stride) (of_nat (Suc m mod 64))) mem"
  using assms(1) [unfolded queue_server_def, THEN conjunct1, rule_format, OF assms(2)]
  by (auto simp: Let_def)

text \<open>An idle controller's step changes nothing but its own state.\<close>

lemma step_idle:
  assumes "queue_server C D i so co stride latency idle busy" and "idle m X (dev w) (dma w)"
  shows "dma (step_device D w) = dma w" "idle m X (dev (step_device D w)) (dma w)"
  using idleD(1,2) [OF assms] by (simp_all add: step_device_def case_prod_unfold Let_def)

lemma busyD:
  assumes "queue_server C D i so co stride latency idle busy" and "busy m e b X (dev w) (dma w)"
    and "w' = step_device D w"
  shows "\<not> touches C (dma w) e j \<Longrightarrow> dma w' j = dma w j"
    and "(\<exists>b' < b. busy m e b' X (dev w') (dma w') \<and> phase (slot_entry co (dma w') m) \<noteq> even (m div 64)) \<or>
      (\<exists>X'. idle (Suc m) X' (dev w') (dma w') \<and> phase (slot_entry co (dma w') m) = even (m div 64) \<and>
         performs C e X (dma w) X' (dma w') (slot_entry co (dma w') m))"
  using assms(1) [unfolded queue_server_def, THEN conjunct2, rule_format, OF assms(2)]
  by (simp_all add: assms(3) step_device_def case_prod_unfold Let_def)

section \<open>One command\<close>

text \<open>
  The laws of a set of commands on a queue at \<open>so\<close>: an accepted entry stays accepted while the
  controller works on it and when an entry is stored, and the \<open>result\<close> that a completion reports
  holds from the moment the command was prepared.
\<close>

locale served_commands =
  fixes C :: "'x command_set" and so :: nat
    and result :: "submission_queue_entry \<Rightarrow> 'x \<Rightarrow> mem \<Rightarrow> 'x \<Rightarrow> mem \<Rightarrow> completion_queue_entry \<Rightarrow> bool"
  assumes accepts_working: "accepts C X m e \<Longrightarrow> (\<And>i. \<not> touches C m e i \<Longrightarrow> m' i = m i) \<Longrightarrow> accepts C X m' e"
    and accepts_prepared: "accepts C X m e \<Longrightarrow> so \<le> off \<Longrightarrow> off + length bs \<le> so + 0x1000 \<Longrightarrow>
      accepts C X (store m off bs) e"
    and result_done: "accepts C X m e \<Longrightarrow> (\<And>i. \<not> touches C m e i \<Longrightarrow> m' i = m i) \<Longrightarrow>
      performs C e X m X' m' c \<Longrightarrow> result e X m X' m' c"
    and result_working: "accepts C X m e \<Longrightarrow> (\<And>i. \<not> touches C m e i \<Longrightarrow> m' i = m i) \<Longrightarrow>
      result e X m' X' m'' c \<Longrightarrow> result e X m X' m'' c"
    and result_prepared: "accepts C X m e \<Longrightarrow> so \<le> off \<Longrightarrow> off + length bs \<le> so + 0x1000 \<Longrightarrow>
      result e X (store m off bs) X' m' c \<Longrightarrow> result e X m X' m' c"
    and result_cid: "result e X m X' m' c \<Longrightarrow> cqe_cid c = sqe_cid e"
begin

lemma busy_polls:
  assumes ctl: "queue_server C D i so co stride latency idle busy"
    and "busy m e b X (dev w) (dma w)" and "accepts C X (dma w) e"
  shows "\<exists>k X'. 1 \<le> k \<and> k \<le> Suc b \<and>
    idle (Suc m) X' (dev ((idle_poll D ^^ k) w)) (dma ((idle_poll D ^^ k) w)) \<and>
    (\<forall>j. 1 \<le> j \<and> j \<le> k \<longrightarrow>
      (phase (slot_entry co (dma ((idle_poll D ^^ j) w)) m) = even (m div 64)) = (j = k)) \<and>
    result e X (dma w) X' (dma ((idle_poll D ^^ k) w)) (slot_entry co (dma ((idle_poll D ^^ k) w)) m)"
  using assms(2,3)
proof (induction b arbitrary: w rule: less_induct)
  case (less b)
  let ?w = "idle_poll D w"
  have busy: "busy m e b X (dev (w\<lparr>log := log w @ [Pause]\<rparr>)) (dma (w\<lparr>log := log w @ [Pause]\<rparr>))"
    using less.prems(1) by simp
  note step = busyD [OF ctl busy, of ?w, unfolded idle_poll_def, OF refl, folded idle_poll_def]
  have same: "\<And>i. \<not> touches C (dma w) e i \<Longrightarrow> dma ?w i = dma w i" using step(1) by simp
  from step(2) consider
    (going) b' where "b' < b" "busy m e b' X (dev ?w) (dma ?w)"
      "phase (slot_entry co (dma ?w) m) \<noteq> even (m div 64)"
  | (finished) X' where "idle (Suc m) X' (dev ?w) (dma ?w)"
      "phase (slot_entry co (dma ?w) m) = even (m div 64)"
      "performs C e X (dma w) X' (dma ?w) (slot_entry co (dma ?w) m)"
    by auto
  then show ?case
  proof cases
    case finished
    then show ?thesis
      using result_done [OF less.prems(2) same finished(3)]
      by (intro exI [of _ 1] exI [of _ X']) (auto simp: le_Suc_eq)
  next
    case going
    have acc: "accepts C X (dma ?w) e" by (rule accepts_working [OF less.prems(2) same])
    obtain k X' where k: "1 \<le> k" "k \<le> Suc b'"
      "idle (Suc m) X' (dev ((idle_poll D ^^ k) ?w)) (dma ((idle_poll D ^^ k) ?w))"
      "\<And>j. 1 \<le> j \<Longrightarrow> j \<le> k \<Longrightarrow>
        (phase (slot_entry co (dma ((idle_poll D ^^ j) ?w)) m) = even (m div 64)) = (j = k)"
      and fin: "result e X (dma ?w) X' (dma ((idle_poll D ^^ k) ?w))
        (slot_entry co (dma ((idle_poll D ^^ k) ?w)) m)"
      using less.IH [OF going(1,2) acc] by blast
    have shift: "(idle_poll D ^^ j) ?w = (idle_poll D ^^ Suc j) w" for j by (simp add: funpow_swap1)
    have "(phase (slot_entry co (dma ((idle_poll D ^^ j) w)) m) = even (m div 64)) = (j = Suc k)"
      if j: "1 \<le> j" "j \<le> Suc k" for j
    proof (cases "j = 1")
      case True
      then show ?thesis using going(3) k(1) by simp
    next
      case False
      then show ?thesis using k(4) [of "j - 1", unfolded shift] j by (cases j) auto
    qed
    then show ?thesis
      using k(1,2,3) result_working [OF less.prems(2) same fin] going(1) unfolding shift
      by (intro exI [of _ "Suc k"] exI [of _ X']) auto
  qed
qed

text \<open>Announcing a command to an idle controller.\<close>

lemma after_submit_busy:
  fixes command :: submission_queue_entry
  assumes ctl: "queue_server C D i so co stride latency idle busy"
    and ok: "queue_ok bar region stride q" and at: "at_counts q m n"
    and q: "queue_id q = i" "unat (submission_offset q) = so"
    and apart: "clear_of_rings so 0x1000"
    and idle: "idle m X (dev w) (dma w)"
  defines "e \<equiv> command\<lparr>sqe_cid := next_cid q\<rparr>"
  assumes acc: "accepts C X (dma w) e"
  shows "busy m e latency X (dev (after_submit D stride command q w)) (dma (after_submit D stride command q w))"
    and "dma (after_submit D stride command q w) = store (dma w) (so + 64 * (m mod 64)) (sqe_bytes e)"
proof -
  let ?off = "so + 64 * (m mod 64)" and ?m = "store (dma w) (so + 64 * (m mod 64)) (sqe_bytes e)"
  have off: "unat (sqe_slot q) = ?off"
    using queue_ok_slots(1) [OF ok] q at by (simp add: at_counts_def)
  have tail: "submission_tail (advance_tail q) = of_nat (Suc m mod 64)"
    using sq_tail.at_bump [of q m] at by (intro unat_eqD) (simp add: at_counts_def)
  have below: "?off + 64 \<le> so + 0x1000" using mod_less_divisor [of 64 m] by linarith
  define w1 where "w1 = step_device D w"
  define w2 where "w2 = w1\<lparr>dma := ?m, log := log w1 @ [DmaStore ?off (sqe_bytes e)]\<rparr>"
  define w3 where "w3 = step_device D w2"
  define w4 where "w4 = step_device D (w3\<lparr>log := log w3 @ [Fence]\<rparr>)"
  have 1: "dma w1 = dma w" "idle m X (dev w1) (dma w1)"
    using step_idle [OF ctl idle] by (simp_all add: w1_def)
  have "clear_of_rings ?off (length (sqe_bytes e))" by (rule clear_part [OF apart]) (use below in simp_all)
  from idleD(3) [OF ctl 1(2) this] have 2: "idle m X (dev w2) (dma w2)" by (simp add: w2_def 1(1))
  have 3: "dma w3 = ?m" "idle m X (dev w3) (dma w3)"
    using step_idle [OF ctl 2] by (simp_all add: w3_def w2_def)
  then have 4: "dma w4 = ?m" "idle m X (dev w4) (dma w4)"
    using step_idle [OF ctl, of m X "w3\<lparr>log := log w3 @ [Fence]\<rparr>"] by (simp_all add: w4_def)
  have "e = sqe_of_bytes (load (dma w4) ?off 64)"
    using load_store_same [of "dma w" ?off "sqe_bytes e"] by (simp add: 4(1) sqe_of_sqe_bytes)
  moreover have "accepts C X (dma w4) e"
    unfolding 4(1) by (rule accepts_prepared [OF acc]) (use below in simp_all)
  ultimately have "busy m e latency X
      (dev_write32 D (dev w4) (submission_doorbell i stride) (of_nat (Suc m mod 64))) (dma w4)"
    by (rule idleD(5) [OF ctl 4(2)])
  moreover have "after_submit D stride command q w = (let reg = submission_doorbell (queue_id q) stride;
      v = submission_tail (advance_tail q) in
      w4\<lparr>dev := dev_write32 D (dev w4) reg v, log := log w4 @ [RegWrite32 reg v]\<rparr>)"
    by (simp add: after_submit_def Let_def off e_def [symmetric] 1(1) w4_def w3_def w2_def
        w1_def [symmetric] del: step_device_log)
  ultimately show "busy m e latency X (dev (after_submit D stride command q w)) (dma (after_submit D stride command q w))"
    and "dma (after_submit D stride command q w) = ?m"
    by (simp_all add: Let_def tail 4(1) q(1))
qed

text \<open>A submission to an idle controller carries out one command.\<close>

lemma submit_served:
  fixes command :: submission_queue_entry
  assumes ctl: "queue_server C D i so co stride latency idle busy" and "latency \<le> 200000"
    and ok: "queue_ok bar region stride q" and at: "at_counts q m m"
    and q: "queue_id q = i" "unat (submission_offset q) = so" "unat (completion_offset q) = co"
    and apart: "clear_of_rings so 0x1000"
    and idle: "idle m X (dev w) (dma w)"
  defines "e \<equiv> command\<lparr>sqe_cid := next_cid q\<rparr>"
  assumes acc: "accepts C X (dma w) e"
  obtains c q' w' X' where "submit_and_wait D bar region stride command (q, w) = (Ok c, (q', w'))"
    "at_counts q' (Suc m) (Suc m)" "idle (Suc m) X' (dev w') (dma w')" "result e X (dma w) X' (dma w') c"
proof -
  let ?w = "after_submit D stride command q w"
  have m: "dma ?w = store (dma w) (so + 64 * (m mod 64)) (sqe_bytes e)"
    and busy: "busy m e latency X (dev ?w) (dma ?w)"
    using after_submit_busy [OF ctl ok at q(1,2) apart idle] acc by (simp_all add: e_def)
  have slot: "so \<le> so + 64 * (m mod 64)" "so + 64 * (m mod 64) + length (sqe_bytes e) \<le> so + 0x1000"
    using mod_less_divisor [of 64 m] by simp_all
  obtain k X' where k: "1 \<le> k" "k \<le> Suc latency"
      "idle (Suc m) X' (dev ((idle_poll D ^^ k) ?w)) (dma ((idle_poll D ^^ k) ?w))"
      "\<And>j. 1 \<le> j \<Longrightarrow> j \<le> k \<Longrightarrow>
        (phase (slot_entry co (dma ((idle_poll D ^^ j) ?w)) m) = even (m div 64)) = (j = k)"
    and fin: "result e X (dma ?w) X' (dma ((idle_poll D ^^ k) ?w)) (slot_entry co (dma ((idle_poll D ^^ k) ?w)) m)"
    using busy_polls [OF ctl busy] accepts_prepared [OF acc slot] unfolding m by blast
  let ?v = "(idle_poll D ^^ k) ?w"
  have head: "completion_phase q = even (m div 64)" using at by (simp add: at_counts_def)
  have sees: "seen q v = slot_entry co (dma v) m" for v :: "'a world"
    using seen_slot_entry [OF ok at] q by simp
  have "first_fresh D q 200001 ?w = Some k"
    using k(1,2) k(4) \<open>latency \<le> 200000\<close> by (intro first_freshI) (simp_all add: fresh_def sees head)
  moreover have cid: "cqe_cid (seen q ?v) = next_cid q"
    using result_cid [OF fin] by (simp add: sees e_def)
  ultimately have run: "submit_and_wait D bar region stride command (q, w) =
      (Ok (seen q ?v), (advance_head (advance_tail (take_cid q)),
        after_consume D stride (advance_tail (take_cid q)) ?v))"
    by (simp add: run_submit_and_wait [OF ok] Let_def)
  have idle': "dma (step_device D ?v) = dma ?v" "idle (Suc m) X' (dev (step_device D ?v)) (dma ?v)"
    by (rule step_idle [OF ctl k(3)])+
  let ?u = "after_consume D stride (advance_tail (take_cid q)) ?v"
  have u: "dma ?u = dma ?v" "idle (Suc m) X' (dev ?u) (dma ?u)"
    using idle' idleD(4) [OF ctl idle'(2)] q
    by (simp_all add: after_consume_def Let_def step_device_log_update)
  have "result e X (dma w) X' (dma ?u) (seen q ?v)"
    using result_prepared [OF acc slot] fin unfolding m by (simp add: u(1) sees)
  moreover have "at_counts (advance_head (advance_tail (take_cid q))) (Suc m) (Suc m)"
    by (intro at_counts_consume at_counts_submit at)
  ultimately show thesis using run u(2) by (intro that)
qed

end

end
