(* ===== verification/Storage.thy ===== *)
theory Storage
  imports Driver_Transfers Queue_Server
begin

text \<open>
  The abstract disk that the driver's Read and Write implement, and what the driver relies on
  from a controller: it carries out the Read and Write commands of the NVM Command Set, one at a
  time, on a disk. One submission on such a controller is one operation on the disk.
\<close>

unbundle bit_operations_syntax

section \<open>The abstract disk\<close>

text \<open>
  The bytes of a namespace, block after block, and what is known of it: its identifier, its
  block size in bytes and its capacity in blocks.
\<close>

type_synonym disk = mem

record nvm_namespace =
  ns_id :: u32
  ns_block_size :: nat
  ns_capacity :: nat

definition in_capacity :: "nvm_namespace \<Rightarrow> u64 \<Rightarrow> nat \<Rightarrow> bool" where
  "in_capacity ns lba count \<longleftrightarrow> unat lba + count \<le> ns_capacity ns"

definition disk_pos :: "nvm_namespace \<Rightarrow> u64 \<Rightarrow> nat" where
  "disk_pos ns lba = unat lba * ns_block_size ns"

text \<open>
  A transfer and its effect on the disk: it is refused, with the disk unchanged, or it answers
  the bytes read (nothing for a Write). \<open>0x1FB000\<close> bytes fit the driver's buffer.
\<close>

datatype transfer = ReadBlocks u64 u16 | WriteBlocks u64 "u8 list"

fun disk_step :: "nvm_namespace \<Rightarrow> transfer \<Rightarrow> disk \<Rightarrow> u8 list option \<times> disk" where
  "disk_step ns (ReadBlocks lba n) K =
     (if n = 0 \<or> 0x1FB000 < ns_block_size ns * unat n \<or> \<not> in_capacity ns lba (unat n) then (None, K)
      else (Some (load K (disk_pos ns lba) (ns_block_size ns * unat n)), K))"
| "disk_step ns (WriteBlocks lba data) K =
     (if data = [] \<or> length data mod ns_block_size ns \<noteq> 0 \<or> 0x1FB000 < length data \<or>
         \<not> in_capacity ns lba (length data div ns_block_size ns) then (None, K)
      else (Some [], store K (disk_pos ns lba) data))"

text \<open>The same transfers on the driver; every error counts as a refusal.\<close>

fun driver_step :: "'d device \<Rightarrow> transfer \<Rightarrow> ('d machine, u8 list) prog" where
  "driver_step D (ReadBlocks lba n) = driver_read D lba n"
| "driver_step D (WriteBlocks lba data) = andthen (driver_write D lba data) (\<lambda>_. ret [])"

section \<open>Controllers that serve a disk\<close>

text \<open>The bytes a command transfers: the pages that its data pointers name, in order.\<close>

definition command_bytes :: "nvm_namespace \<Rightarrow> submission_queue_entry \<Rightarrow> nat" where
  "command_bytes ns e = command_blocks e * ns_block_size ns"

definition command_pages :: "nvm_namespace \<Rightarrow> dma_region \<Rightarrow> mem \<Rightarrow> submission_queue_entry \<Rightarrow> nat list" where
  "command_pages ns region m e = map (\<lambda>p. unat (p - physical_address region))
     (walk_prps region m ((command_bytes ns e + 4095) div 4096) (sqe_prp1 e) (sqe_prp2 e))"

definition transferred :: "nvm_namespace \<Rightarrow> dma_region \<Rightarrow> mem \<Rightarrow> submission_queue_entry \<Rightarrow> u8 list" where
  "transferred ns region m e =
     take (command_bytes ns e) (concat (map (\<lambda>p. load m p 4096) (command_pages ns region m e)))"

text \<open>
  A command that the controller is asked to carry out: a Read or a Write of its namespace whose
  pages are those of the data area, in order, and fit it; a list of pages is at \<open>0x4000\<close>.
\<close>

definition proper :: "nvm_namespace \<Rightarrow> dma_region \<Rightarrow> mem \<Rightarrow> submission_queue_entry \<Rightarrow> bool" where
  "proper ns region m e \<longleftrightarrow> sqe_nsid e = ns_id ns \<and> (sqe_opc e = 1 \<or> sqe_opc e = 2) \<and>
     command_bytes ns e \<le> 0x1FB000 \<and>
     (2 * 4096 < command_bytes ns e \<longrightarrow> sqe_prp2 e = physical_address region + 0x4000) \<and>
     command_pages ns region m e =
       map (\<lambda>i. 0x5000 + 4096 * i) [0..<(command_bytes ns e + 4095) div 4096]"

text \<open>
  What its completion means: success exactly when the blocks lie in the namespace. A Write has
  then put the bytes of its pages on the disk; a Read has put the bytes of the disk into its
  pages. Nothing else happens to the disk.
\<close>

definition performed ::
  "nvm_namespace \<Rightarrow> dma_region \<Rightarrow> submission_queue_entry \<Rightarrow> disk \<Rightarrow> mem \<Rightarrow> disk \<Rightarrow> mem \<Rightarrow>
   completion_queue_entry \<Rightarrow> bool" where
  "performed ns region e K m K' m' c \<longleftrightarrow> cqe_cid c = sqe_cid e \<and>
     (if in_capacity ns (command_slba e) (command_blocks e) then
        is_success c \<and>
        (if sqe_opc e = 1 then K' = store K (disk_pos ns (command_slba e)) (transferred ns region m e)
         else K' = K \<and>
           transferred ns region m' e = load K (disk_pos ns (command_slba e)) (command_bytes ns e))
      else \<not> is_success c \<and> K' = K)"

text \<open>
  The bytes the controller may change while it works on a command: its completion ring, and the
  pages of a Read.
\<close>

definition may_change :: "nvm_namespace \<Rightarrow> dma_region \<Rightarrow> mem \<Rightarrow> submission_queue_entry \<Rightarrow> nat \<Rightarrow> bool" where
  "may_change ns region m e i \<longleftrightarrow> (0x3000 \<le> i \<and> i < 0x3400) \<or>
     (sqe_opc e = 2 \<and> (\<exists>p \<in> set (command_pages ns region m e). p \<le> i \<and> i < p + 4096))"

text \<open>The NVM commands as a set of commands; the state of the controller is its disk.\<close>

definition nvm_commands :: "nvm_namespace \<Rightarrow> dma_region \<Rightarrow> disk command_set" where
  "nvm_commands ns region =
     \<lparr>accepts = (\<lambda>K. proper ns region), touches = may_change ns region, performs = performed ns region\<rparr>"

text \<open>A controller that serves them on the I/O queue, with its rings at \<open>0x2000\<close> and \<open>0x3000\<close>.\<close>

definition storage_controller ::
  "'d device \<Rightarrow> nvm_namespace \<Rightarrow> dma_region \<Rightarrow> usize \<Rightarrow> nat \<Rightarrow>
   (nat \<Rightarrow> disk \<Rightarrow> 'd \<Rightarrow> mem \<Rightarrow> bool) \<Rightarrow>
   (nat \<Rightarrow> submission_queue_entry \<Rightarrow> nat \<Rightarrow> disk \<Rightarrow> 'd \<Rightarrow> mem \<Rightarrow> bool) \<Rightarrow> bool" where
  "storage_controller D ns region stride latency idle busy =
     queue_server (nvm_commands ns region) D 1 0x2000 0x3000 stride latency idle busy"

section \<open>Pages in a row\<close>

lemma concat_pages:
  "concat (map (\<lambda>p. load m p 4096) (map (\<lambda>i. a + 4096 * i) [0..<k])) = load m a (4096 * k)"
proof (induction k)
  case (Suc k)
  then show ?case using load_append [of m a "4096 * k" 4096] by (simp add: add.commute)
qed (simp add: load_def)

lemma take_load: "n \<le> k \<Longrightarrow> take n (load m off k) = load m off n"
  by (rule nth_equalityI) simp_all

lemma transferred_proper:
  assumes "proper ns region m e"
  shows "transferred ns region m e = load m 0x5000 (command_bytes ns e)"
proof -
  have "command_bytes ns e \<le> 4096 * ((command_bytes ns e + 4095) div 4096)" by simp
  then show ?thesis
    using assms by (simp only: transferred_def proper_def concat_pages take_load)
qed

lemma may_change_proper:
  assumes "proper ns region m e" and "may_change ns region m e i"
  shows "0x3000 \<le> i \<and> i < 0x3400 \<or> sqe_opc e = 2 \<and> 0x5000 \<le> i"
  using assms by (auto simp: may_change_def proper_def)

text \<open>What a controller may change while it carries out \<open>e\<close> leaves \<open>e\<close> proper.\<close>

definition agree :: "submission_queue_entry \<Rightarrow> mem \<Rightarrow> mem \<Rightarrow> bool" where
  "agree e m m' \<longleftrightarrow> (\<forall>i. (i < 0x3000 \<or> 0x3400 \<le> i) \<and> (sqe_opc e = 2 \<longrightarrow> i < 0x5000) \<longrightarrow> m' i = m i)"

lemma agreeI:
  assumes "proper ns region m e" and "\<And>i. \<not> may_change ns region m e i \<Longrightarrow> m' i = m i"
  shows "agree e m m'"
  unfolding agree_def
proof (intro allI impI)
  fix i :: nat assume "(i < 0x3000 \<or> 0x3400 \<le> i) \<and> (sqe_opc e = 2 \<longrightarrow> i < 0x5000)"
  then have "\<not> may_change ns region m e i" using may_change_proper [OF assms(1), of i] by auto
  then show "m' i = m i" by (rule assms(2))
qed

lemma agree_trans: "agree e m m' \<Longrightarrow> agree e m' m'' \<Longrightarrow> agree e m m''"
  by (simp add: agree_def)

lemma agree_refl [simp]: "agree e m m"
  by (simp add: agree_def)

lemma proper_cong:
  assumes "proper ns region m e" and "\<And>i. 0x4000 \<le> i \<Longrightarrow> i < 0x5000 \<Longrightarrow> m' i = m i"
  shows "proper ns region m' e"
proof -
  let ?n = "(command_bytes ns e + 4095) div 4096"
  have "command_bytes ns e \<le> 0x1FB000" using assms(1) by (simp add: proper_def)
  then have le: "?n \<le> 507" by simp
  have "walk_prps region m' ?n (sqe_prp1 e) (sqe_prp2 e) = walk_prps region m ?n (sqe_prp1 e) (sqe_prp2 e)"
  proof (cases "?n \<le> 2")
    case True
    then have "?n = 0 \<or> ?n = 1 \<or> ?n = 2" by linarith
    then show ?thesis by (auto simp: walk_prps_def)
  next
    case False
    then have "2 * 4096 < command_bytes ns e" by linarith
    then have p2: "unat (sqe_prp2 e - physical_address region) = 0x4000"
      using assms(1) by (simp add: proper_def)
    have "load m' (0x4000 + 8 * j) 8 = load m (0x4000 + 8 * j) 8" if j: "j < ?n - 1" for j
    proof (rule load_cong)
      fix i assume i: "0x4000 + 8 * j \<le> i" "i < 0x4000 + 8 * j + 8"
      show "m' i = m i" by (rule assms(2)) (use i j le in linarith)+
    qed
    then show ?thesis by (simp add: walk_prps_def p2)
  qed
  then show ?thesis using assms(1) by (simp add: proper_def command_pages_def)
qed

lemma proper_agree: "proper ns region m e \<Longrightarrow> agree e m m' \<Longrightarrow> proper ns region m' e"
  by (erule proper_cong) (simp add: agree_def)

section \<open>One command on a disk\<close>

text \<open>The effect of a proper command in terms of the data area.\<close>

definition done_on_disk ::
  "nvm_namespace \<Rightarrow> submission_queue_entry \<Rightarrow> disk \<Rightarrow> mem \<Rightarrow> disk \<Rightarrow> mem \<Rightarrow>
   completion_queue_entry \<Rightarrow> bool" where
  "done_on_disk ns e K m K' m' c \<longleftrightarrow> cqe_cid c = sqe_cid e \<and>
     (if in_capacity ns (command_slba e) (command_blocks e) then
        is_success c \<and>
        (if sqe_opc e = 1
         then K' = store K (disk_pos ns (command_slba e)) (load m 0x5000 (command_bytes ns e))
         else K' = K \<and> load m' 0x5000 (command_bytes ns e) =
           load K (disk_pos ns (command_slba e)) (command_bytes ns e))
      else \<not> is_success c \<and> K' = K)"

lemma performed_done:
  assumes "proper ns region m0 e" and "agree e m0 m" and "agree e m m'"
    and "performed ns region e K m K' m' c"
  shows "done_on_disk ns e K m0 K' m' c"
proof -
  have p: "proper ns region m e" by (rule proper_agree [OF assms(1,2)])
  note t = transferred_proper [OF p] transferred_proper [OF proper_agree [OF p assms(3)]]
  have "sqe_opc e = 1 \<Longrightarrow> load m 0x5000 (command_bytes ns e) = load m0 0x5000 (command_bytes ns e)"
    by (rule load_cong) (use assms(2) in \<open>simp add: agree_def\<close>)
  then show ?thesis using assms(4) by (simp add: performed_def done_on_disk_def t split: if_splits)
qed

interpretation nvm: served_commands "nvm_commands ns region" "0x2000" "done_on_disk ns" for ns region
proof
  fix K m e and m' :: mem
  assume acc: "accepts (nvm_commands ns region) K m e"
    and same: "\<And>i. \<not> touches (nvm_commands ns region) m e i \<Longrightarrow> m' i = m i"
  have p: "proper ns region m e" using acc by (simp add: nvm_commands_def)
  have agree: "agree e m m'" by (rule agreeI [OF p]) (use same in \<open>simp add: nvm_commands_def\<close>)
  have data: "sqe_opc e = 1 \<Longrightarrow> load m' 0x5000 n = load m 0x5000 n" for n
    by (rule load_cong) (use agree in \<open>simp add: agree_def\<close>)
  show "accepts (nvm_commands ns region) K m' e"
    using proper_agree [OF p agree] by (simp add: nvm_commands_def)
  show "performs (nvm_commands ns region) e K m K' m' c \<Longrightarrow> done_on_disk ns e K m K' m' c" for K' c
    using performed_done [OF p agree_refl agree] by (simp add: nvm_commands_def)
  show "done_on_disk ns e K m' K' m'' c \<Longrightarrow> done_on_disk ns e K m K' m'' c" for K' m'' c
    using data by (simp add: done_on_disk_def split: if_splits)
next
  fix K m e off and bs :: "u8 list"
  assume acc: "accepts (nvm_commands ns region) K m e" and slot: "0x2000 \<le> off" "off + length bs \<le> 0x2000 + 0x1000"
  show "accepts (nvm_commands ns region) K (store m off bs) e"
    using acc proper_cong [of ns region m e "store m off bs"] slot by (simp add: nvm_commands_def store_outside)
  have "load (store m off bs) 0x5000 n = load m 0x5000 n" for n
    using slot by (intro load_store_disjoint) simp
  then show "done_on_disk ns e K (store m off bs) K' m' c \<Longrightarrow> done_on_disk ns e K m K' m' c" for K' m' c
    by (simp add: done_on_disk_def)
qed (simp add: done_on_disk_def)

text \<open>A submission to an idle controller is one operation on the disk.\<close>

lemma submit_on_disk:
  fixes command :: submission_queue_entry
  assumes ctl: "storage_controller D ns region stride latency idle busy" and "latency \<le> 200000"
    and ok: "queue_ok bar region stride q" and at: "at_counts q m m" and q: "queue_at 1 0x2000 0x3000 q"
    and idle: "idle m K (dev w) (dma w)"
  defines "e \<equiv> command\<lparr>sqe_cid := next_cid q\<rparr>"
  assumes proper: "proper ns region (dma w) e"
  obtains c q' w' K' where "submit_and_wait D bar region stride command (q, w) = (Ok c, (q', w'))"
    "at_counts q' (Suc m) (Suc m)" "idle (Suc m) K' (dev w') (dma w')"
    "done_on_disk ns e K (dma w) K' (dma w') c"
proof -
  have "queue_id q = 1" "unat (submission_offset q) = 0x2000" "unat (completion_offset q) = 0x3000"
    using q by (simp_all add: queue_at_def)
  note served = nvm.submit_served [OF ctl [unfolded storage_controller_def] assms(2) ok at this _ idle]
  show thesis by (rule served [of command]) (use proper that in \<open>auto simp: nvm_commands_def e_def clear_of_rings_def\<close>)
qed

end
