(* ===== verification/Disk_Refinement.thy ===== *)
theory Disk_Refinement
  imports Storage
begin

text \<open>
  The driver on a controller that serves a disk: a Read or Write implements that of the abstract disk
  (a forward simulation).
\<close>

unbundle bit_operations_syntax

section \<open>The simulation relation\<close>

definition set_up ::
  "'d device \<Rightarrow> nvm_namespace \<Rightarrow> nat \<Rightarrow> (nat \<Rightarrow> disk \<Rightarrow> 'd \<Rightarrow> mem \<Rightarrow> bool) \<Rightarrow>
   (nat \<Rightarrow> submission_queue_entry \<Rightarrow> nat \<Rightarrow> disk \<Rightarrow> 'd \<Rightarrow> mem \<Rightarrow> bool) \<Rightarrow> driver \<Rightarrow> bool" where
  "set_up D ns latency idle busy dr \<longleftrightarrow> driver_ok dr \<and>
     storage_controller D ns (drv_dma dr) (doorbell_stride dr) latency idle busy \<and>
     latency \<le> 200000 \<and> drv_nsid dr = ns_id ns \<and> 32 \<le> ns_block_size ns \<and>
     ns_block_size ns \<le> 2 ^ 32 \<and>
     block_sizes dr (drv_nsid dr) = Some (of_nat (ns_block_size ns))"

definition attached ::
  "'d device \<Rightarrow> nvm_namespace \<Rightarrow> nat \<Rightarrow> (nat \<Rightarrow> disk \<Rightarrow> 'd \<Rightarrow> mem \<Rightarrow> bool) \<Rightarrow>
   (nat \<Rightarrow> submission_queue_entry \<Rightarrow> nat \<Rightarrow> disk \<Rightarrow> 'd \<Rightarrow> mem \<Rightarrow> bool) \<Rightarrow>
   disk \<Rightarrow> 'd machine \<Rightarrow> bool" where
  "attached D ns latency idle busy K s \<longleftrightarrow> set_up D ns latency idle busy (fst s) \<and>
     (\<exists>m. at_counts (io_queue (fst s)) m m \<and> idle m K (dev (snd s)) (dma (snd s)))"

lemma set_upD:
  assumes "set_up D ns latency idle busy dr"
  shows "driver_ok dr" "storage_controller D ns (drv_dma dr) (doorbell_stride dr) latency idle busy"
    "latency \<le> 200000" "drv_nsid dr = ns_id ns"
    "block_sizes dr (drv_nsid dr) = Some (of_nat (ns_block_size ns))"
    "unat (of_nat (ns_block_size ns) :: usize) = ns_block_size ns" "32 \<le> ns_block_size ns"
    "dma_length (drv_dma dr) = HUGE_PAGE_SIZE" "queue_at 1 0x2000 0x3000 (io_queue dr)"
    "(of_nat (ns_block_size ns) :: usize) \<noteq> 0"
proof -
  show size: "unat (of_nat (ns_block_size ns) :: usize) = ns_block_size ns"
    using assms by (intro unat_of_nat_small) (simp add: set_up_def)
  show big: "32 \<le> ns_block_size ns" using assms by (simp add: set_up_def)
  show "(of_nat (ns_block_size ns) :: usize) \<noteq> 0"
    using size big by (metis le_zero_eq unsigned_0 zero_neq_numeral)
qed (use assms in \<open>auto simp: set_up_def driver_ok_def hardware_ok_def\<close>)

text \<open>A checked command on the disk.\<close>

lemma checked_on_disk:
  fixes command :: submission_queue_entry
  assumes up: "set_up D ns latency idle busy dr" and at: "at_counts (io_queue dr) m m"
    and idle: "idle m K (dev w) (dma w)"
  defines "e \<equiv> command\<lparr>sqe_cid := next_cid (io_queue dr)\<rparr>"
  assumes proper: "proper ns (drv_dma dr) (dma w) e"
  shows "\<exists>c dr' w' K'. io_channel.checked D command what (dr, w) =
      (if is_success c then Ok () else Err (CommandFailed what (status_code_type c) (status_code c)),
       (dr', w')) \<and> drv_dma dr' = drv_dma dr \<and> attached D ns latency idle busy K' (dr', w') \<and>
      (\<exists>m'. idle m' K' (dev w') (dma w')) \<and> done_on_disk ns e K (dma w) K' (dma w') c"
proof -
  note ok = set_upD(1) [OF up]
  obtain c q w' K' where run: "submit_and_wait D (drv_bar dr) (drv_dma dr) (doorbell_stride dr) command
      (io_queue dr, w) = (Ok c, (q, w'))" and q: "at_counts q (Suc m) (Suc m)"
      "idle (Suc m) K' (dev w') (dma w')" and fin: "done_on_disk ns e K (dma w) K' (dma w') c"
    using submit_on_disk [OF set_upD(2,3) [OF up] driver_ok_queues(2) [OF ok] at set_upD(9) [OF up] idle]
      proper unfolding e_def by metis
  let ?dr = "dr\<lparr>io_queue := q\<rparr>"
  have io: "io_submit D command (dr, w) = (Ok c, (?dr, w'))" by (simp add: io_submit_def run)
  have "driver_at dr (fst (snd (io_submit D command (dr, w))))"
    using safeD(1) [OF io_submit_safe, of dr "(dr, w)" D command] driver_at_self [OF ok] by simp
  then have "driver_ok ?dr" by (simp add: io driver_atD(5))
  then have "set_up D ns latency idle busy ?dr" using up by (auto simp: set_up_def)
  then have "attached D ns latency idle busy K' (?dr, w')" using q by (auto simp: attached_def)
  moreover have "io_channel.checked D command what (dr, w) =
      (if is_success c then Ok () else Err (CommandFailed what (status_code_type c) (status_code c)),
       (?dr, w'))"
    by (simp add: io_channel.checked_def run_simps io check_def)
  ultimately show ?thesis using q(2) fin by auto
qed

section \<open>One transfer\<close>

text \<open>The data pointers of the driver make a command proper.\<close>

lemma proper_transfer:
  assumes "sqe_nsid e = ns_id ns" "sqe_opc e = 1 \<or> sqe_opc e = 2"
    and n: "command_bytes ns e = n" "n \<le> 0x1FB000"
    and "(sqe_prp1 e, sqe_prp2 e) = pointers dr n"
    and walk: "walk_prps (drv_dma dr) m ((n + 4095) div 4096) (sqe_prp1 e) (sqe_prp2 e) =
      map (\<lambda>i. physical_address (drv_dma dr) + of_nat (0x5000 + 4096 * i)) [0..<(n + 4095) div 4096]"
  shows "proper ns (drv_dma dr) m e"
proof -
  have "(n + 4095) div 4096 \<le> 507" using n(2) by simp
  then have "unat (of_nat (0x5000 + 4096 * i) :: u64) = 0x5000 + 4096 * i" if "i < (n + 4095) div 4096" for i
    using that by (intro unat_of_nat_small) simp
  then have "command_pages ns (drv_dma dr) m e = map (\<lambda>i. 0x5000 + 4096 * i) [0..<(n + 4095) div 4096]"
    unfolding command_pages_def n(1) walk by simp
  moreover have "sqe_prp2 e = physical_address (drv_dma dr) + 0x4000" if "2 * 4096 < n"
  proof -
    have "\<not> (n + 4095) div 4096 \<le> 1" "(n + 4095) div 4096 \<noteq> 2" using that by simp_all
    then show ?thesis using assms(5)
      by (simp add: pointers_def Let_def prp_list_physical_address_def physical_address_at_def PRP_LIST_OFFSET_def)
  qed
  ultimately show ?thesis using assms(1,2) n by (simp add: proper_def)
qed

text \<open>Computing the pointers leaves the disk and the data area alone.\<close>

lemma pointers_on_disk:
  assumes up: "set_up D ns latency idle busy dr" and idle: "idle m K (dev w) (dma w)"
    and len: "0 < unat len" "unat len \<le> 0x1FB000"
  shows "\<exists>w'. data_pointers D dr len w = (Ok (pointers dr (unat len)), w') \<and> idle m K (dev w') (dma w') \<and>
    load (dma w') 0x5000 n = load (dma w) 0x5000 n \<and>
    walk_prps (drv_dma dr) (dma w') ((unat len + 4095) div 4096)
      (fst (pointers dr (unat len))) (snd (pointers dr (unat len))) =
      map (\<lambda>i. physical_address (drv_dma dr) + of_nat (0x5000 + 4096 * i)) [0..<(unat len + 4095) div 4096]"
proof -
  let ?J = "\<lambda>d mem. idle m K d mem \<and> load mem 0x5000 n = load (dma w) 0x5000 n"
  note ctl = set_upD(2) [OF up, unfolded storage_controller_def]
  have "undisturbed D ?J 0x4000 0x5000"
    using idleD(1-3) [OF ctl] by (auto simp: undisturbed_def load_store_disjoint clear_of_rings_def)
  from data_pointers_memory [OF set_upD(8) [OF up] this _ len, of w] idle
  obtain p1 p2 w' where "data_pointers D dr len w = (Ok (p1, p2), w')" "idle m K (dev w') (dma w')"
    "load (dma w') 0x5000 n = load (dma w) 0x5000 n"
    "walk_prps (drv_dma dr) (dma w') ((unat len + 4095) div 4096) p1 p2 =
      map (\<lambda>i. physical_address (drv_dma dr) + of_nat (0x5000 + 4096 * i)) [0..<(unat len + 4095) div 4096]"
    by auto
  moreover from this have "pointers dr (unat len) = (p1, p2)"
    using run_data_pointers [OF set_upD(1) [OF up] len(2), of D w] by simp
  ultimately show ?thesis by simp
qed

text \<open>The commands of a Write and a Read, as the controller reads them.\<close>

lemma write_command:
  fixes data :: "u8 list" and lba :: u64 and cid :: u16
  assumes up: "set_up D ns latency idle busy dr" and "pointers dr (length data) = (p1, p2)"
    and data: "data \<noteq> []" "length data mod ns_block_size ns = 0" "length data \<le> 0x1FB000"
  defines "e \<equiv> (nvme_write (drv_nsid dr) lba
      (ucast (of_nat (length data) div (of_nat (ns_block_size ns) :: usize)) - 1) p1 p2)\<lparr>sqe_cid := cid\<rparr>"
  shows "command_blocks e = length data div ns_block_size ns" "command_slba e = lba"
    "command_bytes ns e = length data" "sqe_opc e = 1" "sqe_nsid e = ns_id ns"
    "(sqe_prp1 e, sqe_prp2 e) = pointers dr (length data)"
proof -
  let ?bs = "of_nat (ns_block_size ns) :: usize"
  note size = set_upD(6) [OF up]
  have bs: "32 \<le> unat ?bs" "length data mod unat ?bs = 0" using set_upD(7) [OF up] data(2) by (simp_all add: size)
  note count = run_write_good(3) [OF set_upD(5) [OF up] bs(1) data(1) bs(2) data(3), unfolded size]
  show blocks: "command_blocks e = length data div ns_block_size ns" "command_slba e = lba"
    using command_blocks_write [of "drv_nsid dr" lba "ucast (of_nat (length data) div ?bs) - 1" p1 p2] count
    by (simp_all add: e_def command_slba_def command_blocks_def)
  show "command_bytes ns e = length data"
    using data(2) div_mult_mod_eq [of "length data" "ns_block_size ns"] by (simp add: command_bytes_def blocks)
  show "sqe_opc e = 1" "sqe_nsid e = ns_id ns" "(sqe_prp1 e, sqe_prp2 e) = pointers dr (length data)"
    using assms(2) by (simp_all add: e_def nvme_write_def io_opcode_u8_def set_upD(4) [OF up])
qed

lemma read_command:
  fixes lba :: u64 and cid :: u16
  assumes up: "set_up D ns latency idle busy dr"
    and "pointers dr (ns_block_size ns * unat n) = (p1, p2)" and n: "0 < n"
  defines "e \<equiv> (nvme_read (drv_nsid dr) lba (n - 1) p1 p2)\<lparr>sqe_cid := cid\<rparr>"
  shows "command_blocks e = unat n" "command_slba e = lba" "command_bytes ns e = ns_block_size ns * unat n"
    "sqe_opc e = 2" "sqe_nsid e = ns_id ns"
    "(sqe_prp1 e, sqe_prp2 e) = pointers dr (ns_block_size ns * unat n)"
proof -
  have "n \<noteq> 0" using n by auto
  then have "unat (n - 1) + 1 = unat n"
    by (simp add: unat_minus_one word_less_nat_alt [symmetric] unat_gt_0)
  then show blocks: "command_blocks e = unat n" "command_slba e = lba"
    using command_blocks_read [of "drv_nsid dr" lba "n - 1" p1 p2]
    by (simp_all add: e_def command_slba_def command_blocks_def)
  show "command_bytes ns e = ns_block_size ns * unat n" by (simp add: command_bytes_def blocks mult.commute)
  show "sqe_opc e = 2" "sqe_nsid e = ns_id ns"
    "(sqe_prp1 e, sqe_prp2 e) = pointers dr (ns_block_size ns * unat n)"
    using assms(2) by (simp_all add: e_def nvme_read_def io_opcode_u8_def set_upD(4) [OF up])
qed

lemma write_on_disk:
  assumes att: "attached D ns latency idle busy K (dr, w)"
    and data: "data \<noteq> []" "length data mod ns_block_size ns = 0" "length data \<le> 0x1FB000"
  shows "answer (fst (driver_write D lba data (dr, w))) =
      (if in_capacity ns lba (length data div ns_block_size ns) then Some () else None) \<and>
    attached D ns latency idle busy
      (if in_capacity ns lba (length data div ns_block_size ns) then store K (disk_pos ns lba) data else K)
      (snd (driver_write D lba data (dr, w)))"
proof -
  have up: "set_up D ns latency idle busy dr" using att by (simp add: attached_def)
  obtain m where at: "at_counts (io_queue dr) m m" and idle: "idle m K (dev w) (dma w)"
    using att by (auto simp: attached_def)
  note ctl = set_upD(2) [OF up, unfolded storage_controller_def] and ok = set_upD(1) [OF up] and size = set_upD(6) [OF up]
  let ?bs = "of_nat (ns_block_size ns) :: usize" and ?len = "of_nat (length data) :: usize"
  have bs: "32 \<le> unat ?bs" and mod: "length data mod unat ?bs = 0"
    using set_upD(6,7) [OF up] data(2) by simp_all
  note good = run_write_good [OF set_upD(5) [OF up] bs data(1) mod data(3)]
  define w1 where "w1 = (step_device D w)\<lparr>dma := store (dma (step_device D w)) 0x5000 data,
    log := log w @ [DmaStore 0x5000 data]\<rparr>"
  have wr: "write_bytes D (drv_dma dr) DATA_OFFSET data w = (Ok (), w1)"
    unfolding w1_def by (rule run_write_bytes [OF ok data(3)])
  have idle1: "idle m K (dev w1) (dma w1)" and data1: "load (dma w1) 0x5000 (length data) = data"
    using step_idle(1) [OF ctl, OF idle] idleD(3) [OF ctl, OF step_idle(2) [OF ctl, OF idle], where off = "0x5000" and bs = data]
    by (simp_all add: w1_def load_store_same clear_of_rings_def)
  have "0 < unat ?len" "unat ?len \<le> 0x1FB000" using data(1,3) by (simp_all add: good(2))
  then obtain w2 where ptr: "data_pointers D dr ?len w1 = (Ok (pointers dr (length data)), w2)"
      "idle m K (dev w2) (dma w2)" "load (dma w2) 0x5000 (length data) = data"
      "walk_prps (drv_dma dr) (dma w2) ((length data + 4095) div 4096)
        (fst (pointers dr (length data))) (snd (pointers dr (length data))) =
        map (\<lambda>i. physical_address (drv_dma dr) + of_nat (0x5000 + 4096 * i)) [0..<(length data + 4095) div 4096]"
    using pointers_on_disk [OF up idle1, of ?len "length data"] unfolding good(2) data1 by blast
  obtain p1 p2 where p: "pointers dr (length data) = (p1, p2)" by (cases "pointers dr (length data)")
  let ?c = "nvme_write (drv_nsid dr) lba (ucast (?len div ?bs) - 1) p1 p2"
  let ?e = "?c\<lparr>sqe_cid := next_cid (io_queue dr)\<rparr>"
  note cmd = write_command [OF up p data, where lba = lba and cid = "next_cid (io_queue dr)"]
  have proper: "proper ns (drv_dma dr) (dma w2) ?e"
    by (rule proper_transfer [OF cmd(5) _ cmd(3) data(3) cmd(6)]) (use cmd(4) ptr(4) in \<open>simp_all add: nvme_write_def p\<close>)
  obtain c dr' w' K' where chk: "io_channel.checked D ?c ''Write'' (dr, w2) =
      (if is_success c then Ok () else Err (CommandFailed ''Write'' (status_code_type c) (status_code c)),
       (dr', w'))" and att': "attached D ns latency idle busy K' (dr', w')"
    and fin: "done_on_disk ns ?e K (dma w2) K' (dma w') c"
    using checked_on_disk [OF up at ptr(2) proper, of "''Write''"] by blast
  have "driver_write D lba data (dr, w) =
      transfer_write D dr (drv_nsid dr) lba data ?len (?len div ?bs) (dr, w)" by (rule good(1))
  also have "\<dots> = io_channel.checked D ?c ''Write'' (dr, w2)"
    by (simp add: transfer_write_def io_channel.checked_def [symmetric] run_simps wr ptr(1) p)
  finally show ?thesis
    using fin att' unfolding done_on_disk_def cmd(1-4) ptr(3)
    by (simp add: chk answer_def split: if_splits)
qed

lemma read_on_disk:
  assumes att: "attached D ns latency idle busy K (dr, w)"
    and n: "0 < n" "ns_block_size ns * unat n \<le> 0x1FB000"
  shows "answer (fst (driver_read D lba n (dr, w))) =
      (if in_capacity ns lba (unat n) then Some (load K (disk_pos ns lba) (ns_block_size ns * unat n)) else None) \<and>
    attached D ns latency idle busy K (snd (driver_read D lba n (dr, w)))"
proof -
  have up: "set_up D ns latency idle busy dr" using att by (simp add: attached_def)
  obtain m where at: "at_counts (io_queue dr) m m" and idle: "idle m K (dev w) (dma w)"
    using att by (auto simp: attached_def)
  note ctl = set_upD(2) [OF up, unfolded storage_controller_def] and ok = set_upD(1) [OF up] and size = set_upD(6) [OF up]
  let ?bs = "of_nat (ns_block_size ns) :: usize"
  let ?len = "?bs * ucast n" and ?n = "ns_block_size ns * unat n"
  note good = run_read_good [OF set_upD(5) [OF up] n(1), unfolded size, OF n(2)]
  have "0 < ns_block_size ns * unat n"
    using n(1) set_upD(7) [OF up] by (simp add: word_less_nat_alt)
  then have "0 < unat ?len" "unat ?len \<le> 0x1FB000" using n(2) by (simp_all only: good(2))
  then obtain w2 where ptr: "data_pointers D dr ?len w = (Ok (pointers dr ?n), w2)"
      "idle m K (dev w2) (dma w2)"
      "walk_prps (drv_dma dr) (dma w2) ((?n + 4095) div 4096) (fst (pointers dr ?n)) (snd (pointers dr ?n)) =
        map (\<lambda>i. physical_address (drv_dma dr) + of_nat (0x5000 + 4096 * i)) [0..<(?n + 4095) div 4096]"
    using pointers_on_disk [OF up idle, of ?len] unfolding good(2) by blast
  obtain p1 p2 where p: "pointers dr ?n = (p1, p2)" by (cases "pointers dr ?n")
  let ?c = "nvme_read (drv_nsid dr) lba (n - 1) p1 p2"
  let ?e = "?c\<lparr>sqe_cid := next_cid (io_queue dr)\<rparr>"
  note cmd = read_command [OF up p n(1), where lba = lba and cid = "next_cid (io_queue dr)"]
  have proper: "proper ns (drv_dma dr) (dma w2) ?e"
    by (rule proper_transfer [OF cmd(5) _ cmd(3) n(2) cmd(6)]) (use cmd(4) ptr(3) in \<open>simp_all add: nvme_read_def p\<close>)
  obtain c dr' w' K' m' where chk: "io_channel.checked D ?c ''Read'' (dr, w2) =
      (if is_success c then Ok () else Err (CommandFailed ''Read'' (status_code_type c) (status_code c)),
       (dr', w'))" and att': "drv_dma dr' = drv_dma dr" "attached D ns latency idle busy K' (dr', w')"
    and idle': "idle m' K' (dev w') (dma w')" and fin: "done_on_disk ns ?e K (dma w2) K' (dma w') c"
    using checked_on_disk [OF up at ptr(2) proper, of "''Read''"] by blast
  have "check_bytes (drv_dma dr) DATA_OFFSET ?len = Ok ()"
    using data_area [OF driver_at_self [OF ok] n(2)] by (simp only: check_bytes_Ok good(2))
  then have rd: "read_bytes D (drv_dma dr) DATA_OFFSET ?len w' =
      (Ok (load (dma w') 0x5000 ?n), step_device D w')"
    using step_idle(1) [OF ctl, OF idle'] by (simp add: read_bytes_def run_simps DATA_OFFSET_def good(2))
  have att2: "attached D ns latency idle busy K' (dr', step_device D w')"
    using att' step_idle [OF ctl] by (auto simp: attached_def)
  have "driver_read D lba n (dr, w) = transfer_read D dr (drv_nsid dr) lba n ?len (dr, w)" by (rule good(1))
  also have "\<dots> = andthen (io_channel.checked D ?c ''Read'')
      (\<lambda>_. on_snd (read_bytes D (drv_dma dr) DATA_OFFSET ?len)) (dr, w2)"
    by (simp add: transfer_read_def io_channel.then_checked run_simps ptr(1) p)
  finally show ?thesis
    using fin att'(2) att2 unfolding done_on_disk_def cmd(1-4)
    by (simp add: run_andthen chk answer_def run_on_snd rd split: if_splits)
qed

section \<open>Any transfer\<close>

text \<open>The length of the data is a \<open>usize\<close>, as that of every slice is.\<close>

definition sized :: "transfer \<Rightarrow> bool" where
  "sized t \<longleftrightarrow> (case t of ReadBlocks lba n \<Rightarrow> True | WriteBlocks lba data \<Rightarrow> length data < 2 ^ 64)"

lemma read_step_on_disk:
  assumes att: "attached D ns latency idle busy K (dr, w)"
  shows "answer (fst (driver_read D lba n (dr, w))) = fst (disk_step ns (ReadBlocks lba n) K) \<and>
    attached D ns latency idle busy K (snd (driver_read D lba n (dr, w)))"
proof (cases "n = 0 \<or> 0x1FB000 < ns_block_size ns * unat n")
  case True
  have up: "set_up D ns latency idle busy dr" using att by (simp add: attached_def)
  have "unat n < 2 ^ 16" using unsigned_less [of n] by simp
  then have "ns_block_size ns * unat n \<le> 2 ^ 32 * 2 ^ 16"
    using up by (intro mult_le_mono) (simp_all add: set_up_def)
  then have "ns_block_size ns * unat n < 2 ^ 64" by simp
  then have "\<exists>x. driver_read D lba n (dr, w) = (Err x, (dr, w))"
    using True bad_transfers [OF set_upD(5,10) [OF up], of "[]" D lba w n, unfolded set_upD(6) [OF up]]
    by (auto simp: word_gt_0)
  with True att show ?thesis by (auto simp: answer_def)
next
  case False
  then have "0 < n" "ns_block_size ns * unat n \<le> 0x1FB000" by (auto simp: word_gt_0)
  from read_on_disk [OF att this, of lba] False show ?thesis by simp
qed

lemma write_step_on_disk:
  assumes att: "attached D ns latency idle busy K (dr, w)" and "length data < 2 ^ 64"
  shows "map_option (\<lambda>_. []) (answer (fst (driver_write D lba data (dr, w)))) =
      fst (disk_step ns (WriteBlocks lba data) K) \<and>
    attached D ns latency idle busy (snd (disk_step ns (WriteBlocks lba data) K))
      (snd (driver_write D lba data (dr, w)))"
proof (cases "data = [] \<or> length data mod ns_block_size ns \<noteq> 0 \<or> 0x1FB000 < length data")
  case True
  have up: "set_up D ns latency idle busy dr" using att by (simp add: attached_def)
  have "\<exists>x. driver_write D lba data (dr, w) = (Err x, (dr, w))"
    using True bad_transfers [OF set_upD(5,10) [OF up] assms(2), of D lba w 0, unfolded set_upD(6) [OF up]]
    by auto
  with True att show ?thesis by (auto simp: answer_def)
next
  case False
  then have "data \<noteq> []" "length data mod ns_block_size ns = 0" "length data \<le> 0x1FB000" by auto
  from write_on_disk [OF att this, of lba] False show ?thesis by (auto split: if_splits)
qed

lemma driver_step_on_disk:
  assumes "attached D ns latency idle busy K s" and "sized t"
  shows "answer (fst (driver_step D t s)) = fst (disk_step ns t K) \<and>
    attached D ns latency idle busy (snd (disk_step ns t K)) (snd (driver_step D t s))"
proof (cases t)
  case (ReadBlocks lba n)
  have "snd (disk_step ns (ReadBlocks lba n) K) = K" by simp
  then show ?thesis using read_step_on_disk [of D ns latency idle busy K "fst s" "snd s" lba n] assms(1)
    by (simp add: ReadBlocks del: disk_step.simps)
next
  case (WriteBlocks lba data)
  have "answer (fst (driver_step D t s)) = map_option (\<lambda>_. []) (answer (fst (driver_write D lba data s)))"
    "snd (driver_step D t s) = snd (driver_write D lba data s)"
    by (simp_all add: WriteBlocks run_simps answer_def split: outcome.split)
  then show ?thesis
    using write_step_on_disk [of D ns latency idle busy K "fst s" "snd s" data lba] assms
    by (simp add: WriteBlocks sized_def del: disk_step.simps)
qed

end
