(* ===== verification/Rust_Text.thy ===== *)
theory Rust_Text
  imports Nvme_Prelude
begin

text \<open>
  The parts of Rust's string library the binaries use, on texts as lists of Unicode scalar
  values: whitespace splitting and trimming, parsing and printing unsigned integers, UTF-8
  encoding and byte offsets, padding.
\<close>

unbundle bit_operations_syntax

section \<open>Whitespace\<close>

text \<open>\<open>char::is_whitespace\<close>: the Unicode property White\_Space.\<close>

definition is_whitespace :: "nat \<Rightarrow> bool" where
  "is_whitespace c \<longleftrightarrow> 9 \<le> c \<and> c \<le> 13 \<or> c = 32 \<or> c = 0x85 \<or> c = 0xA0 \<or> c = 0x1680 \<or>
     0x2000 \<le> c \<and> c \<le> 0x200A \<or> c = 0x2028 \<or> c = 0x2029 \<or> c = 0x202F \<or> c = 0x205F \<or> c = 0x3000"

function split_whitespace :: "rtext \<Rightarrow> rtext list" where
  "split_whitespace s =
     (let t = dropWhile is_whitespace s in
      if t = [] then []
      else takeWhile (Not \<circ> is_whitespace) t # split_whitespace (dropWhile (Not \<circ> is_whitespace) t))"
  by pat_completeness auto
termination
proof (relation "measure length")
  fix s t :: rtext
  assume t: "t = dropWhile is_whitespace s" and ne: "t \<noteq> []"
  then have "\<not> is_whitespace (hd t)" using hd_dropWhile by metis
  then have "dropWhile (Not \<circ> is_whitespace) t = dropWhile (Not \<circ> is_whitespace) (tl t)"
    using ne by (cases t) simp_all
  then have "length (dropWhile (Not \<circ> is_whitespace) t) \<le> length (tl t)"
    using length_dropWhile_le [of "Not \<circ> is_whitespace" "tl t"] by (simp only:)
  moreover have "length t \<le> length s" unfolding t by (rule length_dropWhile_le)
  ultimately show "(dropWhile (Not \<circ> is_whitespace) t, s) \<in> measure length"
    using ne by (cases t) simp_all
qed simp

declare split_whitespace.simps [simp del]

definition trim :: "rtext \<Rightarrow> rtext" where
  "trim s = rev (dropWhile is_whitespace (rev (dropWhile is_whitespace s)))"

text \<open>\<open>[a, b, c].join(sep)\<close>.\<close>

fun join :: "rtext \<Rightarrow> rtext list \<Rightarrow> rtext" where
  "join sep [] = []"
| "join sep [t] = t"
| "join sep (t # u # ts) = t @ sep @ join sep (u # ts)"

section \<open>Numbers\<close>

text \<open>
  \<open>str::parse\<close> of an unsigned type with maximum \<open>bound - 1\<close>: one optional plus sign, then at
  least one decimal digit and nothing else, and the value must fit.
\<close>

definition is_digit :: "nat \<Rightarrow> bool" where "is_digit c \<longleftrightarrow> 48 \<le> c \<and> c \<le> 57"

definition digits_value :: "rtext \<Rightarrow> nat" where
  "digits_value = foldl (\<lambda>n c. n * 10 + (c - 48)) 0"

definition parse_uint :: "nat \<Rightarrow> rtext \<Rightarrow> nat option" where
  "parse_uint bound s =
     (let ds = (case s of c # cs \<Rightarrow> if c = 43 then cs else s | [] \<Rightarrow> [])
      in if ds \<noteq> [] \<and> list_all is_digit ds \<and> digits_value ds < bound then Some (digits_value ds) else None)"

text \<open>\<open>to_string\<close> and the display of an unsigned integer.\<close>

fun dec :: "nat \<Rightarrow> rtext" where
  "dec n = (if n < 10 then [48 + n] else dec (n div 10) @ [48 + n mod 10])"

declare dec.simps [simp del]

text \<open>Lower-case hexadecimal, at least \<open>w\<close> digits (\<open>{:#06x}\<close> is \<open>0x\<close> and at least four digits).\<close>

definition hex_digit :: "nat \<Rightarrow> nat" where "hex_digit n = (if n < 10 then 48 + n else 87 + n)"

fun hex :: "nat \<Rightarrow> rtext" where
  "hex n = (if n < 16 then [hex_digit n] else hex (n div 16) @ [hex_digit (n mod 16)])"

declare hex.simps [simp del]

definition hex_padded :: "nat \<Rightarrow> nat \<Rightarrow> rtext" where
  "hex_padded w n = replicate (w - length (hex n)) 48 @ hex n"

text \<open>\<open>{:>w}\<close>.\<close>

definition right_aligned :: "nat \<Rightarrow> rtext \<Rightarrow> rtext" where
  "right_aligned w s = replicate (w - length s) 32 @ s"

section \<open>UTF-8\<close>

definition utf8_char :: "nat \<Rightarrow> u8 list" where
  "utf8_char c =
     (if c < 0x80 then [of_nat c]
      else if c < 0x800 then [of_nat (0xC0 + c div 64), of_nat (0x80 + c mod 64)]
      else if c < 0x10000 then
        [of_nat (0xE0 + c div 4096), of_nat (0x80 + c div 64 mod 64), of_nat (0x80 + c mod 64)]
      else
        [of_nat (0xF0 + c div 262144), of_nat (0x80 + c div 4096 mod 64),
         of_nat (0x80 + c div 64 mod 64), of_nat (0x80 + c mod 64)])"

definition as_bytes :: "rtext \<Rightarrow> u8 list" where
  "as_bytes s = concat (map utf8_char s)"

abbreviation utf8_len :: "nat \<Rightarrow> nat" where "utf8_len c \<equiv> length (utf8_char c)"

text \<open>
  \<open>String::from_utf8_lossy\<close>: valid sequences are decoded, and each maximal part of an invalid
  one becomes a replacement character.
\<close>

definition continuation :: "nat \<Rightarrow> bool" where "continuation b \<longleftrightarrow> 0x80 \<le> b \<and> b \<le> 0xBF"

definition second_byte :: "nat \<Rightarrow> nat \<Rightarrow> bool" where
  "second_byte b c \<longleftrightarrow>
     (if b = 0xE0 then 0xA0 \<le> c \<and> c \<le> 0xBF else if b = 0xED then 0x80 \<le> c \<and> c \<le> 0x9F
      else if b = 0xF0 then 0x90 \<le> c \<and> c \<le> 0xBF else if b = 0xF4 then 0x80 \<le> c \<and> c \<le> 0x8F
      else continuation c)"

fun lossy :: "nat list \<Rightarrow> rtext" where
  "lossy [] = []"
| "lossy (b # bs) =
     (if b < 0x80 then b # lossy bs
      else if 0xC2 \<le> b \<and> b \<le> 0xDF then
        (case bs of [] \<Rightarrow> [0xFFFD]
         | c # r \<Rightarrow>
             if continuation c then ((b - 0xC0) * 64 + (c - 0x80)) # lossy r else 0xFFFD # lossy bs)
      else if 0xE0 \<le> b \<and> b \<le> 0xEF then
        (case bs of [] \<Rightarrow> [0xFFFD]
         | c # r \<Rightarrow>
             if second_byte b c then
               (case r of [] \<Rightarrow> [0xFFFD]
                | d # r' \<Rightarrow>
                    if continuation d then ((b - 0xE0) * 4096 + (c - 0x80) * 64 + (d - 0x80)) # lossy r'
                    else 0xFFFD # lossy r)
             else 0xFFFD # lossy bs)
      else if 0xF0 \<le> b \<and> b \<le> 0xF4 then
        (case bs of [] \<Rightarrow> [0xFFFD]
         | c # r \<Rightarrow>
             if second_byte b c then
               (case r of [] \<Rightarrow> [0xFFFD]
                | d # r' \<Rightarrow>
                    if continuation d then
                      (case r' of [] \<Rightarrow> [0xFFFD]
                       | e # r'' \<Rightarrow>
                           if continuation e then
                             ((b - 0xF0) * 262144 + (c - 0x80) * 4096 + (d - 0x80) * 64 + (e - 0x80)) # lossy r''
                           else 0xFFFD # lossy r')
                    else 0xFFFD # lossy r)
             else 0xFFFD # lossy bs)
      else 0xFFFD # lossy bs)"

definition from_utf8_lossy :: "u8 list \<Rightarrow> rtext" where
  "from_utf8_lossy bs = lossy (map unat bs)"

text \<open>
  \<open>&s[..pos]\<close> and \<open>&s[pos..]\<close> at a byte offset: \<open>None\<close> when the offset is not on a character
  boundary, where Rust panics.
\<close>

fun split_at_byte :: "rtext \<Rightarrow> nat \<Rightarrow> (rtext \<times> rtext) option" where
  "split_at_byte s 0 = Some ([], s)"
| "split_at_byte [] (Suc n) = None"
| "split_at_byte (c # s) (Suc n) =
     (if utf8_len c \<le> Suc n then map_option (\<lambda>(a, b). (c # a, b)) (split_at_byte s (Suc n - utf8_len c))
      else None)"

section \<open>Facts about splitting and numbers\<close>

definition word_text :: "rtext \<Rightarrow> bool" where
  "word_text t \<longleftrightarrow> t \<noteq> [] \<and> list_all (Not \<circ> is_whitespace) t"

lemma split_whitespace_Nil [simp]: "split_whitespace [] = []"
  by (simp add: split_whitespace.simps)

lemma split_whitespace_space: "is_whitespace c \<Longrightarrow> split_whitespace (c # s) = split_whitespace s"
  by (subst (1 2) split_whitespace.simps) simp

lemma split_whitespace_word:
  assumes "word_text t" and "s = [] \<or> is_whitespace (hd s)"
  shows "split_whitespace (t @ s) = t # split_whitespace s"
proof -
  obtain c t' where t: "t = c # t'" "\<not> is_whitespace c" "list_all (Not \<circ> is_whitespace) t"
    using assms(1) by (cases t) (auto simp: word_text_def)
  have "takeWhile (Not \<circ> is_whitespace) (t @ s) = t"
    using t(3) assms(2) by (cases s) (auto simp: list_all_iff takeWhile_append)
  moreover have "dropWhile (Not \<circ> is_whitespace) (t @ s) = s"
    using t(3) assms(2) by (cases s) (auto simp: list_all_iff dropWhile_append)
  moreover have "dropWhile is_whitespace (t @ s) = t @ s" using t(1,2) by simp
  ultimately show ?thesis using t(1) by (subst split_whitespace.simps) (simp add: Let_def)
qed

lemma split_whitespace_join:
  "list_all word_text ts \<Longrightarrow> split_whitespace (join [32] ts) = ts"
proof (induction "[32] :: rtext" ts rule: join.induct)
  case 1
  then show ?case by simp
next
  case (2 t)
  then show ?case using split_whitespace_word [of t "[]"] by simp
next
  case (3 t u ts)
  have "split_whitespace (t @ [32] @ join [32] (u # ts)) = t # split_whitespace ([32] @ join [32] (u # ts))"
    using 3 by (intro split_whitespace_word) (simp_all add: is_whitespace_def)
  also have "split_whitespace ([32] @ join [32] (u # ts)) = split_whitespace (join [32] (u # ts))"
    by (simp add: split_whitespace_space is_whitespace_def)
  finally show ?case using 3 by simp
qed

lemma split_whitespace_words: "list_all word_text (split_whitespace s)"
proof (induction s rule: split_whitespace.induct)
  case (1 s)
  let ?t = "dropWhile is_whitespace s"
  show ?case
  proof (cases "?t = []")
    case True
    then show ?thesis by (subst split_whitespace.simps) simp
  next
    case False
    then have "\<not> is_whitespace (hd ?t)" by (rule hd_dropWhile)
    then have "word_text (takeWhile (Not \<circ> is_whitespace) ?t)"
      using False by (cases ?t) (auto simp: word_text_def list_all_iff dest: set_takeWhileD)
    then show ?thesis using False 1 [OF refl False] by (subst split_whitespace.simps) (simp add: Let_def)
  qed
qed

lemma digits_value_snoc: "digits_value (ds @ [c]) = digits_value ds * 10 + (c - 48)"
  by (simp add: digits_value_def)

lemma dec_digits: "list_all is_digit (dec n) \<and> dec n \<noteq> [] \<and> digits_value (dec n) = n"
proof (induction n rule: dec.induct)
  case (1 n)
  show ?case
  proof (cases "n < 10")
    case True
    then show ?thesis by (subst (1 2 3) dec.simps) (simp add: is_digit_def digits_value_def)
  next
    case False
    have "is_digit (48 + n mod 10)" by (simp add: is_digit_def)
    then show ?thesis
      using 1 False div_mult_mod_eq [of n 10]
      by (subst (1 2 3) dec.simps) (simp add: digits_value_snoc)
  qed
qed

lemma parse_dec: "n < bound \<Longrightarrow> parse_uint bound (dec n) = Some n"
  using dec_digits [of n] by (cases "dec n") (auto simp: parse_uint_def is_digit_def)

lemma dec_word_text: "word_text (dec n)"
  using dec_digits [of n] by (auto simp: word_text_def list_all_iff is_digit_def is_whitespace_def)

lemma parse_uint_Some:
  "parse_uint bound s = Some n \<Longrightarrow> n < bound"
  by (auto simp: parse_uint_def Let_def split: if_splits)

section \<open>Sizes in bytes\<close>

lemma as_bytes_simps [simp]:
  "as_bytes [] = []" "as_bytes (c # s) = utf8_char c @ as_bytes s" "as_bytes (s @ t) = as_bytes s @ as_bytes t"
  by (simp_all add: as_bytes_def)

lemma utf8_len_pos: "1 \<le> utf8_len c"
  by (simp add: utf8_char_def)

lemma length_join_Cons:
  "length (as_bytes (join [32] (t # ts))) =
     length (as_bytes t) + (if ts = [] then 0 else Suc (length (as_bytes (join [32] ts))))"
  by (cases ts) (simp_all add: utf8_char_def)

lemma join_drop_shorter: "length (as_bytes (join [32] (drop n ts))) \<le> length (as_bytes (join [32] ts))"
proof (induction n arbitrary: ts)
  case (Suc n)
  show ?case
  proof (cases ts)
    case (Cons t us)
    have "length (as_bytes (join [32] us)) \<le> length (as_bytes (join [32] ts))"
      by (simp add: Cons length_join_Cons)
    then show ?thesis using Suc [of us] by (simp add: Cons)
  qed simp
qed simp

lemma as_bytes_dropWhile: "length (as_bytes (dropWhile P s)) \<le> length (as_bytes s)"
  by (induction s) auto

lemma split_join_shorter: "length (as_bytes (join [32] (split_whitespace s))) \<le> length (as_bytes s)"
proof (induction "length s" arbitrary: s rule: less_induct)
  case less
  let ?t = "dropWhile is_whitespace s"
  let ?word = "takeWhile (Not \<circ> is_whitespace) ?t" and ?rest = "dropWhile (Not \<circ> is_whitespace) ?t"
  have t: "length (as_bytes ?t) \<le> length (as_bytes s)" by (rule as_bytes_dropWhile)
  have "as_bytes ?t = as_bytes (?word @ ?rest)" by simp
  then have parts: "length (as_bytes ?t) = length (as_bytes ?word) + length (as_bytes ?rest)"
    by (simp only: as_bytes_simps length_append)
  show ?case
  proof (cases "?t = []")
    case True
    then show ?thesis by (subst split_whitespace.simps) simp
  next
    case ne: False
    then have split: "split_whitespace s = ?word # split_whitespace ?rest"
      by (subst split_whitespace.simps) (simp add: Let_def)
    show ?thesis
    proof (cases ?rest)
      case Nil
      then show ?thesis using t parts by (simp only: split split_whitespace_Nil join.simps)
    next
      case (Cons c r)
      have "is_whitespace (hd ?rest)" using hd_dropWhile [of "Not \<circ> is_whitespace" ?t] Cons by simp
      then have skip: "split_whitespace ?rest = split_whitespace r"
        by (simp add: Cons split_whitespace_space)
      have "length ?rest \<le> length ?t" "length ?t \<le> length s" by (rule length_dropWhile_le)+
      then have "length r < length s" using Cons by simp
      from less [OF this] have "Suc (length (as_bytes (join [32] (split_whitespace r)))) \<le> length (as_bytes ?rest)"
        using utf8_len_pos [of c] by (simp add: Cons)
      then show ?thesis using t parts by (simp add: split length_join_Cons skip del: join.simps)
    qed
  qed
qed

lemma as_bytes_rev: "length (as_bytes (rev s)) = length (as_bytes s)"
  by (induction s) simp_all

lemma trim_shorter: "length (as_bytes (trim s)) \<le> length (as_bytes s)"
  unfolding trim_def as_bytes_rev
  by (metis as_bytes_dropWhile as_bytes_rev order_trans)

end
