(* ===== verification/Block_Map.thy ===== *)
theory Block_Map
  imports Rust_Text
begin

text \<open>
  \<open>FileBlocks\<close> of \<open>src/bin/nvmetoy_repl.rs\<close>: the block map of the one file the REPL may touch,
  its parser, and the guard that every read and write passes.
\<close>

record extent =
  ext_lba :: u64
  ext_count :: u64
  ext_unwritten :: bool

record file_blocks =
  device_lba_size :: u64
  extents :: "extent list"

section \<open>The guard\<close>

definition total_lbas :: "file_blocks \<Rightarrow> u64" where
  "total_lbas fb = sum_list (map ext_count (extents fb))"

definition covers :: "u64 \<Rightarrow> extent \<Rightarrow> bool" where
  "covers b e \<longleftrightarrow> ext_lba e \<le> b \<and> b < ext_lba e + ext_count e"

text \<open>The loop of \<open>check\<close>, at \<open>covered\<close>.\<close>

function check_from :: "extent list \<Rightarrow> u64 \<Rightarrow> u64 \<Rightarrow> unit outcome" where
  "check_from es stop covered =
     (if covered < stop then
        (case find (covers covered) es of
           None \<Rightarrow> Err (BlockNotInFile covered)
         | Some e \<Rightarrow> check_from es stop (ext_lba e + ext_count e))
      else Ok ())"
  by pat_completeness auto
termination
proof (relation "measure (\<lambda>(es, stop, covered). unat stop - unat covered)")
  fix es :: "extent list" and stop covered e
  assume "covered < stop" and "find (covers covered) es = Some e"
  then have "covered < ext_lba e + ext_count e" by (auto simp: find_Some_iff covers_def)
  with \<open>covered < stop\<close> show "((es, stop, ext_lba e + ext_count e), es, stop, covered)
      \<in> measure (\<lambda>(es, stop, covered). unat stop - unat covered)"
    by (simp add: word_less_nat_alt)
qed simp

declare check_from.simps [simp del]

definition blocks_check :: "file_blocks \<Rightarrow> u64 \<Rightarrow> u64 \<Rightarrow> unit outcome" where
  "blocks_check fb device_lba count =
     (if count = 0 then Ok ()
      else case checked_add device_lba count of
        None \<Rightarrow> Err RangeOverflows
      | Some stop \<Rightarrow> check_from (extents fb) stop device_lba)"

section \<open>Parsing\<close>

definition parse_u64 :: "rtext \<Rightarrow> u64 outcome" where
  "parse_u64 t = (case parse_uint (2 ^ 64) t of Some n \<Rightarrow> Ok (of_nat n) | None \<Rightarrow> Err (CannotParse t))"

definition parse_u8 :: "rtext \<Rightarrow> u8 outcome" where
  "parse_u8 t = (case parse_uint (2 ^ 8) t of Some n \<Rightarrow> Ok (of_nat n) | None \<Rightarrow> Err (CannotParse t))"

definition parse_u32 :: "rtext \<Rightarrow> u32 outcome" where
  "parse_u32 t = (case parse_uint (2 ^ 32) t of Some n \<Rightarrow> Ok (of_nat n) | None \<Rightarrow> Err (CannotParse t))"

text \<open>\<open>x?\<close> in a function without state.\<close>

definition obind :: "'a outcome \<Rightarrow> ('a \<Rightarrow> 'b outcome) \<Rightarrow> 'b outcome" where
  "obind r f = (case r of Ok x \<Rightarrow> f x | Err e \<Rightarrow> Err e | Panic p \<Rightarrow> Panic p)"

lemma obind_simps [simp]: "obind (Ok x) f = f x" "obind (Err e) f = Err e" "obind (Panic p) f = Panic p"
  by (simp_all add: obind_def)

definition parse_line :: "u64 \<times> extent list \<Rightarrow> rtext \<Rightarrow> (u64 \<times> extent list) outcome" where
  "parse_line acc line =
     (let (sz, es) = acc; fields = split_whitespace line in
      if fields = [txt_of ''nvmetoy-block-map'', txt_of ''1''] then Ok (sz, es)
      else case fields of
        [] \<Rightarrow> Ok (sz, es)
      | [key, value] \<Rightarrow>
          if key = txt_of ''device_lba_size'' then obind (parse_u64 value) (\<lambda>sz'. Ok (sz', es))
          else Err (MalformedMapLine line)
      | [device_lba, count, unwritten] \<Rightarrow>
          obind (parse_u64 device_lba) (\<lambda>a.
          obind (parse_u64 count) (\<lambda>n.
          obind (parse_u8 unwritten) (\<lambda>u.
          Ok (sz, es @ [\<lparr>ext_lba = a, ext_count = n, ext_unwritten = (u \<noteq> 0)\<rparr>]))))
      | _ \<Rightarrow> Err (MalformedMapLine line))"

text \<open>
  \<open>FileBlocks::parse\<close> on what the reader's line iterator yields: lines, or an I/O error where
  reading fails.
\<close>

fun parse_lines :: "u64 \<times> extent list \<Rightarrow> rtext outcome list \<Rightarrow> file_blocks outcome" where
  "parse_lines acc [] = Ok \<lparr>device_lba_size = fst acc, extents = snd acc\<rparr>"
| "parse_lines acc (line # lines) = obind line (\<lambda>l. obind (parse_line acc l) (\<lambda>acc'. parse_lines acc' lines))"

definition blocks_parse :: "rtext outcome list \<Rightarrow> file_blocks outcome" where
  "blocks_parse lines = parse_lines (0, []) lines"

section \<open>What the guard decides\<close>

text \<open>The blocks of the file, and the blocks of a range.\<close>

definition owned :: "file_blocks \<Rightarrow> u64 set" where
  "owned fb = {b. \<exists>e \<in> set (extents fb). covers b e}"

definition block_range :: "u64 \<Rightarrow> u64 \<Rightarrow> u64 set" where
  "block_range a n = {b. unat a \<le> unat b \<and> unat b < unat a + unat n}"

lemma check_from_cases:
  "case check_from es stop covered of
     Ok _ \<Rightarrow> {covered..<stop} \<subseteq> {b. \<exists>e \<in> set es. covers b e}
   | Err x \<Rightarrow> (\<exists>b. x = BlockNotInFile b \<and> covered \<le> b \<and> b < stop \<and> \<not> (\<exists>e \<in> set es. covers b e) \<and>
       {covered..<b} \<subseteq> {b. \<exists>e \<in> set es. covers b e})
   | Panic q \<Rightarrow> False"
proof (induction es stop covered rule: check_from.induct)
  case (1 es stop covered)
  show ?case
  proof (cases "covered < stop")
    case False
    then show ?thesis by (subst check_from.simps) auto
  next
    case less: True
    show ?thesis
    proof (cases "find (covers covered) es")
      case None
      then have "\<not> (\<exists>e \<in> set es. covers covered e)" by (auto simp: find_None_iff)
      with None less show ?thesis by (subst check_from.simps) simp
    next
      case (Some e)
      then have e: "e \<in> set es" "covers covered e" by (auto simp: find_Some_iff)
      let ?next = "ext_lba e + ext_count e"
      have later: "covered < ?next" using e(2) by (simp add: covers_def)
      have here: "{covered..<?next} \<subseteq> {b. \<exists>e \<in> set es. covers b e}"
        using e by (auto simp: covers_def intro!: bexI [OF _ e(1)])
      have split: "{covered..<x} \<subseteq> {covered..<?next} \<union> {?next..<x}" for x by auto
      have "check_from es stop covered = check_from es stop ?next"
        by (subst check_from.simps) (simp add: less Some)
      then show ?thesis
        using 1 [OF less Some] here later split
        by (auto split: outcome.splits simp: subset_iff) (meson less_imp_le less_le_trans not_le)+
    qed
  qed
qed

lemma mem_block_range: "unat a + unat n < 2 ^ 64 \<Longrightarrow> block_range a n = {a..<a + n}"
  for a n :: u64
  by (auto simp: block_range_def word_le_nat_alt word_less_nat_alt unat_add_no_wrap)

lemma blocks_check_cases:
  "case blocks_check fb lba count of
     Ok _ \<Rightarrow> block_range lba count \<subseteq> owned fb \<and> (count = 0 \<or> unat lba + unat count < 2 ^ 64)
   | Err x \<Rightarrow> 0 < count \<and>
       (if 2 ^ 64 \<le> unat lba + unat count then x = RangeOverflows
        else \<exists>b \<in> block_range lba count - owned fb. x = BlockNotInFile b \<and> {lba..<b} \<subseteq> owned fb)
   | Panic q \<Rightarrow> False"
proof (cases "count = 0")
  case True
  then show ?thesis by (auto simp: blocks_check_def block_range_def)
next
  case False
  then have pos: "0 < count" by (simp add: word_gt_0)
  show ?thesis
  proof (cases "unat lba + unat count < 2 ^ 64")
    case True
    then have c: "blocks_check fb lba count = check_from (extents fb) (lba + count) lba"
      using False by (simp add: blocks_check_def checked_add_def)
    have r: "block_range lba count = {lba..<lba + count}" using True by (simp add: mem_block_range)
    show ?thesis
      using check_from_cases [where es = "extents fb" and stop = "lba + count" and covered = lba] pos True
      by (auto simp: c r owned_def split: outcome.splits)
  qed (use False pos in \<open>simp add: blocks_check_def checked_add_def\<close>)
qed


lemma blocks_check_not_Panic [simp]: "blocks_check fb lba count \<noteq> Panic q"
  using blocks_check_cases [where fb = fb and lba = lba and count = count] by auto

lemma blocks_check_Ok: "blocks_check fb lba count = Ok () \<Longrightarrow> block_range lba count \<subseteq> owned fb"
  using blocks_check_cases [where fb = fb and lba = lba and count = count] by simp

section \<open>The file format\<close>

text \<open>The map as \<open>emit_block_map\<close> of \<open>nvmetoy.sh\<close> writes it, line by line.\<close>

definition extent_line :: "extent \<Rightarrow> rtext" where
  "extent_line e = join [32] [dec (unat (ext_lba e)), dec (unat (ext_count e)),
     dec (if ext_unwritten e then 1 else 0)]"

definition block_map_lines :: "file_blocks \<Rightarrow> rtext list" where
  "block_map_lines fb =
     [join [32] [txt_of ''nvmetoy-block-map'', txt_of ''1''],
      join [32] [txt_of ''device_lba_size'', dec (unat (device_lba_size fb))]] @
     map extent_line (extents fb)"

lemma keyword_words:
  "word_text (txt_of ''nvmetoy-block-map'')" "word_text (txt_of ''device_lba_size'')" "word_text (txt_of ''1'')"
  by (simp_all add: word_text_def is_whitespace_def)

lemma parse_u64_dec [simp]: "parse_u64 (dec (unat n)) = Ok n"
proof -
  have "unat n < 2 ^ 64" using unsigned_less [of n] by simp
  then show ?thesis by (simp add: parse_u64_def parse_dec)
qed

lemma dec_not_keyword: "dec n \<noteq> txt_of ''nvmetoy-block-map''" "txt_of ''device_lba_size'' \<noteq> dec n"
proof -
  have "\<not> list_all is_digit (txt_of ''nvmetoy-block-map'')" "\<not> list_all is_digit (txt_of ''device_lba_size'')"
    by (simp_all add: is_digit_def)
  then show "dec n \<noteq> txt_of ''nvmetoy-block-map''" "txt_of ''device_lba_size'' \<noteq> dec n"
    using dec_digits [of n] by metis+
qed

lemma parse_extent_line:
  "parse_line (sz, es) (extent_line e) = Ok (sz, es @ [e])"
proof -
  have "split_whitespace (extent_line e) = [dec (unat (ext_lba e)), dec (unat (ext_count e)),
     dec (if ext_unwritten e then 1 else 0)]"
    unfolding extent_line_def by (rule split_whitespace_join) (simp add: dec_word_text)
  moreover have "parse_u8 (dec (if ext_unwritten e then 1 else 0)) = Ok (if ext_unwritten e then 1 else 0)"
    by (simp add: parse_u8_def parse_dec)
  ultimately show ?thesis by (simp add: parse_line_def)
qed

lemma parse_extent_lines:
  "parse_lines (sz, es) (map (\<lambda>e. Ok (extent_line e)) xs) = Ok \<lparr>device_lba_size = sz, extents = es @ xs\<rparr>"
  by (induction xs arbitrary: es) (simp_all add: parse_extent_line)

lemma parse_block_map_lines: "blocks_parse (map Ok (block_map_lines fb)) = Ok fb"
proof -
  have head: "split_whitespace (join [32] [txt_of ''nvmetoy-block-map'', txt_of ''1'']) =
      [txt_of ''nvmetoy-block-map'', txt_of ''1'']"
    by (rule split_whitespace_join) (simp only: list.pred_inject keyword_words simp_thms)
  have size: "split_whitespace (join [32] [txt_of ''device_lba_size'', dec (unat (device_lba_size fb))]) =
      [txt_of ''device_lba_size'', dec (unat (device_lba_size fb))]"
    by (rule split_whitespace_join) (simp only: list.pred_inject keyword_words dec_word_text simp_thms)
  have "parse_line (0, []) (join [32] [txt_of ''nvmetoy-block-map'', txt_of ''1'']) = Ok (0, [])"
    by (simp only: parse_line_def head Let_def prod.case if_True simp_thms)
  moreover have "parse_line (0, []) (join [32] [txt_of ''device_lba_size'', dec (unat (device_lba_size fb))]) =
      Ok (device_lba_size fb, [])"
    by (simp only: parse_line_def size Let_def prod.case list.case) simp
  ultimately show ?thesis
    using parse_extent_lines [of "device_lba_size fb" "[]" "extents fb"]
    by (simp add: blocks_parse_def block_map_lines_def comp_def del: join.simps)
qed

text \<open>
  C26: Reading a written block map gives the map back: the header line, the block size line and
  one line of three decimal numbers per extent parse to exactly the same block size and the
  same extents in the same order, for all values of the 64-bit fields.
\<close>

theorem block_map_roundtrip: "blocks_parse (map Ok (block_map_lines fb)) = Ok fb"
  by (rule parse_block_map_lines)

end
