(* ===== verification/Identify.thy ===== *)
theory Identify
  imports Machine Rust_Text
begin

text \<open>
  \<open>src/nvme_identify.rs\<close>: printing the Identify Controller data. Each \<open>println!\<close> is one
  \<open>Print\<close> event with the text of the line.
\<close>

unbundle bit_operations_syntax

definition println :: "rtext \<Rightarrow> ('d world, unit) prog" where
  "println t = emit (Print t)"

fun print_lines :: "rtext list \<Rightarrow> ('d world, unit) prog" where
  "print_lines [] = ret ()"
| "print_lines (t # ts) = andthen (println t) (\<lambda>_. print_lines ts)"

definition ascii_field :: "u8 list \<Rightarrow> rtext" where
  "ascii_field bytes = trim (from_utf8_lossy bytes)"

definition flags :: "u32 \<Rightarrow> (nat \<times> string) list \<Rightarrow> rtext" where
  "flags v bits =
     (let names = map (txt_of \<circ> snd) (filter (\<lambda>(bit, _). v AND shl_masked 1 bit \<noteq> 0) bits)
      in if names = [] then txt_of ''(none)'' else join (txt_of '', '') names)"

text \<open>The tables of the capability lines.\<close>

definition oacs_names :: "(nat \<times> string) list" where
  "oacs_names =
     [(0, ''Security Send/Receive''), (1, ''Format NVM''), (2, ''Firmware Download/Commit''),
      (3, ''Namespace Management''), (4, ''Device Self-test''), (5, ''Directives''),
      (6, ''NVMe-MI Send/Receive''), (7, ''Virtualization Management''),
      (8, ''Doorbell Buffer Config''), (9, ''Get LBA Status'')]"

definition oncs_names :: "(nat \<times> string) list" where
  "oncs_names =
     [(0, ''Compare''), (1, ''Write Uncorrectable''), (2, ''Dataset Management''),
      (3, ''Write Zeroes''), (4, ''Save/Select in Features''), (5, ''Reservations''),
      (6, ''Timestamp''), (7, ''Verify''), (8, ''Copy'')]"

definition oaes_names :: "(nat \<times> string) list" where
  "oaes_names =
     [(8, ''Namespace Attribute Notices''), (9, ''Firmware Activation Notices''),
      (11, ''ANA Change Notices''), (12, ''Predictable Latency Aggregate Log Change''),
      (13, ''LBA Status Information Notices''), (14, ''Endurance Group Aggregate Log Change''),
      (31, ''Zone Descriptor Changed'')]"

definition ctratt_names :: "(nat \<times> string) list" where
  "ctratt_names =
     [(0, ''128-bit Host Identifier''), (1, ''Non-Operational Power State Permissive''),
      (2, ''NVM Sets''), (3, ''Read Recovery Levels''), (4, ''Endurance Groups''),
      (5, ''Predictable Latency Mode''), (6, ''Traffic Based Keep Alive''),
      (7, ''Namespace Granularity''), (8, ''SQ Associations''), (9, ''UUID List'')]"

definition lpa_names :: "(nat \<times> string) list" where
  "lpa_names =
     [(0, ''SMART/Health per-namespace''), (1, ''Commands Supported and Effects''),
      (2, ''Extended Get Log Page''), (3, ''Telemetry''), (4, ''Persistent Event'')]"

definition fna_names :: "(nat \<times> string) list" where
  "fna_names =
     [(0, ''Format applies to all namespaces''), (1, ''Secure erase applies to all namespaces''),
      (2, ''Cryptographic erase'')]"

definition sgls_names :: "(nat \<times> string) list" where
  "sgls_names =
     [(2, ''Keyed SGL Data Block''), (16, ''Bit Bucket descriptor''),
      (17, ''Byte-aligned metadata buffer''), (18, ''Oversized SGL length''),
      (19, ''MPTR SGL descriptor''), (20, ''Address as offset''), (21, ''Transport SGL Data Block'')]"

text \<open>Fields of the structure, as numbers and as byte runs.\<close>

definition id8 :: "u8 list \<Rightarrow> string \<Rightarrow> u8" where "id8 d f = field_le identify_controller f d"
definition id16 :: "u8 list \<Rightarrow> string \<Rightarrow> u16" where "id16 d f = field_le identify_controller f d"
definition id32 :: "u8 list \<Rightarrow> string \<Rightarrow> u32" where "id32 d f = field_le identify_controller f d"
definition idbytes :: "u8 list \<Rightarrow> string \<Rightarrow> u8 list" where "idbytes d f = field_bytes identify_controller f d"

definition hex4 :: "u16 \<Rightarrow> rtext" where "hex4 v = txt_of ''0x'' @ hex_padded 4 (unat v)"
definition hex2 :: "u8 \<Rightarrow> rtext" where "hex2 v = hex_padded 2 (unat v)"

definition identification_section :: "u8 list \<Rightarrow> rtext list" where
  "identification_section d =
     (let version = id32 d ''ver''; ieee = idbytes d ''ieee'' in
      [[], txt_of ''=== Identification ==='',
       txt_of ''PCI Vendor (VID)        : '' @ hex4 (id16 d ''vid''),
       txt_of ''PCI Subsys Vendor(SSVID): '' @ hex4 (id16 d ''ssvid''),
       txt_of ''Model (MN)              : '' @ ascii_field (idbytes d ''mn''),
       txt_of ''Serial (SN)             : '' @ ascii_field (idbytes d ''sn''),
       txt_of ''Firmware (FR)           : '' @ ascii_field (idbytes d ''fr''),
       txt_of ''IEEE OUI                : '' @ hex2 (ieee ! 2) @ txt_of ''-'' @ hex2 (ieee ! 1) @
         txt_of ''-'' @ hex2 (ieee ! 0),
       txt_of ''Controller ID (CNTLID)  : '' @ hex4 (id16 d ''cntlid''),
       txt_of ''NVMe Version (VER)      : '' @ dec (unat (drop_bit 16 version)) @ txt_of ''.'' @
         dec (unat (drop_bit 8 version AND 0xFF)) @ txt_of ''.'' @ dec (unat (version AND 0xFF))])"

definition limits_section :: "u8 list \<Rightarrow> rtext list" where
  "limits_section d =
     (let mdts = id8 d ''mdts''; sqes = id8 d ''sqes''; cqes = id8 d ''cqes'' in
      [[], txt_of ''=== Limits ==='',
       (if mdts = 0 then txt_of ''Max Data Transfer(MDTS) : no limit''
        else txt_of ''Max Data Transfer(MDTS) : 2^'' @ dec (unat mdts) @ txt_of '' pages''),
       txt_of ''Number of Namespaces(NN): '' @ dec (unat (id32 d ''nn'')),
       txt_of ''SQ Entry Size (SQES)    : min 2^'' @ dec (unat (sqes AND 0xF)) @ txt_of '', max 2^'' @
         dec (unat (drop_bit 4 sqes)) @ txt_of '' bytes'',
       txt_of ''CQ Entry Size (CQES)    : min 2^'' @ dec (unat (cqes AND 0xF)) @ txt_of '', max 2^'' @
         dec (unat (drop_bit 4 cqes)) @ txt_of '' bytes'',
       txt_of ''Max Outstanding(MAXCMD) : '' @ dec (unat (id16 d ''maxcmd'')),
       txt_of ''Abort Command Limit(ACL): '' @ dec (unat (ucast (id8 d ''acl'') + 1 :: u32)),
       txt_of ''Async Event Limit(AERL) : '' @ dec (unat (ucast (id8 d ''aerl'') + 1 :: u32)),
       txt_of ''Power States (NPSS)     : '' @ dec (unat (ucast (id8 d ''npss'') + 1 :: u32))])"

definition capabilities_section :: "u8 list \<Rightarrow> rtext list" where
  "capabilities_section d =
     (let firmware = (ucast (id8 d ''frmw'') :: u32); sgl = id32 d ''sgls'' in
      [[], txt_of ''=== Capabilities ==='',
       txt_of ''Admin commands (OACS)   : '' @ flags (ucast (id16 d ''oacs'')) oacs_names,
       txt_of ''NVM commands (ONCS)     : '' @ flags (ucast (id16 d ''oncs'')) oncs_names,
       txt_of ''Async events (OAES)     : '' @ flags (id32 d ''oaes'') oaes_names,
       txt_of ''Attributes (CTRATT)     : '' @ flags (id32 d ''ctratt'') ctratt_names,
       txt_of ''Firmware (FRMW)         : '' @ dec (unat (drop_bit 1 firmware AND 0x7)) @ txt_of '' slots, '' @
         txt_of (if firmware AND 1 \<noteq> 0 then ''slot 1 read-only'' else ''slot 1 writable'') @
         txt_of (if firmware AND shl_masked 1 4 \<noteq> 0 then '', activate without reset'' else []),
       txt_of ''Log pages (LPA)         : '' @ flags (ucast (id8 d ''lpa'')) lpa_names,
       txt_of ''Format (FNA)            : '' @ flags (ucast (id8 d ''fna'')) fna_names,
       txt_of ''Volatile Write Cache    : '' @
         txt_of (if id8 d ''vwc'' AND 1 \<noteq> 0 then ''present'' else ''not present''),
       txt_of ''SGL Support (SGLS)      : '' @
         txt_of (if sgl AND 3 = 0 then ''not supported''
           else if sgl AND 3 = 1 then ''supported, no alignment requirement''
           else if sgl AND 3 = 2 then ''supported, dword aligned'' else ''reserved'')] @
      (if sgl AND 3 \<noteq> 0
       then [txt_of ''SGL Features (SGLS)     : '' @ flags sgl sgls_names] else []))"

definition print_controller_identification :: "u8 list \<Rightarrow> ('d world, unit) prog" where
  "print_controller_identification data =
     (case read_from_prefix identify_controller data of
        None \<Rightarrow> fail IdentifyControllerTooShort
      | Some d \<Rightarrow> print_lines (identification_section d @ limits_section d @ capabilities_section d))"

section \<open>What is printed\<close>

lemma run_print_lines: "print_lines ts w = (Ok (), w\<lparr>log := log w @ map Print ts\<rparr>)"
  by (induction ts arbitrary: w) (simp_all add: println_def run_andthen run_ret run_access)

lemma shl_one_bit: "v AND shl_masked 1 n \<noteq> 0 \<longleftrightarrow> bit v n" if "n < 32" for v :: u32
  using that by (simp add: shl_masked_def and_exp_eq_0_iff_not_bit push_bit_of_1 del: push_bit_eq_mult)

lemma flags_bits:
  assumes "list_all (\<lambda>(n, name). n < 32) bits"
  shows "flags v bits = (let names = [txt_of name. (n, name) \<leftarrow> bits, bit v n]
     in if names = [] then txt_of ''(none)'' else join (txt_of '', '') names)"
proof -
  have "map (txt_of \<circ> snd) (filter (\<lambda>(bit, _). v AND shl_masked 1 bit \<noteq> 0) bits) =
      [txt_of name. (n, name) \<leftarrow> bits, bit v n]"
    using assms
  proof (induction bits)
    case (Cons p bits)
    then show ?case using shl_one_bit [of "fst p" v] by (cases p) simp
  qed simp
  then show ?thesis by (simp only: flags_def)
qed

lemma tables_in_range:
  "list_all (\<lambda>(n, name). n < 32) oacs_names" "list_all (\<lambda>(n, name). n < 32) oncs_names"
  "list_all (\<lambda>(n, name). n < 32) oaes_names" "list_all (\<lambda>(n, name). n < 32) ctratt_names"
  "list_all (\<lambda>(n, name). n < 32) lpa_names" "list_all (\<lambda>(n, name). n < 32) fna_names"
  "list_all (\<lambda>(n, name). n < 32) sgls_names"
  by (simp_all add: oacs_names_def oncs_names_def oaes_names_def ctratt_names_def lpa_names_def
      fna_names_def sgls_names_def)

lemma identify_offsets:
  "map_of (layout_from 0 identify_controller) ''ver'' = Some (80, 4)"
  "map_of (layout_from 0 identify_controller) ''sgls'' = Some (536, 4)"
  "map_of (layout_from 0 identify_controller) ''oaes'' = Some (92, 4)"
  by (simp_all add: identify_controller_def round_up_def)

lemma identification_lines:
  assumes "4096 \<le> length data"
  shows "\<exists>ls. print_controller_identification data w = (Ok (), w\<lparr>log := log w @ map Print ls\<rparr>) \<and>
       length ls = (if (of_le (take 4 (drop 536 data)) :: u32) AND 3 = 0 then 31 else 32) \<and>
       (let v = unat (of_le (take 4 (drop 80 data)) :: u32) in
        ls ! 9 = txt_of ''NVMe Version (VER)      : '' @ dec (v div 2 ^ 16) @ txt_of ''.'' @
          dec (v div 2 ^ 8 mod 2 ^ 8) @ txt_of ''.'' @ dec (v mod 2 ^ 8)) \<and>
       (let names = [txt_of name. (n, name) \<leftarrow> oaes_names, bit (of_le (take 4 (drop 92 data)) :: u32) n] in
        ls ! 24 = txt_of ''Async events (OAES)     : '' @
          (if names = [] then txt_of ''(none)'' else join (txt_of '', '') names))"
proof -
  let ?d = "take 4096 data"
  have pre: "read_from_prefix identify_controller data = Some ?d"
    using assms by (simp only: read_from_prefix_def identify_sizes if_True)
  have cut: "take 4 (drop k ?d) = take 4 (drop k data)" if "k + 4 \<le> 4096" for k
    using that by (simp add: drop_take min_def)
  have ver: "id32 ?d ''ver'' = of_le (take 4 (drop 80 data))"
    and sgls: "id32 ?d ''sgls'' = of_le (take 4 (drop 536 data))"
    and oaes: "id32 ?d ''oaes'' = of_le (take 4 (drop 92 data))"
    by (simp_all only: id32_def field_le_def field_bytes_def identify_offsets option.case prod.case)
      (simp_all only: cut numeral_le_iff numeral_plus_numeral arith_simps semiring_norm)
  have v: "unat (drop_bit 16 v) = unat v div 2 ^ 16" "unat (drop_bit 8 v AND 0xFF) = unat v div 2 ^ 8 mod 2 ^ 8"
    "unat (v AND 0xFF) = unat v mod 2 ^ 8" for v :: u32
    by (simp_all only: unat_bits)
  let ?ls = "identification_section ?d @ limits_section ?d @ capabilities_section ?d"
  have lens: "length (identification_section ?d) = 10" "length (limits_section ?d) = 10"
    by (simp_all add: identification_section_def limits_section_def Let_def)
  have "?ls ! 9 = identification_section ?d ! 9" by (simp add: nth_append lens)
  then have l9: "?ls ! 9 = txt_of ''NVMe Version (VER)      : '' @ dec (unat (id32 ?d ''ver'') div 2 ^ 16) @
      txt_of ''.'' @ dec (unat (id32 ?d ''ver'') div 2 ^ 8 mod 2 ^ 8) @ txt_of ''.'' @
      dec (unat (id32 ?d ''ver'') mod 2 ^ 8)"
    by (simp only: v [symmetric]) (simp add: identification_section_def Let_def)
  have "?ls ! 24 = capabilities_section ?d ! 4" by (simp add: nth_append lens)
  then have l24: "?ls ! 24 = txt_of ''Async events (OAES)     : '' @ flags (id32 ?d ''oaes'') oaes_names"
    by (simp add: capabilities_section_def Let_def)
  have "length ?ls = (if id32 ?d ''sgls'' AND 3 = 0 then 31 else 32)"
    by (simp add: lens capabilities_section_def Let_def)
  moreover have "print_controller_identification data w = (Ok (), w\<lparr>log := log w @ map Print ?ls\<rparr>)"
    by (simp only: print_controller_identification_def pre option.case run_print_lines)
  ultimately show ?thesis
    using l9 l24
    by (intro exI [of _ ?ls])
      (simp_all only: ver sgls oaes flags_bits [OF tables_in_range(3)] Let_def simp_thms)
qed


end
