(* ===== verification/Repl.thy ===== *)
theory Repl
  imports Driver Block_Map Identify
begin

text \<open>
  \<open>src/bin/nvmetoy_repl.rs\<close>: the REPL confined to one file. Its commands run on the driver and
  the machine; a line printed with \<open>println!\<close> is a \<open>Print\<close> event, an error reported by the loop
  a \<open>Report\<close> event.
\<close>

unbundle bit_operations_syntax

definition say :: "rtext \<Rightarrow> ('d machine, unit) prog" where
  "say t = on_snd (println t)"

fun say_lines :: "rtext list \<Rightarrow> ('d machine, unit) prog" where
  "say_lines [] = ret ()"
| "say_lines (t # ts) = andthen (say t) (\<lambda>_. say_lines ts)"

definition udec :: "u64 \<Rightarrow> rtext" where "udec n = dec (unat n)"

section \<open>Confined access\<close>

definition confined_read ::
  "'d device \<Rightarrow> file_blocks \<Rightarrow> u64 \<Rightarrow> u64 \<Rightarrow> ('d machine, u8 list) prog" where
  "confined_read D blocks device_lba count =
     andthen (of_outcome (blocks_check blocks device_lba count)) (\<lambda>_.
     if count = 0 then ret []
     else if 2 ^ 16 \<le> unat count then fail ReadTooLargeForCommand
     else driver_read D device_lba (ucast count))"

definition confined_write ::
  "'d device \<Rightarrow> file_blocks \<Rightarrow> u64 \<Rightarrow> u8 list \<Rightarrow> ('d machine, u64) prog" where
  "confined_write D blocks device_lba data =
     (let block_size = device_lba_size blocks; len = of_nat (length data) in
      if data = [] then fail (PayloadNotMultiple block_size)
      else if block_size = 0 then crash DivideByZero
      else if len mod block_size \<noteq> 0 then fail (PayloadNotMultiple block_size)
      else
        let count = len div block_size
        in andthen (of_outcome (blocks_check blocks device_lba count)) (\<lambda>_.
           andthen (driver_write D device_lba data) (\<lambda>_.
           ret count)))"

definition plural :: "u64 \<Rightarrow> rtext" where
  "plural n = txt_of (if n = 1 then ''block'' else ''blocks'')"

definition fill ::
  "'d device \<Rightarrow> file_blocks \<Rightarrow> u64 \<Rightarrow> u8 \<Rightarrow> u64 \<Rightarrow> ('d machine, unit) prog" where
  "fill D blocks device_lba byte count =
     (if count = 0 then fail BlockCountZero
      else
        case (case checked_mul count (device_lba_size blocks) of
                None \<Rightarrow> None | Some n \<Rightarrow> if n \<le> MAX_TRANSFER_BYTES then Some n else None) of
          None \<Rightarrow> fail (FillExceedsLimit count)
        | Some bytes \<Rightarrow>
            let data = replicate (unat bytes) byte
            in andthen (confined_write D blocks device_lba data) (\<lambda>written.
               say (txt_of ''wrote '' @ udec written @ txt_of '' '' @ plural written @ txt_of '' ('' @
                 dec (length data) @ txt_of '' bytes) of '' @ [39, unat byte, 39] @
                 txt_of '' at device-lba '' @ udec device_lba)))"

text \<open>One character per byte.\<close>

definition NON_PRINTABLE :: nat where "NON_PRINTABLE = 0xB7"

definition ascii_char :: "u8 \<Rightarrow> nat" where
  "ascii_char byte =
     (if 0x20 \<le> byte \<and> byte \<le> 0x7E then unat byte
      else if byte \<le> 0x1F then 0x2400 + unat byte
      else if byte = 0x7F then 0x2421
      else NON_PRINTABLE)"

definition ascii_line :: "u8 list \<Rightarrow> rtext" where
  "ascii_line bytes = map ascii_char bytes"

definition peek ::
  "'d device \<Rightarrow> file_blocks \<Rightarrow> u64 \<Rightarrow> usize \<Rightarrow> usize \<Rightarrow> ('d machine, unit) prog" where
  "peek D blocks device_lba offset len =
     (let block_size = device_lba_size blocks in
      if block_size \<le> offset \<or> block_size - offset < len then
        fail (RangeDoesNotFit offset len block_size)
      else
        andthen (confined_read D blocks device_lba 1) (\<lambda>block.
        if length block < unat offset + unat len then crash SliceOutOfRange
        else
          say (txt_of ''peek '' @ udec len @ txt_of '' bytes at device-lba '' @ udec device_lba @
            txt_of '' offset '' @ udec offset @ txt_of '': '' @
            ascii_line (take (unat len) (drop (unat offset) block)))))"

text \<open>
  \<open>vec![0; n]\<close> panics when \<open>n\<close> exceeds \<open>isize::MAX\<close>; the product is computed wrapping.
\<close>

definition write_blocks ::
  "'d device \<Rightarrow> file_blocks \<Rightarrow> u64 \<Rightarrow> u8 list \<Rightarrow> ('d machine, u64) prog" where
  "write_blocks D blocks device_lba bytes =
     (if bytes = [] then fail NothingToWrite
      else
        let block_size = device_lba_size blocks
        in if block_size = 0 then crash DivideByZero
           else
             let size = div_ceil (of_nat (length bytes)) block_size * block_size
             in if 2 ^ 63 \<le> unat size then crash CapacityOverflow
                else if unat size < length bytes then crash SliceOutOfRange
                else confined_write D blocks device_lba (bytes @ replicate (unat size - length bytes) 0))"

definition poke ::
  "'d device \<Rightarrow> file_blocks \<Rightarrow> u64 \<Rightarrow> usize \<Rightarrow> rtext \<Rightarrow> ('d machine, unit) prog" where
  "poke D blocks device_lba offset text =
     (let bytes = as_bytes text; len = of_nat (length bytes); block_size = device_lba_size blocks in
      if bytes = [] then fail NothingToWrite
      else if block_size \<le> offset \<or> block_size - offset < len then
        fail (RangeDoesNotFit offset len block_size)
      else
        andthen (confined_read D blocks device_lba 1) (\<lambda>buffer.
        if length buffer < unat offset + length bytes then crash SliceOutOfRange
        else
          let patched = take (unat offset) buffer @ bytes @ drop (unat offset + length bytes) buffer
          in andthen (confined_write D blocks device_lba patched) (\<lambda>_.
             say (txt_of ''wrote '' @ dec (length bytes) @ txt_of '' bytes at device-lba '' @
               udec device_lba @ txt_of '' offset '' @ udec offset))))"

section \<open>Printing\<close>

definition print_blocks :: "file_blocks \<Rightarrow> ('d machine, unit) prog" where
  "print_blocks blocks = say_lines
     ([txt_of ''block size '' @ udec (device_lba_size blocks) @ txt_of '' bytes, '' @
        udec (total_lbas blocks) @ txt_of '' blocks total ('' @
        udec (total_lbas blocks * device_lba_size blocks) @ txt_of '' bytes)'',
       right_aligned 16 (txt_of ''device-lba'') @ txt_of ''  '' @ right_aligned 12 (txt_of ''count'') @
        txt_of ''  state''] @
      map (\<lambda>e. right_aligned 16 (udec (ext_lba e)) @ txt_of ''  '' @ right_aligned 12 (udec (ext_count e)) @
        txt_of ''  '' @ txt_of (if ext_unwritten e then ''unwritten'' else ''written'')) (extents blocks))"

definition READ_LINE_WIDTH :: nat where "READ_LINE_WIDTH = 72"

definition read_line :: "u64 \<Rightarrow> u8 list \<Rightarrow> rtext" where
  "read_line lba block = right_aligned 10 (udec lba) @ txt_of '': '' @
     (if READ_LINE_WIDTH < length block
      then ascii_line (take READ_LINE_WIDTH block) @ txt_of ''  [+'' @
        dec (length block - READ_LINE_WIDTH) @ txt_of '' bytes]''
      else ascii_line block)"

text \<open>\<open>slice::chunks\<close>; the size is positive where the code reaches it.\<close>

function chunks :: "nat \<Rightarrow> 'a list \<Rightarrow> 'a list list" where
  "chunks n xs = (if xs = [] \<or> n = 0 then [] else take n xs # chunks n (drop n xs))"
  by pat_completeness auto
termination by (relation "measure (\<lambda>(n, xs). length xs)") auto

declare chunks.simps [simp del]

definition HEAD :: nat where "HEAD = 10"
definition TAIL :: nat where "TAIL = 10"

definition block_lines :: "u64 \<Rightarrow> nat \<Rightarrow> nat \<times> u8 list \<Rightarrow> rtext list" where
  "block_lines device_lba count = (\<lambda>(index, block).
     if HEAD + TAIL < count \<and> HEAD \<le> index \<and> index < count - TAIL then
       (if index = HEAD
        then [txt_of ''         ... '' @ dec (count - HEAD - TAIL) @ txt_of '' blocks omitted ...'']
        else [])
     else [read_line (device_lba + of_nat index) block])"

definition print_read :: "u64 \<Rightarrow> u8 list \<Rightarrow> usize \<Rightarrow> ('d machine, unit) prog" where
  "print_read device_lba data block_size =
     andthen (say (txt_of ''read '' @ dec (length data) @ txt_of '' bytes from device-lba '' @
       udec device_lba @ txt_of '':'')) (\<lambda>_.
     if block_size = 0 then crash DivideByZero
     else
       let count = unat (div_ceil (of_nat (length data)) block_size)
       in say_lines (concat (map (block_lines device_lba count)
            (enumerate 0 (chunks (unat block_size) data)))))"

section \<open>The command line\<close>

definition parse_ascii_char :: "rtext \<Rightarrow> u8 outcome" where
  "parse_ascii_char text =
     (case as_bytes text of [byte] \<Rightarrow> Ok byte | _ \<Rightarrow> Err (FillCharNotAscii text))"

definition help_text :: "rtext list" where
  "help_text = map txt_of
     [''commands (lba is an absolute device block, all text is ASCII, counts are decimal):'',
      ''  list                     print the file's device blocks'',
      ''  identify                 print the Identify Controller data'',
      ''  read <lba> <count>       read count blocks, one block per line'',
      ''  write <lba> <text>       overwrite whole block(s) with text, tail zeroed'',
      ''  fill <lba> <char> [n]    write n blocks (default 1) of a repeated character'',
      ''  peek <lba> <off> <n>     read n bytes at a byte offset within a block'',
      ''  poke <lba> <off> <text>  patch a string at a byte offset, keeping the rest'',
      ''  help                     this message'',
      ''  quit | exit | Ctrl-D     leave the repl'']"

text \<open>One \<open>println!\<close> of lines joined by line feeds.\<close>

definition repl_help :: "('d machine, unit) prog" where
  "repl_help = say (join [10] help_text)"

text \<open>A command that ends normally keeps the loop running.\<close>

definition stay :: "('d machine, 'a) prog \<Rightarrow> ('d machine, bool) prog" where
  "stay p = andthen p (\<lambda>_. ret True)"

definition repl_read :: "'d device \<Rightarrow> file_blocks \<Rightarrow> rtext \<Rightarrow> rtext \<Rightarrow> ('d machine, unit) prog" where
  "repl_read D blocks lba count =
     andthen (of_outcome (parse_u64 lba)) (\<lambda>device_lba.
     andthen (of_outcome (parse_u64 count)) (\<lambda>n.
     andthen (confined_read D blocks device_lba n) (\<lambda>data.
     print_read device_lba data (device_lba_size blocks))))"

definition repl_write :: "'d device \<Rightarrow> file_blocks \<Rightarrow> rtext \<Rightarrow> rtext list \<Rightarrow> ('d machine, unit) prog" where
  "repl_write D blocks lba rest =
     andthen (of_outcome (parse_u64 lba)) (\<lambda>device_lba.
     let text = join [32] rest
     in andthen (write_blocks D blocks device_lba (as_bytes text)) (\<lambda>count.
        say (txt_of ''wrote '' @ dec (length (as_bytes text)) @ txt_of '' bytes into '' @ udec count @
          txt_of '' '' @ plural count @ txt_of '' at device-lba '' @ udec device_lba @
          txt_of '' (block tail zeroed)'')))"

definition repl_fill ::
  "'d device \<Rightarrow> file_blocks \<Rightarrow> rtext \<Rightarrow> rtext \<Rightarrow> u64 outcome \<Rightarrow> ('d machine, unit) prog" where
  "repl_fill D blocks lba ch count =
     andthen (of_outcome (parse_u64 lba)) (\<lambda>device_lba.
     andthen (of_outcome (parse_ascii_char ch)) (\<lambda>byte.
     andthen (of_outcome count) (\<lambda>n.
     fill D blocks device_lba byte n)))"

definition repl_peek ::
  "'d device \<Rightarrow> file_blocks \<Rightarrow> rtext \<Rightarrow> rtext \<Rightarrow> rtext \<Rightarrow> ('d machine, unit) prog" where
  "repl_peek D blocks lba offset len =
     andthen (of_outcome (parse_u64 lba)) (\<lambda>device_lba.
     andthen (of_outcome (parse_u64 offset)) (\<lambda>off.
     andthen (of_outcome (parse_u64 len)) (\<lambda>n.
     peek D blocks device_lba off n)))"

definition repl_poke ::
  "'d device \<Rightarrow> file_blocks \<Rightarrow> rtext \<Rightarrow> rtext \<Rightarrow> rtext list \<Rightarrow> ('d machine, unit) prog" where
  "repl_poke D blocks lba offset rest =
     andthen (of_outcome (parse_u64 lba)) (\<lambda>device_lba.
     andthen (of_outcome (parse_u64 offset)) (\<lambda>off.
     poke D blocks device_lba off (join [32] rest)))"

definition run_repl_line :: "'d device \<Rightarrow> file_blocks \<Rightarrow> rtext \<Rightarrow> ('d machine, bool) prog" where
  "run_repl_line D blocks line =
     (case split_whitespace line of
        [] \<Rightarrow> fail UnknownCommand
      | command # arguments \<Rightarrow>
          if command = txt_of ''help'' \<and> arguments = [] then stay repl_help
          else if (command = txt_of ''quit'' \<or> command = txt_of ''exit'') \<and> arguments = [] then ret False
          else if command = txt_of ''list'' \<and> arguments = [] then stay (print_blocks blocks)
          else if command = txt_of ''identify'' \<and> arguments = [] then
            stay (andthen (driver_identify_controller D) (\<lambda>data.
              on_snd (print_controller_identification data)))
          else if command = txt_of ''read'' \<and> length arguments = 2 then
            stay (repl_read D blocks (arguments ! 0) (arguments ! 1))
          else if command = txt_of ''write'' \<and> 2 \<le> length arguments then
            stay (repl_write D blocks (arguments ! 0) (tl arguments))
          else if command = txt_of ''fill'' \<and> length arguments = 2 then
            stay (repl_fill D blocks (arguments ! 0) (arguments ! 1) (Ok 1))
          else if command = txt_of ''fill'' \<and> length arguments = 3 then
            stay (repl_fill D blocks (arguments ! 0) (arguments ! 1) (parse_u64 (arguments ! 2)))
          else if command = txt_of ''peek'' \<and> length arguments = 3 then
            stay (repl_peek D blocks (arguments ! 0) (arguments ! 1) (arguments ! 2))
          else if command = txt_of ''poke'' \<and> 3 \<le> length arguments then
            stay (repl_poke D blocks (arguments ! 0) (arguments ! 1) (drop 2 arguments))
          else fail UnknownCommand)"

section \<open>The session\<close>

text \<open>
  What \<open>readline\<close> yields: a line, an interrupt (Ctrl-C), the end of input, or an error. The
  history file and the completer do not influence the loop.
\<close>

datatype input = Line rtext | Interrupted | Eof | ReadlineError

fun repl_loop :: "'d device \<Rightarrow> file_blocks \<Rightarrow> input list \<Rightarrow> ('d machine, unit) prog" where
  "repl_loop D blocks [] = ret ()"
| "repl_loop D blocks (Interrupted # inputs) = repl_loop D blocks inputs"
| "repl_loop D blocks (Eof # inputs) = ret ()"
| "repl_loop D blocks (ReadlineError # inputs) = fail ReadlineFailed"
| "repl_loop D blocks (Line line # inputs) =
     (if trim line = [] then repl_loop D blocks inputs
      else (\<lambda>s. case run_repl_line D blocks (trim line) s of
        (Ok True, s') \<Rightarrow> repl_loop D blocks inputs s'
      | (Ok False, s') \<Rightarrow> (Ok (), s')
      | (Err e, s') \<Rightarrow> andthen (on_snd (emit (Report e))) (\<lambda>_. repl_loop D blocks inputs) s'
      | (Panic q, s') \<Rightarrow> (Panic q, s')))"

definition arg :: "rtext list \<Rightarrow> nat \<Rightarrow> string \<Rightarrow> rtext outcome" where
  "arg arguments index name =
     (if index < length arguments then Ok (arguments ! index) else Err (MissingArgument name))"

text \<open>
  \<open>run\<close>. The map file is a parameter: opening a path fails or yields a line iterator. So is the
  editor: it cannot be created, or yields a sequence of inputs. The driver is dropped on every
  way out.
\<close>

definition load_blocks :: "(rtext \<Rightarrow> rtext outcome list outcome) \<Rightarrow> rtext \<Rightarrow> file_blocks outcome" where
  "load_blocks files path = obind (files path) blocks_parse"

definition open_failed :: "'a outcome \<Rightarrow> 'a outcome" where
  "open_failed r = (case r of Err e \<Rightarrow> Err (OpenFailed e) | _ \<Rightarrow> r)"

definition repl_session ::
  "'d device \<Rightarrow> file_blocks \<Rightarrow> input list option \<Rightarrow> ('d machine, unit) prog" where
  "repl_session D blocks editor =
     andthen (say (txt_of ''nvmetoy repl: '' @ udec (total_lbas blocks) @ txt_of '' device blocks of '' @
       udec (device_lba_size blocks) @ txt_of '' bytes accessible (the file's blocks). '' @
       txt_of ''Type 'help', or Ctrl-D to quit.'')) (\<lambda>_.
     case editor of None \<Rightarrow> fail ReadlineFailed | Some inputs \<Rightarrow> repl_loop D blocks inputs)"

definition repl_run ::
  "'d device \<Rightarrow> host \<Rightarrow> (rtext \<Rightarrow> rtext outcome list outcome) \<Rightarrow> rtext list \<Rightarrow> input list option \<Rightarrow>
   (os_call list \<times> 'd world, unit) prog" where
  "repl_run D h files arguments editor =
     andthen (of_outcome (arg arguments 1 ''bdf'')) (\<lambda>bdf.
     andthen (of_outcome (obind (arg arguments 2 ''map-file'') (load_blocks files))) (\<lambda>blocks.
     andthen (of_outcome (if 3 < length arguments then parse_u32 (arguments ! 3) else Ok 1)) (\<lambda>nsid.
     andthen (\<lambda>s. case driver_open D h bdf nsid s of (r, s') \<Rightarrow> (open_failed r, s')) (\<lambda>dr. \<lambda>(cs, w).
       case repl_session D blocks editor (dr, w) of
         (r, (dr', w')) \<Rightarrow> (r, (snd (drop_driver dr' cs), w'))))))"

text \<open>
  \<open>main\<close>, with the exit code of the process: an error of \<open>run\<close> is reported and ends it with 1;
  a panic ends it with 101.
\<close>

definition repl_main ::
  "'d device \<Rightarrow> host \<Rightarrow> (rtext \<Rightarrow> rtext outcome list outcome) \<Rightarrow> rtext list \<Rightarrow> input list option \<Rightarrow>
   os_call list \<times> 'd world \<Rightarrow> nat \<times> (os_call list \<times> 'd world)" where
  "repl_main D h files arguments editor s =
     (case repl_run D h files arguments editor s of
        (Ok _, s') \<Rightarrow> (0, s')
      | (Err e, (cs, w)) \<Rightarrow> (1, (cs, w\<lparr>log := log w @ [Report e]\<rparr>))
      | (Panic q, s') \<Rightarrow> (101, s'))"

end
