(* ===== verification/Repl_Shell.thy ===== *)
theory Repl_Shell
  imports Repl
begin

text \<open>
  The commands of the REPL over the two operations they reach the disk with. A locale states what
  the commands rely on from confined reads and writes; whatever invariant and events those keep
  to, the commands, a line and the whole loop keep to as well, without a panic.
\<close>

unbundle bit_operations_syntax

section \<open>Sizes\<close>

lemma range_fits:
  fixes offset bs :: u64
  assumes "\<not> (bs \<le> offset \<or> bs - offset < of_nat n)" and "n < 2 ^ 64"
  shows "unat offset + n \<le> unat bs"
proof -
  have lt: "unat offset < unat bs" using assms(1) by (simp add: word_less_nat_alt not_le)
  then have "unat (bs - offset) = unat bs - unat offset"
    by (simp add: unat_sub word_le_nat_alt)
  moreover have "unat (of_nat n :: u64) = n" using assms(2) by (intro unat_of_nat_small) simp
  ultimately have "n \<le> unat bs - unat offset"
    using assms(1) by (simp add: word_le_nat_alt [symmetric] not_less [symmetric] word_less_nat_alt)
  with lt show ?thesis by simp
qed

text \<open>The size of the zero-padded buffer.\<close>

lemma padded_size:
  fixes bs :: u64
  assumes "0 < unat bs" "unat bs \<le> 2 ^ 32" "n < 2 ^ 62"
  shows "unat (div_ceil (of_nat n) bs * bs) = (n + unat bs - Suc 0) div unat bs * unat bs"
    and "n \<le> unat (div_ceil (of_nat n) bs * bs)" and "unat (div_ceil (of_nat n) bs * bs) < 2 ^ 63"
proof -
  have n: "unat (of_nat n :: u64) = n" using assms(3) by (intro unat_of_nat_small) simp
  let ?q = "(n + unat bs - Suc 0) div unat bs"
  have q: "unat (div_ceil (of_nat n) bs) = ?q" using unat_div_ceil [OF assms(1)] n by simp
  have "?q * unat bs \<le> n + unat bs - Suc 0" by simp
  then have le: "?q * unat bs < 2 ^ 63" using assms(2,3) by (simp del: div_times_less_eq_dividend)
  then show eq: "unat (div_ceil (of_nat n) bs * bs) = ?q * unat bs"
    by (subst unat_mult_no_wrap) (simp_all add: q)
  have "n + unat bs - Suc 0 < ?q * unat bs + unat bs" using assms(1) by (metis dividend_less_div_times add.commute)
  then show "n \<le> unat (div_ceil (of_nat n) bs * bs)" using assms(1) by (simp only: eq)
  show "unat (div_ceil (of_nat n) bs * bs) < 2 ^ 63" using le by (simp only: eq)
qed

text \<open>Input lines that fit in the address space with room for the padding of \<open>write\<close>.\<close>

definition short_line :: "rtext \<Rightarrow> bool" where
  "short_line t \<longleftrightarrow> length (as_bytes t) < 2 ^ 62"

definition short_input :: "input \<Rightarrow> bool" where
  "short_input i = (case i of Line t \<Rightarrow> short_line t | _ \<Rightarrow> True)"

lemma short_rest:
  assumes "short_line t" and "split_whitespace t = w # ws"
  shows "length (as_bytes (join [32] (drop n ws))) < 2 ^ 62"
proof -
  have "length (as_bytes (join [32] (drop (Suc n) (w # ws)))) \<le> length (as_bytes (join [32] (w # ws)))"
    by (rule join_drop_shorter)
  also have "\<dots> \<le> length (as_bytes t)" using split_join_shorter [of t] assms(2) by simp
  finally show ?thesis using assms(1) by (simp add: short_line_def)
qed

lemma parse_not_Panic: "parse_u64 t \<noteq> Panic q" "parse_ascii_char t \<noteq> Panic q"
  by (auto simp: parse_u64_def parse_ascii_char_def split: option.split list.split)

section \<open>The commands over confined access\<close>

text \<open>
  \<open>I\<close> is the invariant, \<open>P\<close> the allowed events, and \<open>plain\<close> the lines that are entered; only
  a line that is \<open>identify\<close> asks something else of the driver.
\<close>

locale confined_shell =
  fixes D :: "'d device" and fb :: file_blocks and I :: "'d machine \<Rightarrow> bool" and P :: "event \<Rightarrow> bool"
    and plain :: "rtext \<Rightarrow> bool"
  assumes sizes: "I s \<Longrightarrow> 32 \<le> unat (device_lba_size fb) \<and> unat (device_lba_size fb) \<le> 2 ^ 32"
    and read_shell: "safe (\<lambda>s. log (snd s)) I P (confined_read D fb lba count)
      (\<lambda>data. length data = unat (device_lba_size fb) * unat count)"
    and write_shell: "length data < 2 ^ 64 \<Longrightarrow>
      safe (\<lambda>s. log (snd s)) I P (confined_write D fb lba data) (\<lambda>_. True)"
    and unlogged: "I (dr, w) \<Longrightarrow> I (dr, w\<lparr>log := l\<rparr>)"
    and printing: "P (Print t)" and reporting: "P (Report x)"
    and identify_shell: "plain line \<Longrightarrow> split_whitespace line = [txt_of ''identify''] \<Longrightarrow>
      safe (\<lambda>s. log (snd s)) I P (driver_identify_controller D) (\<lambda>_. True)"
begin

abbreviation shell :: "('d machine, 'a) prog \<Rightarrow> ('a \<Rightarrow> bool) \<Rightarrow> bool" where
  "shell p Q \<equiv> safe (\<lambda>s. log (snd s)) I P p Q"

lemma reachable: "(\<And>s. I s \<Longrightarrow> shell p Q) \<Longrightarrow> shell p Q"
  by (auto simp: safe_def)

lemma emit_shell: "P e \<Longrightarrow> shell (on_snd (emit e)) (\<lambda>_. True)"
  using unlogged by (auto simp: safe_def run_simps run_access split: prod.split)

lemma report_shell: "shell (on_snd (print_controller_identification data)) (\<lambda>_. True)"
proof -
  have lines: "shell (on_snd (print_lines ts)) (\<lambda>_. True)" for ts
    by (auto simp: safe_def run_on_snd run_print_lines list_all_iff printing intro: unlogged split: prod.split)
  show ?thesis
  proof (cases "read_from_prefix identify_controller data")
    case None
    then show ?thesis by (auto simp: print_controller_identification_def safe_def run_simps split: prod.split)
  qed (simp add: print_controller_identification_def lines)
qed

lemma say_shell: "shell (say t) (\<lambda>_. True)"
  unfolding say_def println_def by (rule emit_shell [OF printing])

lemma say_lines_shell: "shell (say_lines ts) (\<lambda>_. True)"
  by (induction ts) (auto intro: safe_pure safe_andthen [OF say_shell])

lemma fill_shell:
  shows "shell (fill D fb lba byte count) (\<lambda>_. True)"
  unfolding fill_def Let_def
proof (intro safe_if safe_case_option safe_pure(2))
  fix bytes :: u64
  have "unat bytes < 2 ^ 64" using unsigned_less [of bytes] by simp
  then have len: "length (replicate (unat bytes) byte) < 2 ^ 64" by simp
  show "shell (andthen (confined_write D fb lba (replicate (unat bytes) byte)) (\<lambda>written.
      say (t written))) (\<lambda>_. True)" for t
    by (rule safe_andthen [OF write_shell [OF len] say_shell])
qed

lemma peek_shell:
  shows "shell (peek D fb lba offset len) (\<lambda>_. True)"
  unfolding peek_def Let_def
proof (intro safe_if safe_pure(2))
  assume "\<not> (device_lba_size fb \<le> offset \<or> device_lba_size fb - offset < len)"
  then have "unat offset + unat len \<le> unat (device_lba_size fb)"
    using range_fits [of "device_lba_size fb" offset "unat len"] unsigned_less [of len] by simp
  then show "shell (andthen (confined_read D fb lba 1) (\<lambda>block.
      if length block < unat offset + unat len then crash SliceOutOfRange else say (t block))) (\<lambda>_. True)" for t
    by (intro safe_andthen [OF read_shell] safe_if say_shell) simp_all
qed

lemma poke_shell:
  assumes short: "length (as_bytes text) < 2 ^ 64"
  shows "shell (poke D fb lba offset text) (\<lambda>_. True)"
  unfolding poke_def Let_def
proof (intro safe_if safe_pure(2))
  let ?bytes = "as_bytes text"
  assume "\<not> (device_lba_size fb \<le> offset \<or> device_lba_size fb - offset < of_nat (length ?bytes))"
  from range_fits [OF this short]
  have fits: "unat offset + length ?bytes \<le> unat (device_lba_size fb)" .
  have small: "unat (device_lba_size fb) < 2 ^ 64" using unsigned_less [of "device_lba_size fb"] by simp
  show "shell (andthen (confined_read D fb lba 1) (\<lambda>buffer.
      if length buffer < unat offset + length ?bytes then crash SliceOutOfRange
      else andthen (confined_write D fb lba (take (unat offset) buffer @ ?bytes @
        drop (unat offset + length ?bytes) buffer)) (\<lambda>_. say t))) (\<lambda>_. True)" for t
  proof (rule safe_andthen [OF read_shell], rule safe_if)
    fix buffer :: "u8 list" assume len: "length buffer = unat (device_lba_size fb) * unat (1 :: u64)"
    have "length (take (unat offset) buffer @ ?bytes @ drop (unat offset + length ?bytes) buffer) < 2 ^ 64"
      using fits len small by simp
    then show "shell (andthen (confined_write D fb lba (take (unat offset) buffer @ ?bytes @
        drop (unat offset + length ?bytes) buffer)) (\<lambda>_. say t)) (\<lambda>_. True)"
      by (rule safe_andthen [OF write_shell say_shell])
  qed (use fits in simp)
qed

lemma write_blocks_shell:
  assumes short: "length bytes < 2 ^ 62"
  shows "shell (write_blocks D fb lba bytes) (\<lambda>_. True)"
proof (rule reachable)
  fix s assume "I s"
  from sizes [OF this] have bs: "0 < unat (device_lba_size fb)" "unat (device_lba_size fb) \<le> 2 ^ 32"
    by simp_all
  note size = padded_size [OF bs short]
  show "shell (write_blocks D fb lba bytes) (\<lambda>_. True)"
    unfolding write_blocks_def Let_def
    using size bs by (intro safe_if safe_pure(2) write_shell) simp_all
qed

lemma print_blocks_shell: "shell (print_blocks blocks) (\<lambda>_. True)"
  unfolding print_blocks_def by (rule say_lines_shell)

lemma print_read_shell:
  "bs \<noteq> 0 \<Longrightarrow> shell (print_read lba data bs) (\<lambda>_. True)"
  unfolding print_read_def Let_def
  by (intro safe_andthen [OF say_shell] safe_if say_lines_shell) simp_all

lemma parsed_shell:
  "(\<And>x. shell (f x) Q) \<Longrightarrow> shell (andthen (of_outcome (parse_u64 t)) f) Q"
  "(\<And>x. shell (g x) Q) \<Longrightarrow> shell (andthen (of_outcome (parse_ascii_char t)) g) Q"
  by (rule safe_andthen [where R = "\<lambda>_. True"]; auto intro!: safe_of_outcome simp: parse_not_Panic)+

lemma run_line_shell:
  assumes short: "short_line line" and plain: "plain line"
  shows "shell (run_repl_line D fb line) (\<lambda>_. True)"
proof (cases "split_whitespace line")
  case Nil
  then show ?thesis by (simp add: run_repl_line_def safe_pure)
next
  case (Cons w ws)
  have short': "length (as_bytes (join [32] (drop n ws))) < 2 ^ 62" for n
    by (rule short_rest [OF short Cons])
  have stay: "shell (stay p) (\<lambda>_. True)" if "shell p (\<lambda>_. True)"
    for p :: "('d machine, unit) prog"
    unfolding stay_def by (rule safe_andthen [OF that]) (rule safe_pure, rule TrueI)
  have read: "shell (repl_read D fb a n) (\<lambda>_. True)" for a n
  proof (rule reachable)
    fix s assume "I s"
    from sizes [OF this] have "device_lba_size fb \<noteq> 0" by auto
    then show "shell (repl_read D fb a n) (\<lambda>_. True)"
      unfolding repl_read_def by (intro parsed_shell safe_andthen [OF read_shell] print_read_shell)
  qed
  have wrt: "shell (repl_write D fb a (tl ws)) (\<lambda>_. True)" for a
    unfolding repl_write_def Let_def
    using short' [of 1] by (intro parsed_shell safe_andthen [OF write_blocks_shell] say_shell)
      (simp add: drop_Suc)
  have fill: "shell (repl_fill D fb a c n) (\<lambda>_. True)" if "\<And>q. n \<noteq> Panic q" for a c n
    unfolding repl_fill_def
    by (intro parsed_shell safe_andthen [OF safe_of_outcome, where R = "\<lambda>_. True"] fill_shell that TrueI)
  have peek: "shell (repl_peek D fb a off n) (\<lambda>_. True)" for a off n
    unfolding repl_peek_def by (intro parsed_shell peek_shell)
  have poke: "shell (repl_poke D fb a off (drop 2 ws)) (\<lambda>_. True)" for a off
    unfolding repl_poke_def using short' [of 2] by (intro parsed_shell poke_shell) simp
  have assist: "shell repl_help (\<lambda>_. True)"
    unfolding repl_help_def by (rule say_shell)
  have ask: "shell (andthen (driver_identify_controller D) (\<lambda>data.
      on_snd (print_controller_identification data))) (\<lambda>_. True)"
    if "w = txt_of ''identify'' \<and> ws = []"
    using that Cons by (intro safe_andthen [OF identify_shell [OF plain]] report_shell) simp
  show ?thesis
    unfolding run_repl_line_def Cons list.case
    by (intro safe_if stay read wrt fill peek poke assist print_blocks_shell ask safe_pure
        parse_not_Panic TrueI) simp_all
qed

text \<open>Only an error of the editor ends the session with an error.\<close>

lemma repl_loop_shell:
  assumes "list_all short_input inputs" and "list_all (\<lambda>i. \<forall>t. i = Line t \<longrightarrow> plain (trim t)) inputs"
  shows "shell (repl_loop D fb inputs) (\<lambda>_. True)"
  using assms
proof (induction inputs rule: list.induct)
  case Nil
  then show ?case by (simp add: safe_pure)
next
  case (Cons i inputs)
  then have IH: "shell (repl_loop D fb inputs) (\<lambda>_. True)" by simp
  show ?case
  proof (cases i)
    case (Line line)
    have "short_line (trim line)"
      using Cons.prems Line trim_shorter [of line] by (simp add: short_input_def short_line_def)
    moreover have "plain (trim line)" using Cons.prems(2) Line by simp
    ultimately have run: "shell (run_repl_line D fb (trim line)) (\<lambda>_. True)" by (rule run_line_shell)
    have rep: "shell (andthen (on_snd (emit (Report e))) (\<lambda>_. repl_loop D fb inputs)) (\<lambda>_. True)" for e
      by (rule safe_andthen [OF emit_shell [OF reporting] IH])
    show ?thesis
    proof (cases "trim line = []")
      case True
      then show ?thesis using IH by (simp add: Line)
    next
      case False
      let ?q = "\<lambda>r. case r of Ok True \<Rightarrow> repl_loop D fb inputs | Ok False \<Rightarrow> ret ()
        | Err e \<Rightarrow> andthen (on_snd (emit (Report e))) (\<lambda>_. repl_loop D fb inputs) | Panic q \<Rightarrow> crash q"
      have q: "shell (?q r) (\<lambda>_. True)" if "\<And>q. r \<noteq> Panic q" for r
        using that IH rep by (auto simp: safe_pure split: outcome.split bool.split)
      have "repl_loop D fb (i # inputs) = (\<lambda>s. ?q (fst (run_repl_line D fb (trim line) s)) (snd (run_repl_line D fb (trim line) s)))"
        using False by (auto simp: Line fun_eq_iff run_simps split: prod.split outcome.split bool.split)
      moreover have "shell (\<lambda>s. ?q (fst (run_repl_line D fb (trim line) s)) (snd (run_repl_line D fb (trim line) s))) (\<lambda>_. True)"
        by (rule safe_then [OF run q])
      ultimately show ?thesis by simp
    qed
  qed (use IH in \<open>auto simp: safe_pure\<close>)
qed

end

lemma repl_loop_error:
  "fst (repl_loop D fb inputs s) = Err e \<Longrightarrow> e = ReadlineFailed \<and> ReadlineError \<in> set inputs"
proof (induction inputs arbitrary: s)
  case (Cons i inputs)
  show ?case
  proof (cases i)
    case (Line line)
    obtain r s' where run: "run_repl_line D fb (trim line) s = (r, s')" by (metis prod.exhaust)
    show ?thesis
      using Cons.prems Cons.IH
      by (cases r) (auto simp: Line run run_andthen run_fail run_on_snd on_snd_def emit_def modify_def
          split: if_splits bool.splits prod.splits outcome.splits)
  qed (use Cons in \<open>auto simp: run_ret run_fail\<close>)
qed (simp add: run_ret)

end
