(* ===== verification/Repl_Session.thy ===== *)
theory Repl_Session
  imports Repl_Shell Driver_Transfers
begin

text \<open>
  What a REPL session can do: with a block map whose block size is the namespace's, every
  command it announces names blocks of the file only, and no input makes it panic.
\<close>

unbundle bit_operations_syntax

section \<open>Events of a session\<close>

text \<open>The blocks an entry of the I/O submission ring names.\<close>

definition command_range :: "submission_queue_entry \<Rightarrow> u64 set" where
  "command_range c = {b. unat (command_slba c) \<le> unat b \<and> unat b < unat (command_slba c) + command_blocks c}"

definition names_only :: "u64 set \<Rightarrow> event \<Rightarrow> bool" where
  "names_only S e = (case e of
     DmaStore off bs \<Rightarrow> off < 0x2000 \<or> 0x3000 \<le> off \<or> command_range (sqe_of_bytes bs) \<subseteq> S
   | _ \<Rightarrow> True)"

definition session_event :: "usize \<Rightarrow> u64 set \<Rightarrow> event \<Rightarrow> bool" where
  "session_event stride S e \<longleftrightarrow> names_only S e \<and>
     (case e of Print t \<Rightarrow> True | Report x \<Rightarrow> True | _ \<Rightarrow> footprint stride {0, 1} e)"

text \<open>The block size of the map is the size the driver has cached for its namespace.\<close>

definition matching :: "driver \<Rightarrow> file_blocks \<Rightarrow> bool" where
  "matching dr fb \<longleftrightarrow> block_sizes dr (drv_nsid dr) = Some (device_lba_size fb) \<and>
     32 \<le> unat (device_lba_size fb) \<and> unat (device_lba_size fb) \<le> 2 ^ 32"

definition repl_at :: "driver \<Rightarrow> driver \<Rightarrow> bool" where
  "repl_at dr0 dr \<longleftrightarrow> driver_at dr0 dr \<and> block_sizes dr = block_sizes dr0"

abbreviation safe_repl ::
  "driver \<Rightarrow> file_blocks \<Rightarrow> ('d machine, 'a) prog \<Rightarrow> ('a \<Rightarrow> bool) \<Rightarrow> bool" where
  "safe_repl dr0 fb p Q \<equiv> safe (\<lambda>s. log (snd s)) (\<lambda>s. repl_at dr0 (fst s))
     (session_event (doorbell_stride dr0) (owned fb)) p Q"

section \<open>The cached sizes stay\<close>

text \<open>A part of the driver's state that a program leaves alone.\<close>

definition keeps :: "(driver \<Rightarrow> 'x) \<Rightarrow> ('d machine, 'a) prog \<Rightarrow> bool" where
  "keeps f p \<longleftrightarrow> (\<forall>s. f (fst (snd (p s))) = f (fst s))"

lemma keeps_basic:
  "keeps f (gets g)" "keeps f (of_outcome r)" "keeps f (on_snd p)"
  "keeps block_sizes (admin_submit D c)" "keeps block_sizes (io_submit D c)" "keeps admin_queue (io_submit D c)"
  by (auto simp: keeps_def run_simps admin_submit_def io_submit_def split: prod.split)

lemma keeps_andthen:
  assumes "keeps h p" and "\<And>x. keeps h (f x)"
  shows "keeps h (andthen p f)"
  unfolding keeps_def
proof
  fix s
  have "h (fst (snd (p s))) = h (fst s)"
    using assms(1) unfolding keeps_def by blast
  moreover have "h (fst (snd (f x (snd (p s))))) = h (fst (snd (p s)))" for x
    using assms(2) unfolding keeps_def by blast
  ultimately show "h (fst (snd (andthen p f s))) = h (fst s)"
    by (simp add: run_andthen split: outcome.split)
qed

lemma keepsD: "keeps f p \<Longrightarrow> f (fst (snd (p (dr, w)))) = f dr"
  unfolding keeps_def by (metis fst_conv)

lemma keeps_case_prod: "(\<And>a b. keeps h (f a b)) \<Longrightarrow> keeps h (case x of (a, b) \<Rightarrow> f a b)"
  by (simp split: prod.split)

lemma transfers_keep:
  "keeps block_sizes (transfer_read D dr nsid slba n len)" "keeps block_sizes (transfer_write D dr nsid slba data len m)"
  "keeps block_sizes (driver_identify_controller D)"
  "keeps admin_queue (transfer_read D dr nsid slba n len)" "keeps admin_queue (transfer_write D dr nsid slba data len m)"
  unfolding transfer_read_def transfer_write_def driver_identify_controller_def identify_def
  by (intro keeps_andthen keeps_case_prod keeps_basic)+

section \<open>Confined transfers\<close>

lemma names_only_silent:
  "prp_store e \<Longrightarrow> names_only S e" "winding_up stride e \<Longrightarrow> names_only S e"
  by (auto simp: names_only_def prp_store_def winding_up_def split: event.splits)

lemma names_only_announce:
  assumes "command_range e \<subseteq> S"
  shows "list_all (names_only S) (announce dr e)"
  using assms by (simp add: announce_def names_only_def sqe_of_sqe_bytes)

lemma block_range_command:
  "command_slba e = lba \<Longrightarrow> command_blocks e = unat count \<Longrightarrow> command_range e = block_range lba count"
  by (simp add: command_range_def block_range_def)

lemma repl_atD:
  assumes "repl_at dr0 dr" and "matching dr0 fb"
  shows "driver_ok dr" "block_sizes dr (drv_nsid dr) = Some (device_lba_size fb)"
    "driver_at dr0 dr" "doorbell_stride dr = doorbell_stride dr0"
  using assms by (auto simp: repl_at_def matching_def driver_atD)

text \<open>Combining what the driver's safety and the traces say of the same log.\<close>

lemma safe_repl_transfer:
  fixes p :: "('d machine, 'a) prog"
  assumes "safe_driver dr0 {0, 1} p (\<lambda>_. True)"
    and "\<And>dr w. repl_at dr0 dr \<Longrightarrow> block_sizes (fst (snd (p (dr, w)))) = block_sizes dr"
    and "\<And>dr w. repl_at dr0 dr \<Longrightarrow>
      \<exists>es. log (snd (snd (p (dr, w)))) = log w @ es \<and> list_all (names_only (owned fb)) es"
    and "\<And>dr w x. repl_at dr0 dr \<Longrightarrow> fst (p (dr, w)) = Ok x \<Longrightarrow> Q x"
  shows "safe_repl dr0 fb p Q"
proof (rule safeI)
  fix s :: "'d machine" and x q assume "repl_at dr0 (fst s)"
  then obtain dr w where s: "s = (dr, w)" and at: "repl_at dr0 dr" by (cases s) auto
  then have d: "driver_at dr0 (fst s)" by (simp add: repl_at_def)
  note safe = safeD [OF assms(1), of s, OF d]
  obtain es where es: "log (snd (snd (p s))) = log w @ es" "list_all (names_only (owned fb)) es"
    using assms(3) [OF at] s by blast
  then have "list_all (footprint (doorbell_stride dr0) {0, 1}) es" using safe(2) s by simp
  with es(2) have "list_all (session_event (doorbell_stride dr0) (owned fb)) es"
    by (auto simp: list_all_iff session_event_def footprint_def split: event.splits)
  with es(1) s show "\<exists>es. log (snd (snd (p s))) = log (snd s) @ es \<and>
      list_all (session_event (doorbell_stride dr0) (owned fb)) es" by auto
  show "repl_at dr0 (fst (snd (p s)))"
    using safe(1) assms(2) [OF at] at s by (simp add: repl_at_def)
  show "fst (p s) \<noteq> Panic q" by (rule safe(3))
  show "fst (p s) = Ok x \<Longrightarrow> Q x" using assms(4) [OF at] s by simp
qed

lemma driver_read_repl:
  assumes m: "matching dr0 fb" and r: "block_range lba count \<subseteq> owned fb" and c: "0 < count" "unat count < 2 ^ 16"
  shows "safe_repl dr0 fb (driver_read D lba (ucast count))
    (\<lambda>data. length data = unat (device_lba_size fb) * unat count)"
proof (rule safe_repl_transfer [OF driver_read_safe])
  fix dr and w :: "'a world" and x
  assume at: "repl_at dr0 dr"
  let ?bs = "device_lba_size fb" and ?n = "ucast count :: u16"
  note ok = repl_atD(1) [OF at m] and cached = repl_atD(2) [OF at m]
  have n: "unat ?n = unat count"
    using c(2) by (simp add: unsigned_ucast_eq take_bit_nat_eq_self)
  have pos: "?n \<noteq> 0" using c(1) n by (metis unsigned_0 unat_gt_0 less_irrefl)
  then have pos': "0 < ?n" by (simp add: word_gt_0)
  have "unat ?bs * unat ?n \<le> 2 ^ 32 * 2 ^ 16"
    using m c(2) n by (intro mult_le_mono) (simp_all add: matching_def)
  then have small: "unat ?bs * unat ?n < 2 ^ 64" by simp
  have "unat (ucast ?n :: usize) = unat ?n" by (rule unat_ucast_up) simp
  then have len: "unat (?bs * ucast ?n) = unat ?bs * unat ?n"
    using small by (subst unat_mult_no_wrap) simp_all
  note run = run_read_cached [OF cached, of D lba ?n w]
  show "block_sizes (fst (snd (driver_read D lba ?n (dr, w)))) = block_sizes dr"
    unfolding run by (simp add: transfers_keep(1) keepsD)
  obtain r' dr' w' where go: "driver_read D lba ?n (dr, w) = (r', (dr', w'))" by (metis prod.exhaust)
  show "\<exists>es. log (snd (snd (driver_read D lba ?n (dr, w)))) = log w @ es \<and> list_all (names_only (owned fb)) es"
  proof (cases "MAX_TRANSFER_BYTES < ?bs * ucast ?n")
    case True
    then show ?thesis using pos by (simp add: run)
  next
    case False
    then have "unat ?bs * unat ?n \<le> 0x1FB000" using not_above_max len by metis
    then obtain e prps rest where t: "log w' = log w @ prps @ announce dr e @ rest" "list_all prp_store prps"
        "list_all (winding_up (doorbell_stride dr)) rest" "command_slba e = lba" "command_blocks e = unat ?n"
      using read_trace [OF ok cached _ _ go] pos by (auto simp: word_gt_0)
    have "command_range e \<subseteq> owned fb" using t(4,5) n r block_range_command by metis
    then have "list_all (names_only (owned fb)) (prps @ announce dr e @ rest)"
      using t(2,3) names_only_announce [of e "owned fb" dr]
      by (auto simp: list_all_iff intro: names_only_silent)
    then show ?thesis using t(1) go by auto
  qed
  assume x: "fst (driver_read D lba ?n (dr, w)) = Ok x"
  show "length x = unat ?bs * unat count"
  proof (cases "MAX_TRANSFER_BYTES < ?bs * ucast ?n")
    case False
    then have "unat ?bs * unat ?n \<le> 0x1FB000" using not_above_max len by metis
    then obtain c :: "unit outcome" where c: "case c of Ok _ \<Rightarrow> r' = Ok (load (dma w') 0x5000 (unat ?bs * unat ?n))
        | Err e \<Rightarrow> r' = Err e | Panic q \<Rightarrow> False"
      using read_trace [OF ok cached pos' _ go] by blast
    then show ?thesis using x go n by (cases c) auto
  qed (use x pos in \<open>simp add: run\<close>)
qed

lemma driver_write_repl:
  assumes m: "matching dr0 fb" and data: "data \<noteq> []" "length data < 2 ^ 64"
    and mult: "of_nat (length data) mod device_lba_size fb = 0"
    and r: "block_range lba (of_nat (length data) div device_lba_size fb) \<subseteq> owned fb"
  shows "safe_repl dr0 fb (driver_write D lba data) (\<lambda>_. True)"
proof (rule safe_repl_transfer [OF driver_write_safe [OF data(2)]])
  fix dr and w :: "'a world"
  assume at: "repl_at dr0 dr"
  let ?bs = "device_lba_size fb" and ?len = "of_nat (length data) :: usize"
  note ok = repl_atD(1) [OF at m] and cached = repl_atD(2) [OF at m]
  have len: "unat ?len = length data" using data(2) by (intro unat_of_nat_small) simp
  have bs: "32 \<le> unat ?bs" and nz: "?bs \<noteq> 0" using m by (auto simp: matching_def)
  have "unat (?len mod ?bs) = 0" using mult by simp
  then have m0: "length data mod unat ?bs = 0" by (simp only: unat_mod len)
  note run = run_write_cached [OF cached nz, of D lba data w, unfolded Let_def]
  show "block_sizes (fst (snd (driver_write D lba data (dr, w)))) = block_sizes dr"
    unfolding run by (simp add: transfers_keep(2) keepsD)
  obtain r' dr' w' where go: "driver_write D lba data (dr, w) = (r', (dr', w'))" by (metis prod.exhaust)
  show "\<exists>es. log (snd (snd (driver_write D lba data (dr, w)))) = log w @ es \<and> list_all (names_only (owned fb)) es"
  proof (cases "MAX_TRANSFER_BYTES < ?len")
    case True
    then show ?thesis using data(1) mult by (simp add: run)
  next
    case False
    then have "length data \<le> 0x1FB000" using not_above_max len by metis
    then obtain e prps rest where t: "log w' = log w @ [DmaStore 0x5000 data] @ prps @ announce dr e @ rest"
        "list_all prp_store prps" "list_all (winding_up (doorbell_stride dr)) rest" "command_slba e = lba"
        "command_blocks e * unat ?bs = length data"
      using write_trace [OF ok cached bs data(1) m0 _ go] by blast
    have "command_blocks e = length data div unat ?bs" using t(5) bs by (metis nonzero_mult_div_cancel_right
        not_numeral_le_zero)
    then have "command_blocks e = unat (?len div ?bs)" by (simp only: unat_div len)
    then have "command_range e \<subseteq> owned fb" using t(4) r block_range_command by metis
    moreover have "names_only (owned fb) (DmaStore 0x5000 data)" by (simp add: names_only_def)
    ultimately have "list_all (names_only (owned fb)) ([DmaStore 0x5000 data] @ prps @ announce dr e @ rest)"
      using t(2,3) names_only_announce [of e "owned fb" dr]
      by (auto simp: list_all_iff intro: names_only_silent)
    then show ?thesis using t(1) go by auto
  qed
qed simp

section \<open>Confined commands\<close>

lemma confined_read_repl:
  assumes m: "matching dr0 fb"
  shows "safe_repl dr0 fb (confined_read D fb lba count)
    (\<lambda>data. length data = unat (device_lba_size fb) * unat count)"
  unfolding confined_read_def
proof (rule safe_andthen [where R = "\<lambda>_. block_range lba count \<subseteq> owned fb"])
  show "safe_repl dr0 fb (of_outcome (blocks_check fb lba count)) (\<lambda>_. block_range lba count \<subseteq> owned fb)"
    by (rule safe_of_outcome) (simp_all add: blocks_check_Ok)
  fix u assume "block_range lba count \<subseteq> owned fb"
  then show "safe_repl dr0 fb (if count = 0 then ret [] else if 2 ^ 16 \<le> unat count
      then fail ReadTooLargeForCommand else driver_read D lba (ucast count))
    (\<lambda>data. length data = unat (device_lba_size fb) * unat count)"
    using driver_read_repl [OF m, of lba count D]
    by (intro safe_if safe_pure(2)) (auto simp: word_gt_0 intro: safe_pure)
qed

lemma confined_write_repl:
  assumes m: "matching dr0 fb" and len: "length data < 2 ^ 64"
  shows "safe_repl dr0 fb (confined_write D fb lba data) (\<lambda>_. True)"
  unfolding confined_write_def Let_def
proof (intro safe_if safe_pure(2))
  assume "device_lba_size fb = 0"
  then show "safe_repl dr0 fb (crash DivideByZero) (\<lambda>_. True)" using m by (simp add: matching_def)
next
  let ?count = "of_nat (length data) div device_lba_size fb"
  assume ne: "data \<noteq> []" and "\<not> of_nat (length data) mod device_lba_size fb \<noteq> 0"
  then have m0: "of_nat (length data) mod device_lba_size fb = 0" by simp
  show "safe_repl dr0 fb (andthen (of_outcome (blocks_check fb lba ?count)) (\<lambda>_.
      andthen (driver_write D lba data) (\<lambda>_. ret ?count))) (\<lambda>_. True)"
  proof (rule safe_andthen [where R = "\<lambda>_. block_range lba ?count \<subseteq> owned fb"])
    show "safe_repl dr0 fb (of_outcome (blocks_check fb lba ?count)) (\<lambda>_. block_range lba ?count \<subseteq> owned fb)"
      by (rule safe_of_outcome) (simp_all add: blocks_check_Ok)
    fix u assume "block_range lba ?count \<subseteq> owned fb"
    then show "safe_repl dr0 fb (andthen (driver_write D lba data) (\<lambda>_. ret ?count)) (\<lambda>_. True)"
      by (intro safe_andthen [OF driver_write_repl [OF m ne len m0]] safe_pure TrueI)
  qed
qed

section \<open>The commands and the session\<close>

lemma identify_repl:
  assumes m: "matching dr0 fb"
  shows "safe_repl dr0 fb (driver_identify_controller D) (\<lambda>_. True)"
proof -
  have "safe_driver dr0 {0, 1} (driver_identify_controller D) (\<lambda>_. True)"
    using identify_safe unfolding driver_identify_controller_def
    by (rule safe_mono [OF safe_weaken]) auto
  then show "safe_repl dr0 fb (driver_identify_controller D) (\<lambda>_. True)"
  proof (rule safe_repl_transfer)
    fix dr and w :: "'a world" assume "repl_at dr0 dr"
    then have ok: "driver_ok dr" using repl_atD(1) [OF _ m] by blast
    show "block_sizes (fst (snd (driver_identify_controller D (dr, w)))) = block_sizes dr"
      by (simp add: transfers_keep(3) keepsD)
    have "\<exists>es. log (snd (snd (driver_identify_controller D (dr, w)))) = log w @ es \<and>
        list_all (footprint (doorbell_stride dr) {0}) es"
      using safeD(2) [OF identify_safe, of dr "(dr, w)"] driver_at_self [OF ok]
      by (simp add: driver_identify_controller_def)
    moreover have "names_only (owned fb) e" if "footprint (doorbell_stride dr) {0} e" for e
      using that by (auto simp: footprint_def names_only_def ring_base_def split: event.splits)
    ultimately show "\<exists>es. log (snd (snd (driver_identify_controller D (dr, w)))) = log w @ es \<and>
        list_all (names_only (owned fb)) es" by (meson list.pred_mono_strong)
  qed simp
qed

lemma matching_bounds: "matching dr fb \<Longrightarrow>
    32 \<le> unat (device_lba_size fb) \<and> unat (device_lba_size fb) \<le> 2 ^ 32"
  by (simp add: matching_def)

lemma safe_assuming: "(C \<Longrightarrow> safe lg I P p Q) \<Longrightarrow> safe lg (\<lambda>s. C \<and> I s) P p Q"
  by (auto simp: safe_def)

interpretation guarded: confined_shell D fb "\<lambda>s. matching dr0 fb \<and> repl_at dr0 (fst s)"
  "session_event (doorbell_stride dr0) (owned fb)" "\<lambda>_. True" for D :: "'d device" and fb dr0
  by unfold_locales
    (auto simp: session_event_def names_only_def dest: matching_bounds
      intro: safe_assuming confined_read_repl confined_write_repl [simplified] identify_repl)

lemma repl_loop_repl:
  assumes "matching dr0 fb" and "list_all short_input inputs"
  shows "safe_repl dr0 fb (repl_loop D fb inputs) (\<lambda>_. True)"
  using guarded.repl_loop_shell [OF assms(2), of dr0 fb D] assms(1) by (simp add: list_all_iff)


end
