(* ===== verification/Repl_Commands.thy ===== *)
theory Repl_Commands
  imports Repl_Session
begin

text \<open>
  The commands of the REPL one by one: what they refuse, what they write, and what happens when
  the block map does not fit the namespace.
\<close>

unbundle bit_operations_syntax

section \<open>Refused accesses\<close>

lemma blocks_check_refuses:
  "\<not> block_range lba count \<subseteq> owned fb \<Longrightarrow> \<exists>e. blocks_check fb lba count = Err e"
  using blocks_check_cases [where fb = fb and lba = lba and count = count]
  by (auto split: outcome.splits)

lemma blocks_check_accepts:
  "block_range lba count \<subseteq> owned fb \<Longrightarrow> unat lba + unat count < 2 ^ 64 \<Longrightarrow> blocks_check fb lba count = Ok ()"
  using blocks_check_cases [where fb = fb and lba = lba and count = count]
  by (auto split: outcome.splits if_splits)

lemma block_range_one: "block_range lba 1 = {lba}"
  by (auto simp: block_range_def word_unat_eq_iff)

text \<open>
  C28: A command that names a block outside the file is refused before it has any effect: the
  driver, the machine and the log are exactly as they were, and the result is an error. This
  is so for a read, a write of \<open>count\<close> whole blocks, a fill of \<open>count\<close> blocks, and, for a single
  block, for a peek and a poke with any offset, length and text, whatever the block size is.
\<close>

theorem foreign_blocks_are_refused:
  assumes "\<not> block_range lba count \<subseteq> owned fb"
    and "length data = unat count * unat (device_lba_size fb)" and "length data < 2 ^ 64"
  shows "(\<exists>e. confined_read D fb lba count s = (Err e, s)) \<and>
    (\<exists>e. confined_write D fb lba data s = (Err e, s)) \<and>
    (\<exists>e. fill D fb lba byte count s = (Err e, s)) \<and>
    (count = 1 \<longrightarrow> (\<exists>e. peek D fb lba offset len s = (Err e, s)) \<and> (\<exists>e. poke D fb lba offset text s = (Err e, s)))"
proof -
  let ?bs = "device_lba_size fb"
  obtain e where e: "blocks_check fb lba count = Err e" using blocks_check_refuses [OF assms(1)] by blast
  have read: "confined_read D fb lba count s = (Err e, s)" for s :: "'a machine"
    by (simp add: confined_read_def run_andthen run_of_outcome e)
  have refuse: "\<exists>e. confined_write D fb lba xs s = (Err e, s)"
    if xs: "length xs = unat count * unat ?bs" "length xs < 2 ^ 64" for xs
  proof (cases "xs = []")
    case False
    then have "0 < unat ?bs" using xs(1) by (cases "unat ?bs = 0") auto
    have n: "unat (of_nat (length xs) :: u64) = length xs" using xs(2) by (intro unat_of_nat_small) simp
    have "unat (of_nat (length xs) mod ?bs) = length xs mod unat ?bs" by (simp only: unat_mod n)
    then have "unat (of_nat (length xs) mod ?bs) = 0" using xs(1) by simp
    then have "of_nat (length xs) mod ?bs = 0" by (simp add: unsigned_eq_0_iff)
    moreover have "unat (of_nat (length xs) div ?bs) = length xs div unat ?bs" by (simp only: unat_div n)
    then have "unat (of_nat (length xs) div ?bs) = unat count" using \<open>0 < unat ?bs\<close> xs(1) by simp
    then have "of_nat (length xs) div ?bs = count" by (simp add: word_unat_eq_iff)
    moreover have "?bs \<noteq> 0" using \<open>0 < unat ?bs\<close> by auto
    ultimately show ?thesis
      using False by (simp add: confined_write_def Let_def run_andthen run_of_outcome e)
  qed (simp add: confined_write_def Let_def run_fail)
  have "\<exists>e. fill D fb lba byte count s = (Err e, s)"
  proof (cases "count \<noteq> 0 \<and> unat count * unat ?bs < 2 ^ 64 \<and> count * ?bs \<le> MAX_TRANSFER_BYTES")
    case True
    then have "unat (count * ?bs) = unat count * unat ?bs" by (simp add: unat_mult_no_wrap)
    moreover have "unat (count * ?bs) < 2 ^ 64" using unsigned_less [of "count * ?bs"] by simp
    ultimately obtain x where "confined_write D fb lba (replicate (unat (count * ?bs)) byte) s = (Err x, s)"
      using refuse [of "replicate (unat (count * ?bs)) byte"] by auto
    with True show ?thesis by (simp add: fill_def checked_mul_def Let_def run_andthen)
  qed (auto simp: fill_def checked_mul_def run_fail)
  moreover have "\<exists>e. peek D fb lba offset len s = (Err e, s)" if "count = 1"
    using that read by (simp add: peek_def Let_def run_andthen run_fail)
  moreover have "\<exists>e. poke D fb lba offset text s = (Err e, s)" if "count = 1"
    using that read by (simp add: poke_def Let_def run_andthen run_fail)
  ultimately show ?thesis using read refuse [OF assms(2,3)] by blast
qed

section \<open>What the writing commands write\<close>

lemma confined_write_trace:
  assumes ok: "driver_ok dr" and m: "matching dr fb"
    and data: "data \<noteq> []" "length data = n * unat (device_lba_size fb)" "length data \<le> 0x1FB000"
    and range: "block_range lba (of_nat n) \<subseteq> owned fb" "unat lba + n < 2 ^ 64"
    and run: "confined_write D fb lba data (dr, w) = (r, (dr', w'))"
  shows "(r = Ok (of_nat n) \<or> (\<exists>e. r = Err e)) \<and>
    (\<exists>e prps rest. log w' = log w @ [DmaStore 0x5000 data] @ prps @ announce dr e @ rest \<and>
      list_all prp_store prps \<and> list_all (winding_up (doorbell_stride dr)) rest \<and>
      sqe_opc e = 1 \<and> sqe_nsid e = drv_nsid dr \<and> command_slba e = lba \<and> command_blocks e = n)"
proof -
  let ?bs = "device_lba_size fb"
  have bs: "32 \<le> unat ?bs" and cached: "block_sizes dr (drv_nsid dr) = Some ?bs"
    using m by (auto simp: matching_def)
  have len: "unat (of_nat (length data) :: u64) = length data" using data(3) by (intro unat_of_nat_small) simp
  have "unat (of_nat (length data) mod ?bs) = length data mod unat ?bs" by (simp only: unat_mod len)
  then have "unat (of_nat (length data) mod ?bs) = 0" using data(2) by simp
  then have m0: "of_nat (length data) mod ?bs = 0" by (simp add: unsigned_eq_0_iff)
  have "unat (of_nat (length data) div ?bs) = length data div unat ?bs" by (simp only: unat_div len)
  then have "unat (of_nat (length data) div ?bs) = n" using bs data(2) by simp
  then have count: "of_nat (length data) div ?bs = of_nat n" by (rule unat_eqD)
  have "unat (of_nat n :: u64) = n" using range(2) by (intro unat_of_nat_small) simp
  then have ck: "blocks_check fb lba (of_nat n) = Ok ()" using blocks_check_accepts range by simp
  obtain r1 dr1 w1 where go: "driver_write D lba data (dr, w) = (r1, (dr1, w1))" by (metis prod.exhaust)
  have "?bs \<noteq> 0" using bs by auto
  then have eq: "(r, (dr', w')) = (case r1 of Ok _ \<Rightarrow> (Ok (of_nat n), (dr1, w1)) | Err e \<Rightarrow> (Err e, (dr1, w1))
      | Panic q \<Rightarrow> (Panic q, (dr1, w1)))"
    using run data(1) m0
    by (cases r1) (simp_all add: confined_write_def Let_def run_andthen run_of_outcome run_ret count ck go)
  have mod0: "length data mod unat ?bs = 0" by (simp add: data(2))
  note t = write_trace [OF ok cached bs data(1) mod0 data(3) go]
  have "w' = w1" using eq by (auto split: outcome.splits)
  moreover have "r = Ok (of_nat n) \<or> (\<exists>e. r = Err e)"
    using t eq by (auto simp: command_result_def)
  moreover have "k = n" if "k * unat ?bs = length data" for k using that bs data(2) by simp
  ultimately show ?thesis using t by metis
qed

text \<open>
  C29: \<open>write\<close> pads with zeros. For a text of \<open>k\<close> bytes that fits the transfer buffer once it is
  rounded up to \<open>n\<close> whole blocks, all of the file: the data area receives the text followed by
  zeros up to the end of the last block, one Write command for exactly the \<open>n\<close> blocks at \<open>lba\<close>
  is announced, and the result is the number of blocks or an error. For every controller.
\<close>

theorem write_pads_with_zeros:
  assumes ok: "driver_ok dr" and m: "matching dr fb" and "bytes \<noteq> []"
    and n: "n = (length bytes + unat (device_lba_size fb) - 1) div unat (device_lba_size fb)"
    and "n * unat (device_lba_size fb) \<le> 0x1FB000"
    and "block_range lba (of_nat n) \<subseteq> owned fb" "unat lba + n < 2 ^ 64"
    and run: "write_blocks D fb lba bytes (dr, w) = (r, (dr', w'))"
  shows "(r = Ok (of_nat n) \<or> (\<exists>e. r = Err e)) \<and>
    (\<exists>e prps rest. log w' = log w @
        [DmaStore 0x5000 (bytes @ replicate (n * unat (device_lba_size fb) - length bytes) 0)] @
        prps @ announce dr e @ rest \<and>
      list_all prp_store prps \<and> list_all (winding_up (doorbell_stride dr)) rest \<and>
      sqe_opc e = 1 \<and> sqe_nsid e = drv_nsid dr \<and> command_slba e = lba \<and> command_blocks e = n)"
proof -
  let ?bs = "device_lba_size fb"
  have bs: "0 < unat ?bs" "unat ?bs \<le> 2 ^ 32" using m by (auto simp: matching_def)
  have "length bytes + unat ?bs - 1 < n * unat ?bs + unat ?bs"
    unfolding n using bs(1) by (metis dividend_less_div_times add.commute)
  then have le: "length bytes \<le> n * unat ?bs" using bs(1) by linarith
  then have small: "length bytes < 2 ^ 62" using assms(5) by simp
  have size: "unat (div_ceil (of_nat (length bytes)) ?bs * ?bs) = n * unat ?bs"
    using padded_size(1) [OF bs small] n by simp
  let ?data = "bytes @ replicate (n * unat ?bs - length bytes) 0"
  have "?bs \<noteq> 0" using bs(1) by auto
  then have "write_blocks D fb lba bytes = confined_write D fb lba ?data"
    using assms(3,5) le by (simp add: write_blocks_def Let_def size)
  then show ?thesis
    using run le assms(3,5-7) by (intro confined_write_trace [OF ok m]) simp_all
qed

section \<open>Block maps that do not fit the namespace\<close>

text \<open>
  C32: A block map without a \<open>device_lba_size\<close> line is accepted, with block size 0, and the
  session then dies on the first write or on the first block that is read: \<open>div_ceil\<close> and the
  listing divide by the block size. For every list of extents, driver and controller.
\<close>

theorem map_without_block_size_panics:
  "\<exists>fb. blocks_parse (map Ok (txt_of ''nvmetoy-block-map 1'' # map extent_line es)) = Ok fb \<and>
     device_lba_size fb = 0 \<and> extents fb = es \<and>
     repl_loop D fb (Line (txt_of ''write 0 a'') # inputs) s = (Panic DivideByZero, s) \<and>
     fst (print_read lba data (device_lba_size fb) s) = Panic DivideByZero"
proof (intro exI conjI)
  let ?fb = "\<lparr>device_lba_size = 0, extents = es\<rparr>"
  have head: "split_whitespace (join [32] [txt_of ''nvmetoy-block-map'', txt_of ''1'']) =
      [txt_of ''nvmetoy-block-map'', txt_of ''1'']"
    by (rule split_whitespace_join) (simp only: list.pred_inject keyword_words simp_thms)
  have line: "txt_of ''nvmetoy-block-map 1'' = join [32] [txt_of ''nvmetoy-block-map'', txt_of ''1'']" by simp
  have "parse_line (0, []) (txt_of ''nvmetoy-block-map 1'') = Ok (0, [])"
    by (simp only: parse_line_def line head Let_def prod.case if_True simp_thms)
  then show "blocks_parse (map Ok (txt_of ''nvmetoy-block-map 1'' # map extent_line es)) = Ok ?fb"
    using parse_extent_lines [of 0 "[]" es] by (simp add: blocks_parse_def comp_def)
  have trim: "trim (txt_of ''write 0 a'') = txt_of ''write 0 a''"
    by (simp add: trim_def is_whitespace_def)
  have words: "word_text (txt_of ''write'')" "word_text (txt_of ''0'')" "word_text (txt_of ''a'')"
    by (simp_all add: word_text_def is_whitespace_def)
  have "split_whitespace (join [32] [txt_of ''write'', txt_of ''0'', txt_of ''a'']) =
      [txt_of ''write'', txt_of ''0'', txt_of ''a'']"
    by (rule split_whitespace_join) (simp only: list.pred_inject words simp_thms)
  moreover have "txt_of ''write 0 a'' = join [32] [txt_of ''write'', txt_of ''0'', txt_of ''a'']" by simp
  ultimately have split: "split_whitespace (txt_of ''write 0 a'') = [txt_of ''write'', txt_of ''0'', txt_of ''a'']"
    by simp
  have "parse_u64 (txt_of ''0'') = Ok 0"
    by (simp add: parse_u64_def parse_uint_def is_digit_def digits_value_def)
  then have "repl_write D ?fb (txt_of ''0'') [txt_of ''a''] s = (Panic DivideByZero, s)"
    by (simp add: repl_write_def run_andthen run_of_outcome write_blocks_def Let_def run_crash utf8_char_def)
  then have "run_repl_line D ?fb (txt_of ''write 0 a'') s = (Panic DivideByZero, s)"
    unfolding run_repl_line_def split list.case
    by (simp add: stay_def run_andthen)
  then show "repl_loop D ?fb (Line (txt_of ''write 0 a'') # inputs) s = (Panic DivideByZero, s)"
    by (simp only: repl_loop.simps trim) simp
  show "fst (print_read lba data (device_lba_size ?fb) s) = Panic DivideByZero"
    by (cases s) (simp add: print_read_def run_andthen say_def println_def run_on_snd run_access run_crash)
qed simp_all

text \<open>
  C33: Nothing compares the block size of the map with the namespace's, and the confinement
  depends on it. With a map whose block size is twice the namespace's, writing one block of
  the file, as the map counts, announces a Write command that reaches the device block after
  it, which is not part of the file.
\<close>

theorem larger_map_block_size_escapes:
  assumes ok: "driver_ok dr" and bs: "block_sizes dr (drv_nsid dr) = Some bs" "32 \<le> unat bs"
    and fb: "device_lba_size fb = 2 * bs" "2 * unat bs \<le> 0x1FB000"
      "extents fb = [\<lparr>ext_lba = lba, ext_count = 1, ext_unwritten = u\<rparr>]" "unat lba + 1 < 2 ^ 64"
    and len: "length data = 2 * unat bs"
    and run: "confined_write D fb lba data (dr, w) = (r, (dr', w'))"
  shows "\<exists>e before after. log w' = log w @ before @ announce dr e @ after \<and> sqe_opc e = 1 \<and>
    lba + 1 \<in> command_range e \<and> lba + 1 \<notin> owned fb"
proof -
  have two: "unat (2 * bs) = 2 * unat bs" using fb(2) by (subst unat_mult_no_wrap) simp_all
  have ldata: "unat (of_nat (length data) :: u64) = 2 * unat bs"
    using fb(2) len by (subst unat_of_nat_small) simp_all
  then have "(of_nat (length data) :: u64) = 2 * bs" by (simp add: word_unat_eq_iff two)
  moreover have nz: "2 * bs \<noteq> 0" using two bs(2) by (metis le_zero_eq mult_eq_0_iff not_numeral_le_zero
      unsigned_0 zero_neq_numeral)
  moreover have "data \<noteq> []" using len bs(2) by auto
  moreover have succ: "unat (lba + 1) = unat lba + 1" using fb(4) by (simp add: unat_add_no_wrap)
  then have "owned fb = {lba}"
    by (auto simp: owned_def covers_def fb(3) word_le_nat_alt word_less_nat_alt word_unat_eq_iff)
  then have "blocks_check fb lba 1 = Ok ()"
    using fb(4) by (intro blocks_check_accepts) (simp_all add: block_range_one)
  moreover obtain r1 dr1 w1 where go: "driver_write D lba data (dr, w) = (r1, (dr1, w1))" by (metis prod.exhaust)
  moreover have "unat (2 * bs div (2 * bs)) = 1" using bs(2) by (simp only: unat_div two) simp
  then have "2 * bs div (2 * bs) = 1" by (simp add: word_unat_eq_iff)
  ultimately have "w' = w1"
    using run fb(1)
    by (cases r1) (simp_all add: confined_write_def Let_def run_andthen run_of_outcome run_ret)
  moreover have "length data mod unat bs = 0" "length data \<le> 0x1FB000" using len fb(2) by simp_all
  from write_trace [OF ok bs \<open>data \<noteq> []\<close> this go] obtain e prps rest where
    t: "log w1 = log w @ [DmaStore 0x5000 data] @ prps @ announce dr e @ rest" "sqe_opc e = 1"
      "command_slba e = lba" "command_blocks e * unat bs = length data" by blast
  have "command_blocks e = 2" using t(4) len bs(2) by simp
  then have "lba + 1 \<in> command_range e" using t(3) succ by (simp add: command_range_def)
  moreover have "lba + 1 \<notin> owned fb" using \<open>owned fb = {lba}\<close> succ by (auto simp: word_unat_eq_iff)
  ultimately show ?thesis using t(1,2) by (intro exI [of _ e] exI [of _ "[DmaStore 0x5000 data] @ prps"] exI [of _ rest]) simp
qed

end
