(* ===== verification/Disk_Commands.thy ===== *)
theory Disk_Commands
  imports Disk_Refinement Repl_Commands
begin

text \<open>What single commands of the REPL do to the disk.\<close>

unbundle bit_operations_syntax

text \<open>One block of the file, read and written.\<close>

lemma confined_block_on_disk:
  assumes att: "attached D ns latency idle busy K s" and bs: "device_lba_size fb = of_nat (ns_block_size ns)"
    and lba: "lba \<in> owned fb" "unat lba + 1 < 2 ^ 64" "in_capacity ns lba 1"
    and small: "ns_block_size ns \<le> 0x1FB000"
  shows "\<exists>s'. confined_read D fb lba 1 s = (Ok (load K (disk_pos ns lba) (ns_block_size ns)), s') \<and>
      attached D ns latency idle busy K s'"
    and "length data = ns_block_size ns \<Longrightarrow> \<exists>s'. confined_write D fb lba data s = (Ok 1, s') \<and>
      attached D ns latency idle busy (store K (disk_pos ns lba) data) s'"
proof -
  obtain dr w where s: "s = (dr, w)" by (cases s)
  have up: "set_up D ns latency idle busy dr" using att by (simp add: s attached_def)
  have big: "32 \<le> ns_block_size ns" by (rule set_upD(7) [OF up])
  have check: "blocks_check fb lba 1 = Ok ()"
    using lba by (intro blocks_check_accepts) (simp_all add: block_range_one)
  obtain r s' where run: "driver_read D lba 1 (dr, w) = (r, s')" by (metis prod.exhaust)
  have "r = Ok (load K (disk_pos ns lba) (ns_block_size ns))" "attached D ns latency idle busy K s'"
    using read_on_disk [OF att [unfolded s], of 1 lba] small lba(3) by (simp_all add: run answer_Some)
  then show "\<exists>s'. confined_read D fb lba 1 s = (Ok (load K (disk_pos ns lba) (ns_block_size ns)), s') \<and>
      attached D ns latency idle busy K s'"
    by (simp add: confined_read_def run_andthen run_of_outcome check s run)
  assume len: "length data = ns_block_size ns"
  have ne: "data \<noteq> []" using len big by auto
  have u: "unat (of_nat (ns_block_size ns) :: u64) = ns_block_size ns" by (rule set_upD(6) [OF up])
  then have nz: "(of_nat (ns_block_size ns) :: u64) \<noteq> 0" using big by (metis le_zero_eq unsigned_0 zero_neq_numeral)
  then have one: "(of_nat (ns_block_size ns) :: u64) div of_nat (ns_block_size ns) = 1"
    by (intro unat_eqD [of _ 1, simplified]) (use big in \<open>simp add: unat_div u\<close>)
  obtain r s' where run: "driver_write D lba data (dr, w) = (r, s')" by (metis prod.exhaust)
  have "r = Ok ()" "attached D ns latency idle busy (store K (disk_pos ns lba) data) s'"
    using write_on_disk [OF att [unfolded s] ne, of lba] len small lba(3) big
    by (simp_all add: run answer_Some)
  then show "\<exists>s'. confined_write D fb lba data s = (Ok 1, s') \<and>
      attached D ns latency idle busy (store K (disk_pos ns lba) data) s'"
    using ne nz by (simp add: confined_write_def Let_def bs len one run_andthen run_of_outcome check s run run_ret)
qed

lemma store_patched:
  assumes "off + length bs \<le> n"
  shows "store K p (take off (load K p n) @ bs @ drop (off + length bs) (load K p n)) = store K (p + off) bs"
proof (rule ext)
  fix i
  show "store K p (take off (load K p n) @ bs @ drop (off + length bs) (load K p n)) i = store K (p + off) bs i"
    using assms by (auto simp: store_def nth_append min_def)
qed

lemma say_attached:
  "attached D ns latency idle busy K s \<Longrightarrow> \<exists>s'. say t s = (Ok (), s') \<and> attached D ns latency idle busy K s'"
  by (cases s) (auto simp: say_def println_def run_on_snd run_access attached_def)

text \<open>
  C30: \<open>poke\<close> changes exactly its bytes on the disk. On a controller that serves a disk with the
  map's block size, patching a text that fits into a block of the file, inside the namespace,
  succeeds, and afterwards the disk differs from before in the bytes of the text at the byte
  offset of that block, which are the text; every other byte of the disk is the same.
\<close>

theorem poke_patches_the_disk:
  assumes att: "attached D ns latency idle busy K s" and bs: "device_lba_size fb = of_nat (ns_block_size ns)"
    and lba: "lba \<in> owned fb" "unat lba + 1 < 2 ^ 64" "in_capacity ns lba 1"
    and small: "ns_block_size ns \<le> 0x1FB000"
    and fits: "as_bytes t \<noteq> []" "unat offset + length (as_bytes t) \<le> ns_block_size ns"
  shows "\<exists>s'. poke D fb lba offset t s = (Ok (), s') \<and>
    attached D ns latency idle busy (store K (disk_pos ns lba + unat offset) (as_bytes t)) s'"
proof -
  let ?bytes = "as_bytes t" and ?block = "load K (disk_pos ns lba) (ns_block_size ns)"
  let ?data = "take (unat offset) ?block @ ?bytes @ drop (unat offset + length ?bytes) ?block"
  have u: "unat (device_lba_size fb) = ns_block_size ns"
    unfolding bs using att [unfolded attached_def, THEN conjunct1] by (rule set_upD(6))
  obtain s1 where rd: "confined_read D fb lba 1 s = (Ok ?block, s1)" "attached D ns latency idle busy K s1"
    using confined_block_on_disk(1) [OF att bs lba small] by blast
  have "length ?data = ns_block_size ns" using fits(2) by simp
  then obtain s2 where wr: "confined_write D fb lba ?data s1 = (Ok 1, s2)"
      "attached D ns latency idle busy (store K (disk_pos ns lba + unat offset) ?bytes) s2"
    using confined_block_on_disk(2) [OF rd(2) bs lba small, of ?data] store_patched [OF fits(2)] by auto
  have "unat (of_nat (length ?bytes) :: u64) = length ?bytes"
    using fits small by (intro unat_of_nat_small) simp
  moreover have "unat offset < ns_block_size ns" using fits by (cases ?bytes) auto
  ultimately have pass: "\<not> (device_lba_size fb \<le> offset \<or> device_lba_size fb - offset < of_nat (length ?bytes))"
    using fits(2) by (simp add: word_le_nat_alt word_less_nat_alt unat_sub u)
  have "\<exists>r. poke D fb lba offset t s = say r s2"
    using pass fits by (simp only: poke_def Let_def if_False run_andthen rd(1) wr(1) fst_conv snd_conv
        outcome.case length_load not_less [symmetric]) blast
  then show ?thesis using say_attached [OF wr(2)] by metis
qed

end
