(* ===== verification/Repl_Display.thy ===== *)
theory Repl_Display
  imports Repl
begin

text \<open>What the REPL shows: the display of bytes, and the listing of a read.\<close>

unbundle bit_operations_syntax

section \<open>What is shown\<close>

text \<open>
  The display of bytes is safe and readable: one character per byte, printable ASCII as
  itself, never a control character (neither C0, DEL nor C1), so the content of a block cannot
  send escape sequences to the terminal; and the 128 ASCII bytes stay distinguishable.
\<close>

lemma display_is_printable:
  "length (ascii_line bytes) = length bytes \<and>
   list_all (\<lambda>c. 0x20 \<le> c \<and> c \<noteq> 0x7F \<and> \<not> (0x80 \<le> c \<and> c \<le> 0x9F)) (ascii_line bytes) \<and>
   inj_on ascii_char {b. b \<le> 0x7F} \<and> (\<forall>b \<in> {0x20..0x7E}. ascii_char b = unat b)"
proof -
  have nat: "ascii_char b = (if 0x20 \<le> unat b \<and> unat b \<le> 0x7E then unat b
      else if unat b \<le> 0x1F then 0x2400 + unat b else if unat b = 0x7F then 0x2421 else 0xB7)" for b :: u8
  proof -
    have "b = 0x7F \<longleftrightarrow> unat b = 0x7F" by (simp add: word_unat_eq_iff)
    then show ?thesis by (simp add: ascii_char_def word_le_nat_alt NON_PRINTABLE_def)
  qed
  have "inj_on ascii_char {b. b \<le> 0x7F}"
    by (rule inj_onI) (auto simp: nat word_le_nat_alt word_unat_eq_iff split: if_splits)
  then show ?thesis by (auto simp: ascii_line_def list_all_iff nat word_le_nat_alt)
qed

lemma run_say_lines: "say_lines ts (dr, w) = (Ok (), (dr, w\<lparr>log := log w @ map Print ts\<rparr>))"
  by (induction ts arbitrary: w) (simp_all add: say_def println_def run_andthen run_ret run_on_snd run_access)

lemma chunks_map:
  assumes "0 < n"
  shows "chunks n xs = map (\<lambda>i. take n (drop (i * n) xs)) [0..<(length xs + n - 1) div n]"
  using assms
proof (induction n xs rule: chunks.induct)
  case (1 n xs)
  show ?case
  proof (cases "xs = [] \<or> n = 0")
    case True
    with 1(2) show ?thesis by (subst chunks.simps) simp
  next
    case False
    then have IH: "chunks n (drop n xs) =
        map (\<lambda>i. take n (drop (i * n) (drop n xs))) [0..<(length (drop n xs) + n - 1) div n]"
      using 1(1) [OF False 1(2)] by simp
    have "(length xs + n - 1) div n = Suc ((length (drop n xs) + n - 1) div n)"
    proof (cases "length xs \<le> n")
      case True
      then have eq: "length xs + n - 1 = n + (length xs - 1)" "(length xs - 1) div n = 0"
        using False by (cases xs; simp)+
      have "(length xs + n - 1) div n = Suc 0" using 1(2) by (simp only: eq div_add_self1)
      then show ?thesis using True 1(2) by simp
    next
      case False
      then have "length xs + n - 1 = n + (length (drop n xs) + n - 1)" by simp
      moreover have "0 < n" using \<open>\<not> (xs = [] \<or> n = 0)\<close> by simp
      ultimately show ?thesis by (simp only: div_add_self1)
    qed
    then show ?thesis
      using False IH by (subst chunks.simps) (simp add: upt_conv_Cons map_Suc_upt [symmetric] comp_def add.commute
          del: upt_Suc)
  qed
qed

text \<open>The lines of a listing: all of them, or the first and the last ten around a summary.\<close>

definition listing :: "(nat \<Rightarrow> rtext) \<Rightarrow> nat \<Rightarrow> rtext list" where
  "listing line n =
     (if n \<le> 20 then map line [0..<n]
      else map line [0..<10] @ [txt_of ''         ... '' @ dec (n - 20) @ txt_of '' blocks omitted ...''] @
        map line [n - 10..<n])"

lemma listing_lines:
  "concat (map (block_lines lba n) (map (\<lambda>i. (i, f i)) [0..<n])) = listing (\<lambda>i. read_line (lba + of_nat i) (f i)) n"
proof (cases "n \<le> 20")
  case True
  then have "concat (map (block_lines lba n) (map (\<lambda>i. (i, f i)) xs)) = map (\<lambda>i. read_line (lba + of_nat i) (f i)) xs" for xs
    by (induction xs) (simp_all add: block_lines_def HEAD_def TAIL_def)
  with True show ?thesis by (simp only: listing_def if_True)
next
  case False
  let ?g = "block_lines lba n \<circ> (\<lambda>i. (i, f i))" and ?line = "\<lambda>i. read_line (lba + of_nat i) (f i)"
  have shown: "concat (map ?g xs) = map ?line xs" if "\<forall>i \<in> set xs. i < 10 \<or> n - 10 \<le> i" for xs
    using that by (induction xs) (auto simp: block_lines_def HEAD_def TAIL_def)
  have hidden: "concat (map ?g xs) = []" if "\<forall>i \<in> set xs. 10 < i \<and> i < n - 10" for xs
    using that False by (induction xs) (auto simp: block_lines_def HEAD_def TAIL_def)
  have ten: "?g 10 = [txt_of ''         ... '' @ dec (n - 20) @ txt_of '' blocks omitted ...'']"
  proof -
    have "10 < n - 10" "20 < n" using False by arith+
    then show ?thesis by (simp add: block_lines_def HEAD_def TAIL_def)
  qed
  have "[0..<n] = [0..<10] @ [10..<n]" using False upt_add_eq_append [of 0 10 "n - 10"] by simp
  moreover have "[10..<n] = 10 # [11..<n]" using False by (simp add: upt_conv_Cons)
  moreover have "[11..<n] = [11..<n - 10] @ [n - 10..<n]"
    using False upt_add_eq_append [of 11 "n - 10" 10] by simp
  ultimately have split: "[0..<n] = [0..<10] @ [10] @ [11..<n - 10] @ [n - 10..<n]" by simp
  have "concat (map ?g [0..<n]) = concat (map ?g [0..<10]) @ ?g 10 @ concat (map ?g [11..<n - 10]) @
      concat (map ?g [n - 10..<n])"
    by (subst split) (simp only: map_append concat_append list.map concat.simps append_Nil2)
  also have "concat (map ?g [0..<10]) = map ?line [0..<10]" by (rule shown) simp
  also have "concat (map ?g [11..<n - 10]) = []" by (rule hidden) simp
  also have "concat (map ?g [n - 10..<n]) = map ?line [n - 10..<n]" by (rule shown) simp
  also have "map ?line [0..<10] @ ?g 10 @ [] @ map ?line [n - 10..<n] = listing ?line n"
    using False by (simp only: ten listing_def if_False append_Nil)
  finally show ?thesis by (simp only: map_map)
qed

lemma run_print_read:
  assumes "0 < unat bs" and "length data < 2 ^ 64"
  shows "print_read lba data bs (dr, w) = (Ok (), (dr, w\<lparr>log := log w @ map Print
    ((txt_of ''read '' @ dec (length data) @ txt_of '' bytes from device-lba '' @ udec lba @ txt_of '':'') #
     listing (\<lambda>i. read_line (lba + of_nat i) (take (unat bs) (drop (i * unat bs) data)))
       ((length data + unat bs - 1) div unat bs))\<rparr>))"
proof -
  let ?n = "(length data + unat bs - 1) div unat bs"
  have "unat (of_nat (length data) :: u64) = length data" using assms(2) by (intro unat_of_nat_small) simp
  then have n: "unat (div_ceil (of_nat (length data)) bs) = ?n" using unat_div_ceil [OF assms(1)] by simp
  have enum: "enumerate 0 (chunks (unat bs) data) = map (\<lambda>i. (i, take (unat bs) (drop (i * unat bs) data))) [0..<?n]"
    unfolding chunks_map [OF assms(1)] by (rule nth_equalityI) (simp_all add: nth_enumerate_eq del: upt_Suc)
  have "bs \<noteq> 0" using assms(1) by auto
  then show ?thesis
    unfolding print_read_def Let_def n enum listing_lines
    by (simp add: run_andthen say_def println_def run_on_snd run_access run_say_lines)
qed

text \<open>
  C36: The listing of a read. After the header come the blocks in order, each under its own
  device block number; with more than twenty blocks, the first ten, one line that counts the
  omitted ones, and the last ten. A last chunk shorter than a block is shown too.
\<close>

theorem read_listing_elides_the_middle:
  assumes "0 < unat bs" and "length data < 2 ^ 64"
  shows "print_read lba data bs (dr, w) = (Ok (), (dr, w\<lparr>log := log w @ map Print
    ((txt_of ''read '' @ dec (length data) @ txt_of '' bytes from device-lba '' @ udec lba @ txt_of '':'') #
     listing (\<lambda>i. read_line (lba + of_nat i) (take (unat bs) (drop (i * unat bs) data)))
       ((length data + unat bs - 1) div unat bs))\<rparr>))"
  by (rule run_print_read [OF assms])

end
