(* ===== verification/Driver_Open.thy ===== *)
theory Driver_Open
  imports Driver_Safety
begin

text \<open>
  Bringing the controller up: waiting for it, resetting and enabling it, the entry size check,
  and what \<open>open\<close> leaves mapped and establishes.
\<close>

unbundle bit_operations_syntax

section \<open>Waiting for CSTS.RDY\<close>

definition status_seen :: "'d device \<Rightarrow> 'd world \<Rightarrow> u32" where
  "status_seen D w = fst (dev_read32 D (dev (step_device D w)) CSTS)"

definition status_read :: "'d device \<Rightarrow> 'd world \<Rightarrow> 'd world" where
  "status_read D w = (step_device D w)\<lparr>dev := snd (dev_read32 D (dev (step_device D w)) CSTS)\<rparr>"

text \<open>One round that did not decide: the status was read, then the driver slept.\<close>

definition ready_round :: "'d device \<Rightarrow> 'd world \<Rightarrow> 'd world" where
  "ready_round D w = (status_read D w)\<lparr>log := log w @ [Sleep 5]\<rparr>"

definition decides :: "bool \<Rightarrow> u32 \<Rightarrow> bool" where
  "decides want status \<longleftrightarrow> status AND 2 \<noteq> 0 \<or> (status AND 1 \<noteq> 0) = want"

lemma log_status_read [simp]: "log (status_read D w) = log w"
  by (simp add: status_read_def)

lemma log_ready_rounds: "log ((ready_round D ^^ k) w) = log w @ replicate k (Sleep 5)"
  by (induction k) (simp_all add: ready_round_def replicate_append_same)

lemma wait_round:
  assumes "reg_ok 4 bar CSTS"
  shows "wait_ready_polls D bar want (Suc n) w =
    (if decides want (status_seen D w)
     then (if status_seen D w AND 2 \<noteq> 0 then Err FatalStatus else Ok (), status_read D w)
     else wait_ready_polls D bar want n (ready_round D w))"
  by (simp add: read_status_def run_simps reg32.rd_allowed [OF assms] decides_def status_seen_def
      status_read_def ready_round_def)

definition first_decision :: "'d device \<Rightarrow> bool \<Rightarrow> nat \<Rightarrow> 'd world \<Rightarrow> nat option" where
  "first_decision D want n w = find (\<lambda>k. decides want (status_seen D ((ready_round D ^^ k) w))) [0..<n]"

lemma first_decision_Suc: "first_decision D want (Suc n) w =
   (if decides want (status_seen D w) then Some 0
    else map_option Suc (first_decision D want n (ready_round D w)))"
proof -
  have find_map: "find P (map f xs) = map_option f (find (P \<circ> f) xs)" for P and f :: "nat \<Rightarrow> nat" and xs
    by (induction xs) simp_all
  have "[0..<Suc n] = 0 # map Suc [0..<n]" by (simp add: map_Suc_upt upt_conv_Cons del: upt_Suc)
  then show ?thesis
    by (simp add: first_decision_def find_map comp_def funpow_swap1 del: upt_Suc)
qed

lemma wait_polls:
  assumes "reg_ok 4 bar CSTS"
  shows "wait_ready_polls D bar want n w = (case first_decision D want n w of
      None \<Rightarrow> (Err ReadyTimedOut, (ready_round D ^^ n) w)
    | Some k \<Rightarrow> (let v = (ready_round D ^^ k) w in
        (if status_seen D v AND 2 \<noteq> 0 then Err FatalStatus else Ok (), status_read D v)))"
proof (induction n arbitrary: w)
  case 0
  then show ?case by (simp add: first_decision_def run_simps)
next
  case (Suc n)
  show ?case
    unfolding wait_round [OF assms] first_decision_Suc
    using Suc.IH [of "ready_round D w"]
    by (auto simp: Let_def funpow_swap1 split: option.split)
qed

text \<open>
  C19: Waiting for the controller returns for every controller, after at most 1000 reads of CSTS
  with 5 ms between them. The first status that shows a fatal error or the awaited RDY value
  decides: an error if it is fatal (even when RDY has the awaited value too), success otherwise;
  when none of the 1000 does, a timeout. The driver writes nothing meanwhile.
\<close>

theorem wait_ready_decides:
  assumes "reg_ok 4 bar CSTS"
  shows "case find (\<lambda>k. decides want (status_seen D ((ready_round D ^^ k) w))) [0..<1000] of
      None \<Rightarrow> fst (wait_ready D bar want w) = Err ReadyTimedOut \<and>
        log (snd (wait_ready D bar want w)) = log w @ replicate 1000 (Sleep 5)
    | Some k \<Rightarrow> fst (wait_ready D bar want w) =
          (if status_seen D ((ready_round D ^^ k) w) AND 2 \<noteq> 0 then Err FatalStatus else Ok ()) \<and>
        log (snd (wait_ready D bar want w)) = log w @ replicate k (Sleep 5)"
  unfolding first_decision_def [symmetric] wait_ready_def wait_polls [OF assms]
  by (simp add: Let_def log_ready_rounds split: option.split)

section \<open>Reset and enable\<close>

lemma wait_trace:
  assumes "reg_ok 4 bar CSTS"
  shows "\<exists>k\<le>1000. log (snd (wait_ready D bar want w)) = log w @ replicate k (Sleep 5)"
    and "fst (wait_ready D bar want w) \<in> {Ok (), Err FatalStatus, Err ReadyTimedOut}"
proof -
  show "\<exists>k\<le>1000. log (snd (wait_ready D bar want w)) = log w @ replicate k (Sleep 5)"
  proof (cases "first_decision D want 1000 w")
    case None
    then show ?thesis
      by (intro exI [of _ 1000]) (simp add: wait_ready_def wait_polls [OF assms] log_ready_rounds)
  next
    case (Some k)
    then have "k \<in> set [0..<1000]"
      unfolding first_decision_def by (metis find_Some_iff nth_mem)
    with Some show ?thesis
      by (intro exI [of _ k]) (simp add: wait_ready_def wait_polls [OF assms] log_ready_rounds Let_def)
  qed
  show "fst (wait_ready D bar want w) \<in> {Ok (), Err FatalStatus, Err ReadyTimedOut}"
    by (simp add: wait_ready_def wait_polls [OF assms] Let_def split: option.split)
qed

lemma config_registers:
  assumes "hardware_ok bar region stride"
  shows "reg_ok 4 bar CC" "reg_ok 4 bar CSTS" "reg_ok 4 bar AQA" "reg_ok 8 bar ASQ" "reg_ok 8 bar ACQ"
    "reg_ok 8 bar CAP"
  using assms by (simp_all add: hardware_ok_def reg_ok_def register_defs)

definition enable_writes :: "driver \<Rightarrow> event list" where
  "enable_writes dr =
     [RegWrite32 AQA 0x3F003F, RegWrite64 ASQ (physical_address (drv_dma dr)),
      RegWrite64 ACQ (physical_address (drv_dma dr) + 0x1000), RegWrite32 CC 0x460001]"

lemma reset_trace:
  assumes ok: "hardware_ok (drv_bar dr) (drv_dma dr) (doorbell_stride dr)"
    and run: "reset_and_enable D dr w = (r, w')"
  shows "\<exists>k j. k \<le> 1000 \<and> j \<le> 1000 \<and>
    (let cc = fst (dev_read32 D (dev (step_device D w)) CC);
         reset = log w @ [RegWrite32 CC (cc AND NOT 1)] @ replicate k (Sleep 5)
     in (r \<in> {Err FatalStatus, Err ReadyTimedOut} \<and> log w' = reset) \<or>
        (r \<in> {Ok (), Err FatalStatus, Err ReadyTimedOut} \<and>
         log w' = reset @ enable_writes dr @ replicate j (Sleep 5)))"
proof -
  note regs = config_registers [OF ok]
  let ?cc = "fst (dev_read32 D (dev (step_device D w)) CC)"
  define w1 where "w1 = snd (write_configuration D (drv_bar dr) (?cc AND NOT 1)
    (snd (read_configuration D (drv_bar dr) w)))"
  have log1: "log w1 = log w @ [RegWrite32 CC (?cc AND NOT 1)]"
    by (simp add: w1_def write_configuration_def read_configuration_def reg32.wr_allowed [OF regs(1)]
        reg32.rd_allowed [OF regs(1)])
  let ?wait = "wait_ready D (drv_bar dr) False w1"
  obtain k where k: "k \<le> 1000" "log (snd ?wait) = log w1 @ replicate k (Sleep 5)"
    using wait_trace(1) [OF regs(2)] by blast
  have r1: "fst ?wait \<in> {Ok (), Err FatalStatus, Err ReadyTimedOut}" by (rule wait_trace(2) [OF regs(2)])
  have vals: "push_bit 16 (ucast QUEUE_DEPTH - 1) OR (ucast QUEUE_DEPTH - 1) = (0x3F003F :: u32)"
    "push_bit 20 IO_COMPLETION_ENTRY_SIZE_EXPONENT OR push_bit 16 IO_SUBMISSION_ENTRY_SIZE_EXPONENT OR 1
      = 0x460001"
    by (simp_all add: QUEUE_DEPTH_def IO_COMPLETION_ENTRY_SIZE_EXPONENT_def
        IO_SUBMISSION_ENTRY_SIZE_EXPONENT_def)
  define program where "program = andthen (write_admin_queue_attributes D (drv_bar dr) 0x3F003F) (\<lambda>_.
      andthen (write_admin_submission_queue D (drv_bar dr) (admin_submission_queue_physical_address dr)) (\<lambda>_.
      andthen (write_admin_completion_queue D (drv_bar dr) (admin_completion_queue_physical_address dr)) (\<lambda>_.
      andthen (write_configuration D (drv_bar dr) 0x460001) (\<lambda>_.
      wait_ready D (drv_bar dr) True))))"
  have run1: "reset_and_enable D dr w = andthen (wait_ready D (drv_bar dr) False) (\<lambda>_. program) w1"
    by (simp add: reset_and_enable_def Let_def vals program_def w1_def run_andthen write_configuration_def
        read_configuration_def reg32.wr_allowed [OF regs(1)] reg32.rd_allowed [OF regs(1)])
  show ?thesis
  proof (cases "fst ?wait")
    case (Ok x)
    define w2 where "w2 = snd (write_configuration D (drv_bar dr) 0x460001
      (snd (write_admin_completion_queue D (drv_bar dr) (admin_completion_queue_physical_address dr)
      (snd (write_admin_submission_queue D (drv_bar dr) (admin_submission_queue_physical_address dr)
      (snd (write_admin_queue_attributes D (drv_bar dr) 0x3F003F (snd ?wait))))))))"
    have p: "program (snd ?wait) = wait_ready D (drv_bar dr) True w2"
      by (simp add: program_def w2_def run_andthen write_configuration_def write_admin_completion_queue_def
          write_admin_submission_queue_def write_admin_queue_attributes_def reg32.wr_allowed [OF regs(1)]
          reg32.wr_allowed [OF regs(3)] reg64.wr_allowed [OF regs(4)] reg64.wr_allowed [OF regs(5)])
    have log2: "log w2 = log (snd ?wait) @ enable_writes dr"
      by (simp add: w2_def run_andthen write_configuration_def write_admin_completion_queue_def
          write_admin_submission_queue_def write_admin_queue_attributes_def reg32.wr_allowed [OF regs(1)]
          reg32.wr_allowed [OF regs(3)] reg64.wr_allowed [OF regs(4)] reg64.wr_allowed [OF regs(5)]
          enable_writes_def admin_submission_queue_physical_address_def
          admin_completion_queue_physical_address_def physical_address_at_def layout_defs)
    obtain j where j: "j \<le> 1000" "log (snd (wait_ready D (drv_bar dr) True w2)) = log w2 @ replicate j (Sleep 5)"
      using wait_trace(1) [OF regs(2)] by blast
    have "(r, w') = wait_ready D (drv_bar dr) True w2" using run Ok by (simp add: run1 run_andthen p)
    then have "r = fst (wait_ready D (drv_bar dr) True w2)" "w' = snd (wait_ready D (drv_bar dr) True w2)"
      by (metis fst_conv, metis snd_conv)
    then show ?thesis
      using k j log1 log2 wait_trace(2) [OF regs(2), of D True w2]
      by (intro exI [of _ k] exI [of _ j]) (simp add: Let_def)
  next
    case (Err e)
    then have "r = Err e \<and> w' = snd ?wait" using run by (simp add: run1 run_andthen)
    then show ?thesis
      using k log1 r1 Err by (intro exI [of _ k] exI [of _ 0]) (auto simp: Let_def)
  next
    case (Panic q)
    then show ?thesis using r1 by simp
  qed
qed


lemma entry_size_fields:
  "map_of (layout_from 0 identify_controller) ''sqes'' = Some (512, 1)"
  "map_of (layout_from 0 identify_controller) ''cqes'' = Some (513, 1)"
  by (simp_all add: identify_controller_def round_up_def)

lemma byte_at: "i < length data \<Longrightarrow> of_le (take (Suc 0) (drop i data)) = data ! i"
  by (simp add: take_Suc hd_drop_conv_nth)

lemma nibbles: "unat (b AND 0xF) = unat b mod 16" "unat (drop_bit 4 b) = unat b div 16" for b :: u8
proof -
  show "unat (b AND 0xF) = unat b mod 16" by (simp only: unat_bits) simp
  show "unat (drop_bit 4 b) = unat b div 16" by (simp only: unat_bits) simp
qed

lemma entry_size_accepted_iff:
  "entry_size_accepted b 6 \<longleftrightarrow> unat b mod 16 \<le> 6 \<and> 6 \<le> unat b div 16"
  "entry_size_accepted b 4 \<longleftrightarrow> unat b mod 16 \<le> 4 \<and> 4 \<le> unat b div 16"
  by (simp_all add: entry_size_accepted_def word_le_nat_alt nibbles)

text \<open>
  The entry size check accepts exactly the controllers whose required and maximal entry
  sizes (the two nibbles of SQES and CQES, in bytes 512 and 513 of the Identify data) enclose 64
  bytes for submission and 16 bytes for completion entries; otherwise it reports the range it
  found, for the submission side first.
\<close>

lemma entry_sizes_checked:
  assumes "identify D IdController 0 (dr, w) = (Ok data, s)" and "length data = 4096"
  shows "let sq = unat (data ! 512); cq = unat (data ! 513);
      r = fst (check_queue_entry_sizes D (dr, w))
    in (r = Ok () \<longleftrightarrow> sq mod 16 \<le> 6 \<and> 6 \<le> sq div 16 \<and> cq mod 16 \<le> 4 \<and> 4 \<le> cq div 16) \<and>
      (\<not> (sq mod 16 \<le> 6 \<and> 6 \<le> sq div 16) \<longrightarrow>
         (\<exists>lo hi. r = Err (SqEntrySizeExcluded lo hi) \<and> unat lo = sq mod 16 \<and> unat hi = sq div 16))"
proof -
  let ?s = "data ! 512" and ?c = "data ! 513"
  have fields: "field_le identify_controller ''sqes'' data = ?s" "field_le identify_controller ''cqes'' data = ?c"
    using assms(2) by (simp_all only: field_le_def field_bytes_def entry_size_fields option.case prod.case)
      (simp_all add: byte_at)
  have pre: "read_from_prefix identify_controller data = Some data"
    using assms(2) by (simp only: read_from_prefix_def identify_sizes) simp
  have run: "fst (check_queue_entry_sizes D (dr, w)) =
      (if \<not> entry_size_accepted ?s 6 then Err (SqEntrySizeExcluded (?s AND 0xF) (drop_bit 4 ?s))
       else if \<not> entry_size_accepted ?c 4 then Err (CqEntrySizeExcluded (?c AND 0xF) (drop_bit 4 ?c))
       else Ok ())"
    by (simp add: check_queue_entry_sizes_def run_andthen assms(1) pre fields Let_def run_ret run_fail
        IO_SUBMISSION_ENTRY_SIZE_EXPONENT_def IO_COMPLETION_ENTRY_SIZE_EXPONENT_def)
  show ?thesis
    unfolding Let_def run entry_size_accepted_iff(1) entry_size_accepted_iff(2)
    using nibbles by auto
qed

section \<open>Opening the device\<close>

text \<open>No operation changes the driver's hardware or namespace, whatever state it starts in.\<close>

definition keeps_hardware :: "('d machine, 'a) prog \<Rightarrow> bool" where
  "keeps_hardware p \<longleftrightarrow> (\<forall>s. same_hardware (fst s) (fst (snd (p s))))"

named_theorems hardware_rules "decomposition of keeps_hardware along the structure of a program"

lemma keeps_hardware_basic [hardware_rules]:
  "keeps_hardware (ret x)" "keeps_hardware (fail e)" "keeps_hardware (gets f)"
  "keeps_hardware (of_outcome r)" "keeps_hardware (on_snd p)"
  "keeps_hardware (admin_submit D c)"
  "keeps_hardware (on_fst (modify (\<lambda>dr. dr\<lparr>block_sizes := g dr\<rparr>)))"
  by (auto simp: keeps_hardware_def run_simps same_hardware_def admin_submit_def split: prod.split)

lemma keeps_hardware_andthen [hardware_rules]:
  assumes "keeps_hardware p" and "\<And>x. keeps_hardware (f x)"
  shows "keeps_hardware (andthen p f)"
  unfolding keeps_hardware_def
proof
  fix s
  have "same_hardware (fst s) (fst (snd (p s)))" using assms(1) unfolding keeps_hardware_def by blast
  moreover have "same_hardware (fst (snd (p s))) (fst (snd (f x (snd (p s)))))" for x
    using assms(2) unfolding keeps_hardware_def by blast
  ultimately show "same_hardware (fst s) (fst (snd (andthen p f s)))"
    unfolding run_andthen same_hardware_def by (auto split: outcome.split)
qed

lemma keeps_hardware_cases [hardware_rules]:
  "(c \<Longrightarrow> keeps_hardware p) \<Longrightarrow> (\<not> c \<Longrightarrow> keeps_hardware q) \<Longrightarrow> keeps_hardware (if c then p else q)"
  "keeps_hardware p \<Longrightarrow> (\<And>y. keeps_hardware (g y)) \<Longrightarrow>
   keeps_hardware (case x of None \<Rightarrow> p | Some y \<Rightarrow> g y)"
  by (simp_all split: option.split)

lemma bring_up_keeps_hardware: "keeps_hardware (bring_up D)"
  unfolding bring_up_def check_queue_entry_sizes_def create_io_queues_def namespace_block_size_def
    identify_block_size_def identify_def Let_def
  by (intro hardware_rules)

lemma namespace_block_size_caches:
  "namespace_block_size D nsid (dr, w) = (Ok bs, (dr', w')) \<Longrightarrow> block_sizes dr' nsid = Some bs"
  by (auto simp: namespace_block_size_def identify_block_size_def run_simps run_on_fst_pair Let_def
      split: option.splits outcome.splits if_splits prod.splits)

lemma bring_up_safe:
  assumes "driver_ok dr0"
  shows "safe (\<lambda>s. log (snd s)) (\<lambda>s. driver_at dr0 (fst s)) (\<lambda>_. True) (bring_up D) (\<lambda>_. True)"
proof -
  have any: "safe lg I P p Q \<Longrightarrow> safe lg I (\<lambda>_. True) p (\<lambda>_. True)" for lg I P p Q
    by (erule safe_weaken) simp_all
  have reset: "safe log (\<lambda>_. True) (\<lambda>_. True) (reset_and_enable D dr) (\<lambda>_. True)" if "driver_at dr0 dr" for dr
  proof (rule safeI)
    fix w
    obtain r w' where run: "reset_and_enable D dr w = (r, w')" by (metis prod.exhaust)
    have hw: "hardware_ok (drv_bar dr) (drv_dma dr) (doorbell_stride dr)"
      using driver_atD(5) [OF that] by (simp add: driver_ok_def)
    show "\<exists>es. log (snd (reset_and_enable D dr w)) = log w @ es \<and> list_all (\<lambda>_. True) es"
      using reset_trace [OF hw run] by (auto simp: run list_all_iff Let_def)
    show "fst (reset_and_enable D dr w) \<noteq> Panic q" for q
      using reset_trace [OF hw run] by (auto simp: run Let_def)
  qed simp_all
  have pause: "safe (\<lambda>s. log (snd s)) (\<lambda>s. driver_at dr0 (fst s)) (\<lambda>_. True) (on_snd pause) (\<lambda>_. True)"
    by (intro safe_on_snd safe_rules) simp_all
  show ?thesis
    unfolding bring_up_def
    by (rule safe_andthen [where R = "driver_at dr0", OF safe_pure(3)], simp,
        intro safe_andthen [OF safe_on_snd [OF reset]] safe_andthen [OF pause]
          safe_andthen [OF any [OF check_queue_entry_sizes_safe]]
          safe_andthen [OF any [OF create_io_queues_safe]]
          safe_andthen [OF any [OF namespace_block_size_safe]] safe_pure(1)) simp_all
qed

text \<open>The mappings that exist after a sequence of calls.\<close>

definition track :: "(usize \<times> usize) list \<Rightarrow> os_call \<Rightarrow> (usize \<times> usize) list" where
  "track ms c = (case c of
     Mmap a n \<Rightarrow> (a, n) # ms | MmapResource a n \<Rightarrow> (a, n) # ms
   | Munmap a n \<Rightarrow> remove1 (a, n) ms | _ \<Rightarrow> ms)"

definition live :: "os_call list \<Rightarrow> (usize \<times> usize) list" where
  "live cs = foldl track [] cs"

lemma live_simps [simp]: "live [] = []" "live (cs @ [c]) = track (live cs) c"
  by (simp_all add: live_def)

text \<open>The mappings a region stands for.\<close>

definition mapping_of :: "driver \<Rightarrow> (usize \<times> usize) list" where
  "mapping_of dr = [(virtual_address (drv_dma dr), dma_length (drv_dma dr)),
     (bar_address (drv_bar dr), bar_length (drv_bar dr))]"

lemma run_driver_cases:
  obtains (up) dr' w' where "run_driver dr (bring_up D) w = (Ok dr', w')" "same_hardware dr dr'"
  | (down) "\<And>x. fst (run_driver dr (bring_up D) w) \<noteq> Ok x"
proof -
  obtain r dr' w' where b: "bring_up D (dr, w) = (r, (dr', w'))" by (metis prod.exhaust)
  have "same_hardware (fst (dr, w)) (fst (snd (bring_up D (dr, w))))"
    using bring_up_keeps_hardware unfolding keeps_hardware_def by blast
  then have "same_hardware dr dr'" by (simp add: b)
  then show thesis by (cases r) (auto simp: run_driver_def b intro: up down)
qed

lemma run_bar_map:
  "(\<exists>e. bar_map os bdf i cs = (Err e, cs)) \<or>
   (\<exists>b. bar_map os bdf i cs = (Ok b, cs @ [MmapResource (bar_address b) (bar_length b)]))"
  by (auto simp: bar_map_def os_did_def run_simps split: option.split sum.split)

lemma run_alloc_huge:
  "(\<exists>e. alloc_huge os cs = (Err e, cs)) \<or>
   (\<exists>e va. alloc_huge os cs = (Err e, cs @ [Mmap va HUGE_PAGE_SIZE, ZeroFill va HUGE_PAGE_SIZE, Munmap va HUGE_PAGE_SIZE])) \<or>
   (\<exists>e va. os_mmap os HUGE_PAGE_SIZE = Inr va \<and> virtual_to_physical os va = Err e \<and>
      alloc_huge os cs = (Err e, cs @ [Mmap va HUGE_PAGE_SIZE, ZeroFill va HUGE_PAGE_SIZE, Mlock va HUGE_PAGE_SIZE])) \<or>
   (\<exists>region va. alloc_huge os cs = (Ok region, cs @ [Mmap va HUGE_PAGE_SIZE, ZeroFill va HUGE_PAGE_SIZE, Mlock va HUGE_PAGE_SIZE]) \<and>
      virtual_address region = va \<and> dma_length region = HUGE_PAGE_SIZE)"
proof -
  have np: "virtual_to_physical os va \<noteq> Panic q" for va q
    by (simp add: virtual_to_physical_def Let_def split: sum.split)
  show ?thesis
    by (auto simp: alloc_huge_def os_did_def run_simps np split: option.split sum.split outcome.split)
qed

text \<open>
  \<open>mapped ms p Q E\<close>: started with the mappings \<open>ms\<close>, \<open>p\<close> ends with a result and mappings that
  satisfy \<open>Q\<close>, or with an error (\<open>None\<close> for a panic) and mappings that satisfy \<open>E\<close>.
\<close>

definition ends ::
  "('a \<Rightarrow> 'm \<Rightarrow> bool) \<Rightarrow> (io_error option \<Rightarrow> 'm \<Rightarrow> bool) \<Rightarrow> 'a outcome \<Rightarrow> 'm \<Rightarrow> bool" where
  "ends Q E r ms = (case r of Ok x \<Rightarrow> Q x ms | Err e \<Rightarrow> E (Some e) ms | Panic q \<Rightarrow> E None ms)"

lemma ends_simps [simp]:
  "ends Q E (Ok x) ms = Q x ms" "ends Q E (Err e) ms = E (Some e) ms" "ends Q E (Panic q) ms = E None ms"
  by (simp_all add: ends_def)

definition mapped ::
  "(usize \<times> usize) list \<Rightarrow> (os_call list \<times> 'w, 'a) prog \<Rightarrow> ('a \<Rightarrow> (usize \<times> usize) list \<Rightarrow> bool) \<Rightarrow>
   (io_error option \<Rightarrow> (usize \<times> usize) list \<Rightarrow> bool) \<Rightarrow> bool" where
  "mapped ms p Q E \<longleftrightarrow> (\<forall>s. live (fst s) = ms \<longrightarrow> ends Q E (fst (p s)) (live (fst (snd (p s)))))"

lemma mappedI: "(\<And>s. live (fst s) = ms \<Longrightarrow> ends Q E (fst (p s)) (live (fst (snd (p s))))) \<Longrightarrow> mapped ms p Q E"
  by (simp add: mapped_def)

lemma mappedD: "mapped ms p Q E \<Longrightarrow> live (fst s) = ms \<Longrightarrow> ends Q E (fst (p s)) (live (fst (snd (p s))))"
  unfolding mapped_def by blast

lemma mapped_andthen:
  assumes "mapped ms p R E" and "\<And>x ms'. R x ms' \<Longrightarrow> mapped ms' (f x) Q E"
  shows "mapped ms (andthen p f) Q E"
proof (rule mappedI)
  fix s :: "os_call list \<times> 'a" assume "live (fst s) = ms"
  note p = mappedD [OF assms(1) this]
  show "ends Q E (fst (andthen p f s)) (live (fst (snd (andthen p f s))))"
  proof (cases "fst (p s)")
    case (Ok x)
    then have "mapped (live (fst (snd (p s)))) (f x) Q E" using p assms(2) by simp
    from mappedD [OF this refl] show ?thesis by (simp add: run_andthen Ok)
  qed (use p in \<open>simp_all add: run_andthen\<close>)
qed

lemma mapped_or_drop:
  assumes "mapped ms p Q F" and "\<And>e ms'. F e ms' \<Longrightarrow> mapped ms' d (\<lambda>_. E e) (\<lambda>_. E e)"
  shows "mapped ms (or_drop p d) Q E"
proof (rule mappedI)
  fix s :: "os_call list \<times> 'a" assume "live (fst s) = ms"
  note p = mappedD [OF assms(1) this]
  have d: "E e (live (fst (snd (d (snd (p s))))))" if "F e (live (fst (snd (p s))))" for e
    using mappedD [OF assms(2) [OF that] refl] by (cases "fst (d (snd (p s)))") simp_all
  obtain r s' where ps: "p s = (r, s')" by (metis prod.exhaust)
  show "ends Q E (fst (or_drop p d s)) (live (fst (snd (or_drop p d s))))"
    using p d by (cases r) (auto simp: or_drop_def ps)
qed

lemma mapped_weaken:
  assumes "mapped ms p Q E" and "\<And>x ms. Q x ms \<Longrightarrow> Q' x ms" and "\<And>x ms. E x ms \<Longrightarrow> E' x ms"
  shows "mapped ms p Q' E'"
proof (rule mappedI)
  fix s :: "os_call list \<times> 'a" assume "live (fst s) = ms"
  from mappedD [OF assms(1) this] show "ends Q' E' (fst (p s)) (live (fst (snd (p s))))"
    using assms(2,3) by (cases "fst (p s)") simp_all
qed

lemma mapped_machine:
  "(\<And>w x. fst (p w) = Ok x \<Longrightarrow> Q x ms) \<Longrightarrow> (\<And>e. E e ms) \<Longrightarrow> mapped ms (on_snd p) Q E"
  "(\<And>x. r = Ok x \<Longrightarrow> Q x ms) \<Longrightarrow> (\<And>e. E e ms) \<Longrightarrow> mapped ms (of_outcome r) Q E"
  "Q y ms \<Longrightarrow> mapped ms (ret y) Q E"
  by (auto simp: mapped_def ends_def run_simps split: outcome.split)

lemma mapped_drops:
  "(\<And>u. Q u (remove1 (bar_address b, bar_length b) ms)) \<Longrightarrow> mapped ms (on_fst (drop_bar b)) Q E"
  "(\<And>u. Q u (remove1 (virtual_address region, dma_length region) ms)) \<Longrightarrow> mapped ms (on_fst (drop_region region)) Q E"
  "on_fst (andthen p f) = andthen (on_fst p) (\<lambda>x. on_fst (f x))"
  by (auto simp: mapped_def drop_bar_def drop_region_def os_did_def run_simps track_def fun_eq_iff
      split: outcome.split)

lemma mapped_bar_map:
  "mapped ms (on_fst (bar_map os bdf i)) (\<lambda>b ms'. ms' = (bar_address b, bar_length b) # ms) (\<lambda>_ ms'. ms' = ms)"
proof (rule mappedI)
  fix s :: "os_call list \<times> 'a" assume "live (fst s) = ms"
  with run_bar_map [of os bdf i "fst s"]
  show "ends (\<lambda>b ms'. ms' = (bar_address b, bar_length b) # ms) (\<lambda>_ ms'. ms' = ms)
      (fst (on_fst (bar_map os bdf i) s)) (live (fst (snd (on_fst (bar_map os bdf i) s))))"
    by (cases s) (auto simp: run_on_fst track_def)
qed

text \<open>The mapping that \<open>alloc_huge\<close> leaves behind when it cannot find the physical address.\<close>

definition leaked :: "mem_os \<Rightarrow> io_error option \<Rightarrow> (usize \<times> usize) list \<Rightarrow> bool" where
  "leaked os x left \<longleftrightarrow> (\<exists>va e. os_mmap os HUGE_PAGE_SIZE = Inr va \<and> virtual_to_physical os va = Err e \<and>
     x = Some e \<and> left = [(va, HUGE_PAGE_SIZE)])"

lemma mapped_alloc_huge:
  "mapped ms (on_fst (alloc_huge os))
     (\<lambda>region ms'. ms' = (virtual_address region, HUGE_PAGE_SIZE) # ms \<and> dma_length region = HUGE_PAGE_SIZE)
     (\<lambda>x ms'. ms' = ms \<or> (\<exists>left. leaked os x left \<and> ms' = left @ ms))"
proof (rule mappedI)
  fix s :: "os_call list \<times> 'a" assume ms: "live (fst s) = ms"
  then have steps: "live (fst s @ [Mmap va n, ZeroFill va n, Munmap va n]) = ms"
    "live (fst s @ [Mmap va n, ZeroFill va n, Mlock va n]) = (va, n) # ms" for va n
    by (simp_all add: live_def track_def)
  from run_alloc_huge [of os "fst s"]
  show "ends (\<lambda>region ms'. ms' = (virtual_address region, HUGE_PAGE_SIZE) # ms \<and> dma_length region = HUGE_PAGE_SIZE)
      (\<lambda>x ms'. ms' = ms \<or> (\<exists>left. leaked os x left \<and> ms' = left @ ms))
      (fst (on_fst (alloc_huge os) s)) (live (fst (snd (on_fst (alloc_huge os) s))))"
    by (cases s; elim disjE exE conjE) (use ms steps in \<open>auto simp: run_on_fst leaked_def\<close>)
qed

text \<open>The end of \<open>open\<close>, with both mappings made.\<close>

definition both :: "nvme_bar \<Rightarrow> dma_region \<Rightarrow> (usize \<times> usize) list" where
  "both bar region = [(virtual_address region, dma_length region), (bar_address bar, bar_length bar)]"

lemma mapped_drop_both:
  "mapped (both bar region) (on_fst (andthen (drop_bar bar) (\<lambda>_. drop_region region))) (\<lambda>_ ms. ms = []) E"
  "mapped (both bar region) (on_fst (andthen (drop_region region) (\<lambda>_. drop_bar bar))) (\<lambda>_ ms. ms = []) E"
  by (auto simp: mapped_def both_def drop_bar_def drop_region_def os_did_def run_simps live_def track_def)

lemma mapped_bring_up:
  "mapped (both bar region)
    (or_drop (on_snd (run_driver (driver_new bar region capabilities nsid) (bring_up D)))
      (on_fst (andthen (drop_bar bar) (\<lambda>_. drop_region region))))
    (\<lambda>dr ms. ms = mapping_of dr) (\<lambda>_ ms. ms = [])"
proof (rule mapped_or_drop, rule mapped_machine(1) [where E = "\<lambda>_ ms. ms = both bar region"])
  fix w dr assume "fst (run_driver (driver_new bar region capabilities nsid) (bring_up D) w) = Ok dr"
  then have "same_hardware (driver_new bar region capabilities nsid) dr"
    by (cases rule: run_driver_cases [of "driver_new bar region capabilities nsid" D w]) auto
  then show "both bar region = mapping_of dr"
    by (simp add: both_def mapping_of_def same_hardware_def driver_new_def)
qed (simp_all add: mapped_drop_both)

lemma mapped_capabilities:
  "mapped (both bar region)
    (or_drop (andthen (on_snd (read_capabilities D bar)) (\<lambda>capabilities.
          andthen (on_snd pause) (\<lambda>_. ret capabilities)))
      (on_fst (andthen (drop_region region) (\<lambda>_. drop_bar bar))))
    (\<lambda>_ ms. ms = both bar region) (\<lambda>_ ms. ms = [])"
proof (rule mapped_or_drop [where F = "\<lambda>_ ms. ms = both bar region"])
  let ?Q = "\<lambda>_ ms. ms = both bar region"
  show "mapped (both bar region) (andthen (on_snd (read_capabilities D bar)) (\<lambda>capabilities.
      andthen (on_snd pause) (\<lambda>_. ret capabilities))) ?Q ?Q"
    by (rule mapped_andthen [where R = ?Q], rule mapped_machine(1), simp_all,
        rule mapped_andthen [where R = ?Q], rule mapped_machine(1), simp_all add: mapped_machine(3))
qed (simp add: mapped_drop_both)

lemma mapped_allocated:
  "mapped [(bar_address bar, bar_length bar)] (or_drop (on_fst (alloc_huge os)) (on_fst (drop_bar bar)))
    (\<lambda>region ms. ms = both bar region) (\<lambda>x ms. ms = [] \<or> leaked os x ms)"
proof (rule mapped_or_drop)
  let ?ms = "[(bar_address bar, bar_length bar)]"
  let ?E = "\<lambda>x ms'. ms' = ?ms \<or> (\<exists>left. leaked os x left \<and> ms' = left @ ?ms)"
  show "mapped ?ms (on_fst (alloc_huge os)) (\<lambda>region ms. ms = both bar region) ?E"
    by (rule mapped_weaken [OF mapped_alloc_huge]) (auto simp: both_def)
  fix e ms' assume "?E e ms'"
  then show "mapped ms' (on_fst (drop_bar bar)) (\<lambda>_ ms. ms = [] \<or> leaked os e ms) (\<lambda>_ ms. ms = [] \<or> leaked os e ms)"
    by (intro mapped_drops(1)) (auto simp: leaked_def)
qed

lemma mapped_open:
  "mapped [] (driver_open D h bdf nsid) (\<lambda>dr ms. ms = mapping_of dr) (\<lambda>x ms. ms = [] \<or> leaked (host_mem h) x ms)"
  unfolding driver_open_def
proof (intro mapped_andthen [OF mapped_machine(2) [where Q = "\<lambda>_ ms. ms = []"]]
    mapped_andthen [OF mapped_machine(1) [where Q = "\<lambda>_ ms. ms = []"]])
  let ?E = "\<lambda>x ms. ms = [] \<or> leaked (host_mem h) x ms"
  have weak: "mapped ms p Q ?E" if "mapped ms p Q (\<lambda>_ ms. ms = [])"
    for ms Q and p :: "(os_call list \<times> 'a world, 'b) prog"
    using that by (rule mapped_weaken) auto
  have bar: "mapped [] (on_fst (bar_map (host_bar h) bdf 0))
      (\<lambda>bar ms. ms = [(bar_address bar, bar_length bar)]) ?E"
    by (rule mapped_weaken [OF mapped_bar_map]) auto
  fix ms :: "(usize \<times> usize) list" assume "ms = []"
  then show "mapped ms (andthen (on_fst (bar_map (host_bar h) bdf 0)) (\<lambda>bar.
      andthen (or_drop (on_fst (alloc_huge (host_mem h))) (on_fst (drop_bar bar))) (\<lambda>region.
      andthen (or_drop
         (andthen (on_snd (read_capabilities D bar)) (\<lambda>capabilities.
          andthen (on_snd pause) (\<lambda>_. ret capabilities)))
         (on_fst (andthen (drop_region region) (\<lambda>_. drop_bar bar)))) (\<lambda>capabilities.
      or_drop
       (on_snd (run_driver (driver_new bar region capabilities nsid) (bring_up D)))
       (on_fst (andthen (drop_bar bar) (\<lambda>_. drop_region region)))))))
    (\<lambda>dr ms. ms = mapping_of dr) (\<lambda>x ms. ms = [] \<or> leaked (host_mem h) x ms)"
    by hypsubst (rule mapped_andthen [OF bar], hypsubst, rule mapped_andthen [OF mapped_allocated], hypsubst,
      rule mapped_andthen [OF weak [OF mapped_capabilities]], hypsubst, rule weak [OF mapped_bring_up])
qed auto

lemma open_mapping_cases:
  assumes "driver_open D h bdf nsid ([], w) = (r, (cs, w'))"
  shows "case r of
      Ok dr \<Rightarrow> live cs = mapping_of dr \<and> live (snd (drop_driver dr cs)) = []
    | _ \<Rightarrow> live cs = [] \<or>
        (\<exists>va e. os_mmap (host_mem h) HUGE_PAGE_SIZE = Inr va \<and>
           virtual_to_physical (host_mem h) va = Err e \<and> r = Err e \<and> live cs = [(va, HUGE_PAGE_SIZE)])"
proof -
  have "live (snd (drop_driver dr cs)) = foldl track (live cs)
      [Munmap (bar_address (drv_bar dr)) (bar_length (drv_bar dr)),
       Munmap (virtual_address (drv_dma dr)) (dma_length (drv_dma dr))]" for dr
    by (simp add: drop_driver_def drop_bar_def drop_region_def os_did_def run_simps live_def)
  then have "live (snd (drop_driver dr cs)) = []" if "live cs = mapping_of dr" for dr
    using that by (simp add: track_def mapping_of_def)
  then show ?thesis
    using mappedD [OF mapped_open [of D h bdf nsid], of "([], w)"] assms
    by (cases r) (simp_all add: leaked_def)
qed

text \<open>
  C17: The mappings of \<open>open\<close> are balanced on every path, panics included. When it succeeds,
  exactly the BAR and the hugepage of the driver are mapped, and dropping the driver unmaps
  both. When it fails, nothing is left mapped, with one exception: the hugepage stays mapped
  (and locked) when its physical address cannot be found.
\<close>

theorem open_mappings:
  assumes "driver_open D h bdf nsid ([], w) = (r, (cs, w'))"
  shows "case r of
      Ok dr \<Rightarrow> live cs = mapping_of dr \<and> live (snd (drop_driver dr cs)) = []
    | _ \<Rightarrow> live cs = [] \<or>
        (\<exists>va e. os_mmap (host_mem h) HUGE_PAGE_SIZE = Inr va \<and>
           virtual_to_physical (host_mem h) va = Err e \<and> r = Err e \<and> live cs = [(va, HUGE_PAGE_SIZE)])"
  by (rule open_mapping_cases [OF assms])

lemma or_drop_Ok: "or_drop p d s = (Ok x, s') \<longleftrightarrow> p s = (Ok x, s')"
  by (auto simp: or_drop_def split: prod.split outcome.split)

lemma andthen_Ok: "andthen p f s = (Ok y, s') \<longleftrightarrow> (\<exists>x s''. p s = (Ok x, s'') \<and> f x s'' = (Ok y, s'))"
  by (auto simp: andthen_def split: prod.split outcome.split)

lemma on_fst_Ok: "on_fst p s = (Ok x, s') \<longleftrightarrow> (\<exists>a. p (fst s) = (Ok x, a) \<and> s' = (a, snd s))"
  by (cases s) (auto simp: on_fst_def split: prod.split)

lemma on_snd_Ok: "on_snd p s = (Ok x, s') \<longleftrightarrow> (\<exists>b. p (snd s) = (Ok x, b) \<and> s' = (fst s, b))"
  by (cases s) (auto simp: on_snd_def split: prod.split)

lemma alloc_huge_length: "alloc_huge os cs = (Ok region, cs') \<Longrightarrow> dma_length region = HUGE_PAGE_SIZE"
  using run_alloc_huge [of os cs] by auto

lemma driver_open_Ok:
  assumes "driver_open D h bdf nsid (cs, w) = (Ok dr, s)"
  obtains bar region cap w1 w2 where "dma_length region = HUGE_PAGE_SIZE"
    and "run_driver (driver_new bar region cap nsid) (bring_up D) w1 = (Ok dr, w2)"
  using assms unfolding driver_open_def
  by (auto simp: andthen_Ok or_drop_Ok on_fst_Ok on_snd_Ok dest!: alloc_huge_length)

lemma bring_up_block_size:
  assumes "bring_up D (dr, w) = (Ok (), (dr', w'))"
  shows "\<exists>bs. block_sizes dr' (drv_nsid dr) = Some bs"
proof -
  obtain d0 w0 bs where "namespace_block_size D (drv_nsid dr) (d0, w0) = (Ok bs, (dr', w'))"
    using assms by (auto simp: bring_up_def andthen_Ok gets_def ret_def)
  then show ?thesis by (auto dest: namespace_block_size_caches)
qed

text \<open>
  A driver that \<open>open\<close> returns satisfies the invariant under which no operation panics,
  provided the BAR reaches the doorbells of its two queues; it serves the requested namespace,
  and that namespace's block size is known and a power of two, so every later Read and Write
  uses only the I/O queue.
\<close>

lemma open_establishes_the_invariant:
  assumes "driver_open D h bdf nsid (cs, w) = (Ok dr, s)"
    and "4096 + 3 * unat (doorbell_stride dr) + 4 \<le> unat (bar_length (drv_bar dr))"
  shows "driver_ok dr \<and> drv_nsid dr = nsid \<and> (\<exists>bs k. block_sizes dr nsid = Some bs \<and> unat bs = 2 ^ k)"
proof -
  obtain bar region cap w1 w2 where huge: "dma_length region = HUGE_PAGE_SIZE"
    and run: "run_driver (driver_new bar region cap nsid) (bring_up D) w1 = (Ok dr, w2)"
    using driver_open_Ok [OF assms(1)] .
  let ?new = "driver_new bar region cap nsid"
  have b: "bring_up D (?new, w1) = (Ok (), (dr, w2))"
    using run by (auto simp: run_driver_def split: prod.splits outcome.splits)
  have "same_hardware (fst (?new, w1)) (fst (snd (bring_up D (?new, w1))))"
    using bring_up_keeps_hardware unfolding keeps_hardware_def by blast
  then have same: "same_hardware ?new dr" by (simp add: b)
  then have "4096 + 3 * unat (cap_stride cap) + 4 \<le> unat (bar_length bar)" "drv_nsid dr = nsid"
    using assms(2) by (simp_all add: same_hardware_def driver_new_def)
  then have "driver_ok ?new" using huge by (intro driver_ok_new)
  then have "driver_at ?new (fst (snd (bring_up D (?new, w1))))"
    using safeD(1) [OF bring_up_safe, of ?new "(?new, w1)" D] driver_at_self by simp
  then have ok: "driver_ok dr" by (simp add: b driver_atD)
  obtain bs where bs: "block_sizes dr nsid = Some bs"
    using bring_up_block_size [OF b] by (auto simp: driver_new_def)
  obtain k where "unat bs = 2 ^ k" using cached_pow [OF ok bs] .
  with ok bs \<open>drv_nsid dr = nsid\<close> show ?thesis by blast
qed

end
