(* ===== verification/Repl_Program.thy ===== *)
theory Repl_Program
  imports Repl Driver_Open
begin

text \<open>The whole program: from the arguments to the end of the session, and what it leaves mapped.\<close>

unbundle bit_operations_syntax

section \<open>The whole program\<close>

lemma keeps_hardware_repl [hardware_rules]:
  "keeps_hardware (crash q)" "keeps_hardware (io_submit D c)" "keeps_hardware (say t)"
  by (auto simp: keeps_hardware_def run_simps same_hardware_def io_submit_def say_def split: prod.split)

lemma keeps_hardware_say_lines [hardware_rules]: "keeps_hardware (say_lines ts)"
  by (induction ts) (auto intro: hardware_rules)

lemma keeps_hardware_case_prod [hardware_rules]:
  "(\<And>a b. keeps_hardware (f a b)) \<Longrightarrow> keeps_hardware (case x of (a, b) \<Rightarrow> f a b)"
  by (simp split: prod.split)

lemma commands_keep_hardware [hardware_rules]:
  "keeps_hardware (confined_read D fb lba n)" "keeps_hardware (confined_write D fb lba data)"
  unfolding confined_read_def confined_write_def driver_read_def driver_write_def namespace_block_size_def
    identify_block_size_def identify_def Let_def
  by (intro hardware_rules)+

lemma line_keeps_hardware: "keeps_hardware (run_repl_line D fb line)"
proof (cases "split_whitespace line")
  case Nil
  then show ?thesis by (simp add: run_repl_line_def hardware_rules)
next
  case (Cons w ws)
  show ?thesis
    unfolding run_repl_line_def Cons list.case stay_def repl_read_def repl_write_def repl_fill_def repl_peek_def
      repl_poke_def repl_help_def fill_def peek_def poke_def write_blocks_def print_blocks_def print_read_def
      driver_identify_controller_def identify_def Let_def
    by (intro hardware_rules)
qed

lemma keeps_hardwareD: "keeps_hardware p \<Longrightarrow> same_hardware (fst s) (fst (snd (p s)))"
  unfolding keeps_hardware_def by blast

lemma same_hardware_trans: "same_hardware a b \<Longrightarrow> same_hardware b c \<Longrightarrow> same_hardware a c"
  by (simp add: same_hardware_def)

lemma loop_keeps_hardware: "same_hardware (fst s) (fst (snd (repl_loop D fb inputs s)))"
proof (induction inputs arbitrary: s)
  case (Cons i inputs)
  show ?case
  proof (cases i)
    case (Line line)
    obtain r s' where run: "run_repl_line D fb (trim line) s = (r, s')" by (metis prod.exhaust)
    have same: "same_hardware (fst s) (fst s')" using keeps_hardwareD [OF line_keeps_hardware, of s] run by (metis snd_conv)
    have rep: "fst (snd (on_snd (emit (Report e)) s')) = fst s'" for e by (cases s') (simp add: run_on_snd)
    show ?thesis
    proof (cases r)
      case (Ok b)
      then show ?thesis using same same_hardware_trans [OF same Cons] Cons [of s] by (cases b) (simp_all add: Line run)
    next
      case (Err e)
      have "same_hardware (fst s) (fst (snd (repl_loop D fb inputs (snd (on_snd (emit (Report e)) s')))))"
        using same_hardware_trans [OF same] Cons rep by metis
      then show ?thesis using Err Cons [of s]
        by (cases s') (simp add: Line run run_andthen run_on_snd run_access)
    next
      case (Panic q)
      then show ?thesis using same Cons [of s] by (simp add: Line run)
    qed
  qed (use Cons in \<open>simp_all add: run_simps same_hardware_def\<close>)
qed (simp add: run_ret same_hardware_def)

lemma keeps_hardware_loop [hardware_rules]: "keeps_hardware (repl_loop D fb inputs)"
  unfolding keeps_hardware_def using loop_keeps_hardware by blast

lemma session_keeps_hardware: "keeps_hardware (repl_session D fb editor)"
  unfolding repl_session_def by (intro hardware_rules)

lemma live_drop_driver: "live (snd (drop_driver dr cs)) = foldl track (live cs)
      [Munmap (bar_address (drv_bar dr)) (bar_length (drv_bar dr)),
       Munmap (virtual_address (drv_dma dr)) (dma_length (drv_dma dr))]"
  by (simp add: drop_driver_def drop_bar_def drop_region_def os_did_def run_simps live_def)

text \<open>The end of a run whose \<open>open\<close> succeeded, and \<open>open\<close> with its error wrapped.\<close>

definition run_error :: "mem_os \<Rightarrow> io_error option \<Rightarrow> (usize \<times> usize) list \<Rightarrow> bool" where
  "run_error os x ms \<longleftrightarrow> ms = [] \<or> (\<exists>e. x = Some (OpenFailed e) \<and> leaked os (Some e) ms)"

lemma mapped_opening:
  "mapped [] (\<lambda>s. case driver_open D h bdf nsid s of (r, s') \<Rightarrow> (open_failed r, s'))
    (\<lambda>dr ms. ms = mapping_of dr) (run_error (host_mem h))"
proof (rule mappedI)
  fix s :: "os_call list \<times> 'a world" assume s: "live (fst s) = []"
  obtain r s' where o: "driver_open D h bdf nsid s = (r, s')" by (metis prod.exhaust)
  show "ends (\<lambda>dr ms. ms = mapping_of dr) (run_error (host_mem h))
      (fst (case driver_open D h bdf nsid s of (r, s') \<Rightarrow> (open_failed r, s')))
      (live (fst (snd (case driver_open D h bdf nsid s of (r, s') \<Rightarrow> (open_failed r, s')))))"
    using mappedD [OF mapped_open [of D h bdf nsid] s]
    by (cases r) (simp_all add: o open_failed_def leaked_def run_error_def)
qed

lemma mapped_closing:
  "mapped (mapping_of dr) (\<lambda>(cs, w). case repl_session D blocks editor (dr, w) of
    (r, (dr', w')) \<Rightarrow> (r, (snd (drop_driver dr' cs), w'))) (\<lambda>_ ms. ms = []) (run_error os)"
proof (rule mappedI)
  fix s :: "os_call list \<times> 'a world" assume s: "live (fst s) = mapping_of dr"
  obtain cs w where cw: "s = (cs, w)" by (cases s)
  obtain r dr' w' where go: "repl_session D blocks editor (dr, w) = (r, (dr', w'))" by (metis prod.exhaust)
  have "same_hardware dr dr'"
    using keeps_hardwareD [OF session_keeps_hardware, of "(dr, w)"] go by (metis fst_conv snd_conv)
  then have "live (snd (drop_driver dr' cs)) = []"
    using s by (simp add: cw live_drop_driver mapping_of_def same_hardware_def track_def)
  then show "ends (\<lambda>_ ms. ms = []) (run_error os)
      (fst (case s of (cs, w) \<Rightarrow> case repl_session D blocks editor (dr, w) of
        (r, (dr', w')) \<Rightarrow> (r, (snd (drop_driver dr' cs), w'))))
      (live (fst (snd (case s of (cs, w) \<Rightarrow> case repl_session D blocks editor (dr, w) of
        (r, (dr', w')) \<Rightarrow> (r, (snd (drop_driver dr' cs), w'))))))"
    by (cases r) (simp_all add: cw go run_error_def)
qed

lemma mapped_run: "mapped [] (repl_run D h files arguments editor) (\<lambda>_ ms. ms = []) (run_error (host_mem h))"
  unfolding repl_run_def
proof (intro mapped_andthen [OF mapped_machine(2) [where Q = "\<lambda>_ ms. ms = []"]])
  fix bdf blocks and nsid :: u32 and ms :: "(usize \<times> usize) list" assume "ms = []"
  show "mapped ms (andthen (\<lambda>s. case driver_open D h bdf nsid s of (r, s') \<Rightarrow> (open_failed r, s'))
      (\<lambda>dr. \<lambda>(cs, w). case repl_session D blocks editor (dr, w) of
        (r, (dr', w')) \<Rightarrow> (r, (snd (drop_driver dr' cs), w')))) (\<lambda>_ ms. ms = []) (run_error (host_mem h))"
    unfolding \<open>ms = []\<close>
    by (rule mapped_andthen [OF mapped_opening]) (simp add: mapped_closing)
qed (simp_all add: run_error_def)

text \<open>
  C31: The program gives its mappings back. However a run of the REPL ends (missing or bad
  arguments, an unreadable map, an \<open>open\<close> that fails, an editor error, the end of input, or a
  panic of a command), the BAR and the hugepage are unmapped when it is over, with the one
  exception of \<open>open\<close>: a hugepage whose physical address cannot be found stays mapped. The exit
  code is 0, 1 after an error, which is reported last, or 101 after a panic.
\<close>

theorem run_releases_its_mappings:
  assumes "repl_main D h files arguments editor ([], w) = (code, (cs, w'))"
  shows "(code = 0 \<or> (\<exists>e. code = 1 \<and> last (log w') = Report e) \<or> code = 101) \<and>
    (live cs = [] \<or>
     (\<exists>va e. os_mmap (host_mem h) HUGE_PAGE_SIZE = Inr va \<and> virtual_to_physical (host_mem h) va = Err e \<and>
        code = 1 \<and> last (log w') = Report (OpenFailed e) \<and> live cs = [(va, HUGE_PAGE_SIZE)]))"
proof -
  obtain r cs1 w1 where run: "repl_run D h files arguments editor ([], w) = (r, (cs1, w1))"
    by (metis prod.exhaust)
  have "ends (\<lambda>_ ms. ms = []) (run_error (host_mem h)) r (live cs1)"
    using mappedD [OF mapped_run [of D h files arguments editor], of "([], w)"] run by simp
  then show ?thesis
    using assms run by (cases r) (auto simp: repl_main_def leaked_def run_error_def)
qed

end
