(* ===== verification/Repl_History.thy ===== *)
theory Repl_History
  imports Repl_Shell
begin

text \<open>
  The history of the REPL: which lines the loop enters into the editor's history, where the history
  file is, and when it is written. The editor's own treatment of its history is a library's.
\<close>

section \<open>Where it is\<close>

text \<open>\<open>history_path\<close>, given the value of \<open>HOME\<close>, if it is set.\<close>

definition history_path :: "rtext option \<Rightarrow> rtext" where
  "history_path home = (case home of
     Some home \<Rightarrow> home @ txt_of ''/.nvmetoy_history''
   | None \<Rightarrow> txt_of ''/tmp/nvmetoy_history'')"

section \<open>What is entered\<close>

text \<open>
  The calls the program makes of the editor, besides reading lines. Their results are ignored.
\<close>

datatype history_call = LoadHistory rtext | AddHistoryEntry rtext | SaveHistory rtext

text \<open>
  The loop once more, with its state, for the lines it enters and whether it ends by \<open>break\<close>:
  a line is entered before it runs.
\<close>

fun loop_history :: "'d device \<Rightarrow> file_blocks \<Rightarrow> input list \<Rightarrow> 'd machine \<Rightarrow> rtext list \<times> bool" where
  "loop_history D blocks [] s = ([], True)"
| "loop_history D blocks (Interrupted # inputs) s = loop_history D blocks inputs s"
| "loop_history D blocks (Eof # inputs) s = ([], True)"
| "loop_history D blocks (ReadlineError # inputs) s = ([], False)"
| "loop_history D blocks (Line line # inputs) s =
     (if trim line = [] then loop_history D blocks inputs s
      else apfst ((#) (trim line)) (case run_repl_line D blocks (trim line) s of
        (Ok True, s') \<Rightarrow> loop_history D blocks inputs s'
      | (Ok False, s') \<Rightarrow> ([], True)
      | (Err e, s') \<Rightarrow> loop_history D blocks inputs (snd (on_snd (emit (Report e)) s'))
      | (Panic q, s') \<Rightarrow> ([], False)))"

definition session_history ::
  "'d device \<Rightarrow> file_blocks \<Rightarrow> rtext option \<Rightarrow> input list \<Rightarrow> 'd machine \<Rightarrow> history_call list" where
  "session_history D blocks home inputs s =
     (case loop_history D blocks inputs s of (lines, broken) \<Rightarrow>
        LoadHistory (history_path home) # map AddHistoryEntry lines @
        (if broken then [SaveHistory (history_path home)] else []))"

section \<open>What was typed\<close>

definition quits :: "rtext \<Rightarrow> bool" where
  "quits line \<longleftrightarrow> split_whitespace line = [txt_of ''quit''] \<or> split_whitespace line = [txt_of ''exit'']"

text \<open>The lines of the inputs that are not blank, up to the one that quits or the end of input.\<close>

fun typed :: "input list \<Rightarrow> rtext list" where
  "typed [] = []"
| "typed (Interrupted # inputs) = typed inputs"
| "typed (Eof # inputs) = []"
| "typed (ReadlineError # inputs) = []"
| "typed (Line line # inputs) =
     (if trim line = [] then typed inputs
      else trim line # (if quits (trim line) then [] else typed inputs))"

lemma stay_not_False: "fst (stay p s) \<noteq> Ok False"
  by (simp add: stay_def run_simps split: outcome.split)

lemma only_quit_ends: "fst (run_repl_line D fb line s) = Ok False \<longleftrightarrow> quits line"
proof (cases "split_whitespace line")
  case (Cons w ws)
  then show ?thesis
    by (simp add: run_repl_line_def quits_def stay_not_False run_simps)
qed (simp add: run_repl_line_def quits_def run_simps)

lemma loop_history_typed:
  assumes "\<And>q. fst (repl_loop D fb inputs s) \<noteq> Panic q"
  shows "loop_history D fb inputs s = (typed inputs, fst (repl_loop D fb inputs s) = Ok ())"
  using assms
proof (induction inputs arbitrary: s)
  case (Cons i inputs)
  show ?case
  proof (cases i)
    case (Line line)
    obtain r s' where run: "run_repl_line D fb (trim line) s = (r, s')" by (metis prod.exhaust)
    have quit: "r = Ok False \<longleftrightarrow> quits (trim line)" using only_quit_ends [of D fb "trim line" s] by (simp add: run)
    have log: "andthen (on_snd (emit (Report e))) (\<lambda>_. repl_loop D fb inputs) s' =
        repl_loop D fb inputs (snd (on_snd (emit (Report e)) s'))" for e
      by (cases s') (simp add: run_andthen run_on_snd run_access)
    have panics: "trim line \<noteq> [] \<Longrightarrow> r \<noteq> Panic q" for q using Cons.prems [of q] by (auto simp: Line run)
    show ?thesis
    proof (cases "trim line = []")
      case True
      then show ?thesis using Cons by (simp add: Line)
    next
      case False
      then show ?thesis
        using Cons.IH [of s'] Cons.IH [of "snd (on_snd (emit (Report e)) s')" for e] Cons.prems quit panics
        by (cases r) (auto simp: Line run log split: bool.splits)
    qed
  qed (use Cons in \<open>simp_all add: run_simps\<close>)
qed (simp add: run_simps)

text \<open>
  C39: The history holds what was typed. In a session that does not panic, the lines entered into the
  history are the inputs that are not blank, in order, the failed commands and \<open>quit\<close> included, up
  to the line that ends the session; and the history file, found through \<open>HOME\<close>, is written at the
  end exactly when the session ends without an error of the editor.
\<close>

theorem history_holds_what_was_typed:
  assumes "\<And>q. fst (repl_loop D fb inputs s) \<noteq> Panic q"
  shows "session_history D fb home inputs s = LoadHistory (history_path home) # map AddHistoryEntry (typed inputs) @
    (if fst (repl_loop D fb inputs s) = Ok () then [SaveHistory (history_path home)] else [])"
  using loop_history_typed [OF assms] by (simp add: session_history_def)

end
