(* ===== verification/Completion.thy ===== *)
theory Completion
  imports Block_Map "HOL-Library.Sublist"
begin

text \<open>
  \<open>ReplHelper\<close> of \<open>src/bin/nvmetoy_repl.rs\<close>: tab completion of command names and of the block
  numbers where extents start. Positions are byte offsets, as in Rust.
\<close>

unbundle bit_operations_syntax

definition COMMANDS :: "rtext list" where
  "COMMANDS = map txt_of
     [''list'', ''identify'', ''read'', ''write'', ''fill'', ''peek'', ''poke'', ''help'', ''quit'', ''exit'']"

definition LBA_COMMANDS :: "rtext list" where
  "LBA_COMMANDS = map txt_of [''read'', ''write'', ''fill'', ''peek'', ''poke'']"

text \<open>The field \<open>lbas\<close> of the helper that \<open>run\<close> builds: sorted, without duplicates.\<close>

definition helper_lbas :: "file_blocks \<Rightarrow> u64 list" where
  "helper_lbas blocks = remdups_adj (sort (map ext_lba (extents blocks)))"

text \<open>\<open>str::rfind\<close>: the byte offset of the last character with a property.\<close>

fun rfind :: "(nat \<Rightarrow> bool) \<Rightarrow> rtext \<Rightarrow> nat option" where
  "rfind P [] = None"
| "rfind P (c # s) = (case rfind P s of
     Some i \<Rightarrow> Some (utf8_len c + i) | None \<Rightarrow> if P c then Some 0 else None)"

text \<open>A candidate is a pair: what is displayed and what replaces the word.\<close>

definition candidate :: "rtext \<Rightarrow> rtext \<times> rtext" where
  "candidate t = (t, t @ [32])"

definition candidates :: "u64 list \<Rightarrow> rtext list \<Rightarrow> rtext \<Rightarrow> (rtext \<times> rtext) list" where
  "candidates lbas prior word =
     (case prior of
        [] \<Rightarrow> map candidate (filter (prefix word) COMMANDS)
      | [command] \<Rightarrow>
          if command \<in> set LBA_COMMANDS
          then map candidate (filter (prefix word) (map (\<lambda>lba. dec (unat lba)) lbas))
          else []
      | _ \<Rightarrow> [])"

definition complete :: "u64 list \<Rightarrow> rtext \<Rightarrow> nat \<Rightarrow> (nat \<times> (rtext \<times> rtext) list) outcome" where
  "complete lbas line pos =
     (case split_at_byte line pos of
        None \<Rightarrow> Panic SliceOutOfRange
      | Some (before, _) \<Rightarrow>
          let start = (case rfind is_whitespace before of None \<Rightarrow> 0 | Some i \<Rightarrow> i + 1)
          in case split_at_byte before start of
               None \<Rightarrow> Panic SliceOutOfRange
             | Some (prior, word) \<Rightarrow> Ok (start, candidates lbas (split_whitespace prior) word))"

section \<open>Slicing at byte offsets\<close>

lemma split_at_byte_Nil [simp]: "split_at_byte s 0 = Some ([], s)"
  by (cases s) simp_all

lemma split_at_byte_append: "split_at_byte (a @ b) (length (as_bytes a)) = Some (a, b)"
proof (induction a)
  case (Cons c a)
  obtain k where k: "utf8_len c = Suc k" using utf8_len_pos [of c] by (cases "utf8_len c") auto
  then show ?case using Cons by simp
qed simp

lemma split_at_byte_Some:
  "split_at_byte s n = Some (a, b) \<Longrightarrow> s = a @ b \<and> length (as_bytes a) = n"
  by (induction s n arbitrary: a b rule: split_at_byte.induct) (auto split: if_splits)

lemma split_at_byte_inside:
  assumes "1 < utf8_len c"
  shows "split_at_byte (a @ c # b) (length (as_bytes a) + 1) = None"
proof (induction a)
  case Nil
  then show ?case using assms by simp
next
  case (Cons d a)
  obtain k where k: "utf8_len d = Suc k" using utf8_len_pos [of d] by (cases "utf8_len d") auto
  then show ?case using Cons by simp
qed

lemma rfind_None: "rfind P s = None \<longleftrightarrow> list_all (Not \<circ> P) s"
  by (induction s) (auto split: option.splits)

lemma rfind_last: "P c \<Longrightarrow> list_all (Not \<circ> P) b \<Longrightarrow> rfind P (a @ c # b) = Some (length (as_bytes a))"
  by (induction a) (simp_all add: rfind_None [THEN iffD2])

text \<open>A text has no whitespace, or is split by its last whitespace character.\<close>

lemma last_whitespace:
  obtains "list_all (Not \<circ> is_whitespace) s"
  | a c b where "s = a @ c # b" "is_whitespace c" "list_all (Not \<circ> is_whitespace) b"
proof (cases "\<exists>c \<in> set s. is_whitespace c")
  case True
  then obtain a c b where "s = a @ c # b" "is_whitespace c" "\<forall>y \<in> set b. \<not> is_whitespace y"
    using split_list_last_prop by metis
  then show thesis by (intro that(2)) (auto simp: list_all_iff)
next
  case False
  then show thesis by (intro that(1)) (auto simp: list_all_iff)
qed

lemma utf8_len_one: "utf8_len c = 1 \<longleftrightarrow> c < 0x80"
  by (simp add: utf8_char_def)

section \<open>What completion offers\<close>

lemma complete_no_space:
  "list_all (Not \<circ> is_whitespace) s \<Longrightarrow>
   complete lbas (s @ rest) (length (as_bytes s)) = Ok (0, candidates lbas [] s)"
  by (simp add: complete_def split_at_byte_append rfind_None [THEN iffD2])

lemma complete_space:
  assumes "is_whitespace c" and "list_all (Not \<circ> is_whitespace) b"
  shows "complete lbas ((a @ c # b) @ rest) (length (as_bytes (a @ c # b))) =
    (if c < 0x80 then Ok (length (as_bytes (a @ [c])), candidates lbas (split_whitespace (a @ [c])) b)
     else Panic SliceOutOfRange)"
proof -
  note r = rfind_last [where P = is_whitespace, OF assms, of a]
  have "split_at_byte ((a @ c # b) @ rest) (length (as_bytes (a @ c # b))) = Some (a @ c # b, rest)"
    by (rule split_at_byte_append)
  then have eq: "complete lbas ((a @ c # b) @ rest) (length (as_bytes (a @ c # b))) =
      (case split_at_byte (a @ c # b) (length (as_bytes a) + 1) of None \<Rightarrow> Panic SliceOutOfRange
       | Some (prior, word) \<Rightarrow> Ok (length (as_bytes a) + 1, candidates lbas (split_whitespace prior) word))"
    by (simp only: complete_def option.case prod.case Let_def r)
  show ?thesis
  proof (cases "c < 0x80")
    case True
    then have "length (as_bytes (a @ [c])) = length (as_bytes a) + 1" using utf8_len_one [of c] by simp
    moreover from this have "split_at_byte (a @ c # b) (length (as_bytes a) + 1) = Some (a @ [c], b)"
      using split_at_byte_append [of "a @ [c]" b] by simp
    ultimately show ?thesis using True by (simp only: eq option.case prod.case if_True)
  next
    case False
    then have "1 < utf8_len c" using utf8_len_pos [of c] utf8_len_one [of c] by linarith
    from split_at_byte_inside [OF this] False show ?thesis by (simp only: eq option.case if_False)
  qed
qed

text \<open>
  C35: Completion crashes exactly on wide whitespace. With the cursor on a character boundary,
  which the editor guarantees, \<open>complete\<close> panics if and only if the last whitespace character
  before the cursor takes more than one byte in UTF-8 (a no-break space, an ideographic space):
  \<open>start\<close> is the byte after the first byte of that character, and the slice begins inside it.
\<close>

theorem completion_panics_on_wide_whitespace:
  "(\<exists>q. complete lbas (before @ rest) (length (as_bytes before)) = Panic q) \<longleftrightarrow>
   (\<exists>a c b. before = a @ c # b \<and> is_whitespace c \<and> list_all (Not \<circ> is_whitespace) b \<and> 0x80 \<le> c)"
proof (rule last_whitespace [of before])
  assume none: "list_all (Not \<circ> is_whitespace) before"
  then show ?thesis using complete_no_space [of before lbas rest] by (auto simp: list_all_iff)
next
  fix a c b assume b: "before = a @ c # b" "is_whitespace c" "list_all (Not \<circ> is_whitespace) b"
  have "c' = c" if "before = a' @ c' # b'" "is_whitespace c'" "list_all (Not \<circ> is_whitespace) b'" for a' c' b'
  proof -
    have drop: "dropWhile (Not \<circ> is_whitespace) (rev y @ x # xs) = x # xs"
      if "is_whitespace x" "list_all (Not \<circ> is_whitespace) y" for x y xs
      using that by (subst dropWhile_append2) (auto simp: list_all_iff)
    have "rev b @ c # rev a = rev b' @ c' # rev a'" using b(1) that(1) by (metis append.assoc append_Cons
        append_Nil rev_append rev.simps(2))
    then have "c # rev a = c' # rev a'" using drop [OF b(2,3)] drop [OF that(2,3)] by metis
    then show ?thesis by simp
  qed
  then show ?thesis
    using b complete_space [OF b(2,3), of lbas a rest] by (auto simp: not_less)
qed

lemma candidates_extend: "(d, r) \<in> set (candidates lbas prior word) \<Longrightarrow> prefix word d \<and> r = d @ [32]"
  by (auto simp: candidates_def candidate_def split: list.splits if_splits)

lemma distinct_remdups_adj: "sorted xs \<Longrightarrow> distinct (remdups_adj xs)"
  by (induction xs rule: remdups_adj.induct) (auto simp: less_le)

lemma helper_lbas: "set (helper_lbas blocks) = ext_lba ` set (extents blocks)" "sorted (helper_lbas blocks)"
  "distinct (helper_lbas blocks)"
  by (simp_all add: helper_lbas_def sorted_remdups_adj distinct_remdups_adj)

lemma complete_Ok:
  assumes "complete lbas line pos = Ok (start, cs)"
  obtains prior word rest where "line = prior @ word @ rest" "pos = length (as_bytes (prior @ word))"
    "start = length (as_bytes prior)" "list_all (Not \<circ> is_whitespace) word"
    "cs = candidates lbas (split_whitespace prior) word"
proof -
  obtain before rest where "split_at_byte line pos = Some (before, rest)"
    using assms by (auto simp: complete_def split: option.splits)
  then have line: "line = before @ rest" "pos = length (as_bytes before)" using split_at_byte_Some by metis+
  show thesis
  proof (rule last_whitespace [of before])
    assume none: "list_all (Not \<circ> is_whitespace) before"
    then show thesis
      using assms complete_no_space [OF none, of lbas rest] by (intro that [of "[]" before rest]) (simp_all add: line)
  next
    fix a c b assume b: "before = a @ c # b" "is_whitespace c" "list_all (Not \<circ> is_whitespace) b"
    then show thesis
      using assms complete_space [OF b(2,3), of lbas a rest]
      by (intro that [of "a @ [c]" b rest]) (simp_all add: line split: if_splits)
  qed
qed

text \<open>
  C34: What completion offers is sound. When it answers, the text before the cursor is cut into a
  finished part and the word being typed, which has no whitespace; \<open>start\<close> is the byte offset
  of the word; every candidate begins with the typed word and is replaced by itself and a space.
  In first position the candidates are the command names with that beginning; after one of the
  five commands that take a block, they are the numbers, increasing and each once, of exactly
  the blocks with that beginning where an extent of the file starts, and the commands' parser
  reads each back; anywhere else there are none.
\<close>

theorem completion_is_sound:
  assumes "complete (helper_lbas blocks) line pos = Ok (start, cs)"
  shows "\<exists>prior word rest. line = prior @ word @ rest \<and> pos = length (as_bytes (prior @ word)) \<and>
    start = length (as_bytes prior) \<and> list_all (Not \<circ> is_whitespace) word \<and>
    list_all (\<lambda>(d, r). prefix word d \<and> r = d @ [32]) cs \<and>
    (case split_whitespace prior of
       [] \<Rightarrow> map fst cs = filter (prefix word) COMMANDS
     | [command] \<Rightarrow>
         if command \<in> set LBA_COMMANDS then
           \<exists>ns. sorted ns \<and> distinct ns \<and>
             set ns = {n \<in> ext_lba ` set (extents blocks). prefix word (dec (unat n))} \<and>
             map fst cs = map (\<lambda>n. dec (unat n)) ns \<and> map (parse_u64 \<circ> fst) cs = map Ok ns
         else cs = []
     | _ \<Rightarrow> cs = [])"
proof -
  let ?lbas = "helper_lbas blocks"
  obtain prior word rest where at: "line = prior @ word @ rest" "pos = length (as_bytes (prior @ word))"
    "start = length (as_bytes prior)" "list_all (Not \<circ> is_whitespace) word"
    and cs: "cs = candidates ?lbas (split_whitespace prior) word"
    using complete_Ok [OF assms] .
  have extend: "list_all (\<lambda>(d, r). prefix word d \<and> r = d @ [32]) cs"
    using candidates_extend unfolding cs list_all_iff by fast
  let ?ns = "filter (\<lambda>n. prefix word (dec (unat n))) ?lbas"
  have ns: "sorted ?ns" "distinct ?ns" "set ?ns = {n \<in> ext_lba ` set (extents blocks). prefix word (dec (unat n))}"
    using helper_lbas [of blocks] by (auto simp: sorted_filter [of id, simplified])
  have numbers: "map fst (map candidate (filter (prefix word) (map (\<lambda>n. dec (unat n)) ?lbas))) =
      map (\<lambda>n. dec (unat n)) ?ns"
    by (simp add: filter_map comp_def candidate_def)
  have offered: "case split_whitespace prior of
       [] \<Rightarrow> map fst cs = filter (prefix word) COMMANDS
     | [command] \<Rightarrow>
         if command \<in> set LBA_COMMANDS then
           \<exists>ns. sorted ns \<and> distinct ns \<and>
             set ns = {n \<in> ext_lba ` set (extents blocks). prefix word (dec (unat n))} \<and>
             map fst cs = map (\<lambda>n. dec (unat n)) ns \<and> map (parse_u64 \<circ> fst) cs = map Ok ns
         else cs = []
     | _ \<Rightarrow> cs = []"
  proof (cases "\<exists>command \<in> set LBA_COMMANDS. split_whitespace prior = [command]")
    case True
    then have fst_cs: "map fst cs = map (\<lambda>n. dec (unat n)) ?ns"
      using numbers by (auto simp only: cs candidates_def list.case if_True)
    have "map (parse_u64 \<circ> fst) cs = map parse_u64 (map fst cs)" by simp
    also have "\<dots> = map Ok ?ns" unfolding fst_cs by simp
    finally show ?thesis
      using True fst_cs ns by (elim bexE) (simp only: list.case if_True, blast)
  next
    case False
    then show ?thesis
      by (cases "split_whitespace prior"; cases "tl (split_whitespace prior)")
        (simp_all add: cs candidates_def candidate_def comp_def)
  qed
  with at extend show ?thesis by blast
qed

end
