(* ===== verification/Driver_Lifecycle.thy ===== *)
theory Driver_Lifecycle
  imports Driver_Open
begin

text \<open>
  The life of a driver as a state machine: it is opened, its public operations are called in any
  order with any arguments, and the controller runs in between. What holds in every state that
  can be reached.
\<close>

unbundle bit_operations_syntax

section \<open>Calls\<close>

text \<open>
  One step of the life of a driver: the four public operations, whatever they return, and a step
  of the controller. The length of a slice is a \<open>usize\<close>.
\<close>

inductive driver_call :: "'d device \<Rightarrow> 'd machine \<Rightarrow> 'd machine \<Rightarrow> bool" for D where
  identifying: "driver_identify_controller D s = (r, s') \<Longrightarrow> driver_call D s s'"
| sizing: "namespace_block_size D n s = (r, s') \<Longrightarrow> driver_call D s s'"
| reading: "driver_read D slba count s = (r, s') \<Longrightarrow> driver_call D s s'"
| writing: "length data < 2 ^ 64 \<Longrightarrow> driver_write D slba data s = (r, s') \<Longrightarrow> driver_call D s s'"
| running: "driver_call D (dr, w) (dr, step_device D w)"

text \<open>The states after an \<open>open\<close> that succeeded on a BAR that holds the doorbells of two queues.\<close>

inductive reachable :: "'d device \<Rightarrow> host \<Rightarrow> u32 \<Rightarrow> 'd machine \<Rightarrow> bool" for D h nsid where
  opened: "driver_open D h bdf nsid (cs, w) = (Ok dr, (cs', w')) \<Longrightarrow>
    4096 + 3 * unat (doorbell_stride dr) + 4 \<le> unat (bar_length (drv_bar dr)) \<Longrightarrow>
    reachable D h nsid (dr, w')"
| called: "reachable D h nsid s \<Longrightarrow> driver_call D s s' \<Longrightarrow> reachable D h nsid s'"

text \<open>The state after a call as a function of the state before.\<close>

lemma driver_call_state:
  assumes "driver_call D s s'"
  obtains (identify) "s' = snd (identify D IdController 0 s)"
  | (size) n where "s' = snd (namespace_block_size D n s)"
  | (read) slba count where "s' = snd (driver_read D slba count s)"
  | (transfer_out) slba data where "length data < 2 ^ 64" "s' = snd (driver_write D slba data s)"
  | (run) "s' = (fst s, step_device D (snd s))"
  using assms
proof (cases rule: driver_call.cases)
  case (identifying r)
  then show ?thesis by (intro that(1)) (simp add: driver_identify_controller_def)
next
  case (sizing n r)
  then show ?thesis by (intro that(2) [of n]) simp
next
  case (reading slba count r)
  then show ?thesis by (intro that(3) [of slba count]) simp
next
  case (writing data slba r)
  then show ?thesis by (intro that(4) [of data slba]) simp_all
next
  case (running dr w)
  then show ?thesis by (intro that(5)) simp
qed

section \<open>A known block size stays\<close>

definition keeps_size :: "u32 \<Rightarrow> usize \<Rightarrow> ('d machine, 'a) prog \<Rightarrow> bool" where
  "keeps_size n b p \<longleftrightarrow> (\<forall>s. block_sizes (fst s) n = Some b \<longrightarrow> block_sizes (fst (snd (p s))) n = Some b)"

named_theorems size_rules "decomposition of keeps_size along the structure of a program"

lemma keeps_size_basic [size_rules]:
  "keeps_size n b (ret x)" "keeps_size n b (fail e)" "keeps_size n b (crash q)" "keeps_size n b (gets f)"
  "keeps_size n b (of_outcome r)" "keeps_size n b (on_snd p)"
  "keeps_size n b (admin_submit D c)" "keeps_size n b (io_submit D c)"
  by (auto simp: keeps_size_def run_simps admin_submit_def io_submit_def split: prod.split)

lemma keeps_size_andthen [size_rules]:
  assumes "keeps_size n b p" and "\<And>x. keeps_size n b (f x)"
  shows "keeps_size n b (andthen p f)"
  unfolding keeps_size_def
proof (intro allI impI)
  fix s :: "'a machine" assume "block_sizes (fst s) n = Some b"
  then have s: "block_sizes (fst (snd (p s))) n = Some b" using assms(1) unfolding keeps_size_def by blast
  then have "block_sizes (fst (snd (f x (snd (p s))))) n = Some b" for x
    using assms(2) unfolding keeps_size_def by blast
  with s show "block_sizes (fst (snd (andthen p f s))) n = Some b"
    by (simp add: run_andthen split: outcome.split)
qed

lemma keeps_size_cases [size_rules]:
  "(c \<Longrightarrow> keeps_size n b p) \<Longrightarrow> (\<not> c \<Longrightarrow> keeps_size n b q) \<Longrightarrow> keeps_size n b (if c then p else q)"
  "(\<And>x y. keeps_size n b (g x y)) \<Longrightarrow> keeps_size n b (case z of (x, y) \<Rightarrow> g x y)"
  "keeps_size n b p \<Longrightarrow> (\<And>y. keeps_size n b (k y)) \<Longrightarrow>
   keeps_size n b (case v of None \<Rightarrow> p | Some y \<Rightarrow> k y)"
  by (simp_all split: prod.split option.split)

lemma keeps_sizeD: "keeps_size n b p \<Longrightarrow> block_sizes (fst s) n = Some b \<Longrightarrow>
    block_sizes (fst (snd (p s))) n = Some b"
  unfolding keeps_size_def by blast

lemma identify_keeps_size [size_rules]: "keeps_size n b (identify D structure nsid)"
  unfolding identify_def by (intro size_rules)

text \<open>Only an unknown size is asked for and remembered.\<close>

lemma remember_keeps_size: "n \<noteq> nsid \<Longrightarrow>
    keeps_size n b (on_fst (modify (\<lambda>dr. dr\<lparr>block_sizes := (block_sizes dr)(nsid \<mapsto> value)\<rparr>)))"
  by (auto simp: keeps_size_def run_simps)

lemma identify_block_size_keeps_size: "n \<noteq> nsid \<Longrightarrow> keeps_size n b (identify_block_size D nsid)"
  unfolding identify_block_size_def Let_def by (intro size_rules remember_keeps_size)

lemma namespace_block_size_keeps_size [size_rules]: "keeps_size n b (namespace_block_size D nsid)"
  unfolding keeps_size_def
proof (intro allI impI)
  fix s :: "'a machine" assume s: "block_sizes (fst s) n = Some b"
  show "block_sizes (fst (snd (namespace_block_size D nsid s))) n = Some b"
  proof (cases "block_sizes (fst s) nsid")
    case None
    with s have "n \<noteq> nsid" by auto
    then show ?thesis
      using keeps_sizeD [OF identify_block_size_keeps_size s] None
      by (cases s) (simp add: namespace_block_size_def run_simps)
  next
    case (Some size)
    with s show ?thesis by (cases s) (simp add: namespace_block_size_def run_simps)
  qed
qed

lemma transfers_keep_size [size_rules]:
  "keeps_size n b (driver_read D slba count)" "keeps_size n b (driver_write D slba data)"
  unfolding driver_read_def driver_write_def Let_def by (intro size_rules)+

lemma driver_call_size:
  assumes "driver_call D s s'" and "block_sizes (fst s) n = Some b"
  shows "block_sizes (fst s') n = Some b"
  using assms(1) by (cases rule: driver_call_state)
    (use assms(2) in \<open>simp_all add: keeps_sizeD size_rules\<close>)

lemma driver_calls_size:
  "(driver_call D)\<^sup>*\<^sup>* s s' \<Longrightarrow> block_sizes (fst s) n = Some b \<Longrightarrow> block_sizes (fst s') n = Some b"
  by (induction rule: rtranclp_induct) (auto intro: driver_call_size)

section \<open>Every reachable state\<close>

lemma driver_call_ok:
  assumes "driver_call D s s'" and "driver_ok (fst s)"
  shows "driver_ok (fst s') \<and> same_hardware (fst s) (fst s')"
proof -
  obtain dr w where s: "s = (dr, w)" by (cases s)
  have at: "driver_at dr (fst (dr, w))" using driver_at_self assms(2) by (simp add: s)
  note safe = safeD(1) [OF identify_safe, OF at] safeD(1) [OF namespace_block_size_safe, OF at]
    safeD(1) [OF driver_read_safe, OF at] safeD(1) [OF driver_write_safe, OF _ at]
  have "driver_at dr (fst s')"
    using assms(1) by (cases rule: driver_call_state) (use safe at in \<open>simp_all add: s\<close>)
  then show ?thesis by (simp add: s driver_at_def)
qed

lemma reachable_ok:
  assumes "reachable D h nsid s"
  shows "driver_ok (fst s) \<and> drv_nsid (fst s) = nsid \<and>
    (\<exists>bs k. block_sizes (fst s) nsid = Some bs \<and> unat bs = 2 ^ k)"
  using assms
proof induction
  case (opened bdf cs w dr cs' w')
  then show ?case using open_establishes_the_invariant by fastforce
next
  case (called s s')
  then have "driver_ok (fst s') \<and> same_hardware (fst s) (fst s')" using driver_call_ok by blast
  then show ?case using called by (auto simp: same_hardware_def dest: driver_call_size)
qed

text \<open>
  C16: Whatever is done with a driver after a successful \<open>open\<close> (on a BAR that holds the
  doorbells of its two queues), in any order, with any arguments, whatever each call returns and
  whatever the controller does in between: the driver stays well-formed, serves the namespace it
  was opened for, knows its block size, a power of two, and no later call changes a block size
  that is known. In every such state no call of a public operation panics.
\<close>

theorem reachable_drivers_are_sound:
  assumes "reachable D h nsid s"
  shows "driver_ok (fst s) \<and> drv_nsid (fst s) = nsid \<and>
    (\<exists>bs k. unat bs = 2 ^ k \<and>
      (\<forall>s'. (driver_call D)\<^sup>*\<^sup>* s s' \<longrightarrow> block_sizes (fst s') nsid = Some bs)) \<and>
    (\<forall>q slba count data n. length data < 2 ^ 64 \<longrightarrow>
      fst (driver_read D slba count s) \<noteq> Panic q \<and> fst (driver_write D slba data s) \<noteq> Panic q \<and>
      fst (driver_identify_controller D s) \<noteq> Panic q \<and> fst (namespace_block_size D n s) \<noteq> Panic q)"
proof -
  note ok = reachable_ok [OF assms]
  have at: "driver_at (fst s) (fst s)" using ok driver_at_self by blast
  have "fst (driver_read D slba count s) \<noteq> Panic q \<and> fst (driver_write D slba data s) \<noteq> Panic q \<and>
      fst (driver_identify_controller D s) \<noteq> Panic q \<and> fst (namespace_block_size D n s) \<noteq> Panic q"
    if "length data < 2 ^ 64" for q slba count data n
    unfolding driver_identify_controller_def
    using safeD(3) [OF driver_read_safe, OF at] safeD(3) [OF driver_write_safe [OF that], OF at]
      safeD(3) [OF identify_safe, OF at] safeD(3) [OF namespace_block_size_safe, OF at] by blast
  then show ?thesis using ok driver_calls_size by blast
qed

end
