(* ===== verification/Controllers.thy ===== *)
theory Controllers
  imports Queue_Pair
begin

text \<open>
  Concrete controllers. The device is a parameter of the model; these instances show that
  the hypotheses about it can hold: one that never acts on its own, and one that completes
  every command in order at its next step. The theorems of \<open>Queue_Pair\<close> are applied to them.
\<close>

definition example_bar :: nvme_bar where
  "example_bar = \<lparr>bar_address = 0, bar_length = 0x2000\<rparr>"

definition example_region :: dma_region where
  "example_region = \<lparr>virtual_address = 0x200000, dma_length = HUGE_PAGE_SIZE, physical_address = 0x40000000\<rparr>"

abbreviation example_queue :: queue_pair where
  "example_queue \<equiv> queue_new 1 0x2000 0x3000"

lemma example_queue_ok: "queue_ok example_bar example_region 4 example_queue"
  by (simp add: queue_ok_def queue_new_def example_bar_def example_region_def reg_ok_def
      submission_doorbell_def completion_doorbell_def DOORBELL_BASE_def HUGE_PAGE_SIZE_def)

section \<open>A controller that does nothing\<close>

definition still_device :: "unit device" where
  "still_device = \<lparr>dev_step = (\<lambda>d m. (d, m)), dev_read32 = (\<lambda>d _. (0, d)),
     dev_read64 = (\<lambda>d _. (0, d)), dev_write32 = (\<lambda>d _ _. d), dev_write64 = (\<lambda>d _ _. d)\<rparr>"

lemma step_still [simp]: "step_device still_device w = w"
  by (simp add: step_device_def still_device_def)

lemma idle_still: "dma ((idle_poll still_device ^^ k) w) = dma w"
  by (induction k) (simp_all add: idle_poll_def)

lemma after_submit_still: "dma (after_submit still_device stride command q w) =
    store (dma w) (unat (sqe_slot q)) (sqe_bytes (command\<lparr>sqe_cid := next_cid q\<rparr>))"
  by (simp add: after_submit_def Let_def)

definition empty_world :: "'d \<Rightarrow> 'd world" where
  "empty_world d = \<lparr>dma = (\<lambda>_. 0), dev = d, log = []\<rparr>"

theorem bulk_access_confined_witness:
  "fst (write_bytes still_device example_region 0x1FFFFE [1, 2] (empty_world ())) = Ok () \<and>
   (\<exists>p. fst (write_bytes still_device example_region 0x1FFFFF [1, 2] (empty_world ())) = Panic p)"
  using bulk_access_confined [of "[1, 2]" "0x1FFFFE" example_region still_device "empty_world ()"]
    bulk_access_confined [of "[1, 2]" "0x1FFFFF" example_region still_device "empty_world ()"]
  by (auto simp: example_region_def HUGE_PAGE_SIZE_def)

theorem submit_and_wait_outcomes_witness:
  "\<exists>r q' w'. submit_and_wait still_device example_bar example_region 4 (sqe_new 2)
     (example_queue, empty_world ()) = (r, (q', w')) \<and>
   queue_ok example_bar example_region 4 q' \<and> at_counts q' 1 (if timed_out r then 0 else 1)"
proof -
  obtain r q' w' where r: "submit_and_wait still_device example_bar example_region 4 (sqe_new 2)
     (example_queue, empty_world ()) = (r, (q', w'))"
    by (metis prod.exhaust)
  show ?thesis
    using r submit_and_wait_outcomes [OF example_queue_ok at_counts_new r] by auto
qed

theorem submit_and_wait_trace_witness:
  "\<exists>r q' w'. submit_and_wait still_device example_bar example_region 4 (sqe_new 2)
     (example_queue, empty_world ()) = (r, (q', w')) \<and>
   take 3 (log w') = [DmaStore 0x2000 (sqe_bytes (sqe_new 2)), Fence, RegWrite32 0x1008 1]"
proof -
  obtain r q' w' where r: "submit_and_wait still_device example_bar example_region 4 (sqe_new 2)
     (example_queue, empty_world ()) = (r, (q', w'))"
    by (metis prod.exhaust)
  have eq: "(sqe_new 2)\<lparr>sqe_cid := 0\<rparr> = sqe_new 2"
    by (rule submission_queue_entry.equality) simp_all
  show ?thesis
    using r submit_and_wait_trace [OF example_queue_ok r]
    by (auto simp: empty_world_def queue_new_def submission_doorbell_def DOORBELL_BASE_def eq)
qed

text \<open>A completion queue whose first slot holds the late completion of command 0.\<close>

definition late_world :: "unit world" where
  "late_world = (empty_world ())\<lparr>dma := store (\<lambda>_. 0) 0x3000 (cqe_bytes
     \<lparr>cqe_result = 0, cqe_reserved = 0, cqe_sq_head = 0, cqe_sq_id = 1, cqe_cid = 0,
      cqe_status = 1\<rparr>)\<rparr>"


section \<open>A controller that completes commands in order\<close>

text \<open>
  Its state counts the commands announced on one submission doorbell and the completions
  posted to the completion queue at \<open>co\<close>; a step posts the next completion, if one is due.
\<close>

definition completion_of :: "nat \<Rightarrow> completion_queue_entry" where
  "completion_of n = \<lparr>cqe_result = 0, cqe_reserved = 0, cqe_sq_head = 0, cqe_sq_id = 0,
     cqe_cid = of_nat n, cqe_status = (if even (n div 64) then 1 else 0)\<rparr>"

definition prompt_controller :: "usize \<Rightarrow> nat \<Rightarrow> (nat \<times> nat) device" where
  "prompt_controller db co =
     \<lparr>dev_step = (\<lambda>(m, n) mem. if n < m
        then ((m, Suc n), store mem (co + 16 * (n mod 64)) (cqe_bytes (completion_of n)))
        else ((m, n), mem)),
      dev_read32 = (\<lambda>d _. (0, d)), dev_read64 = (\<lambda>d _. (0, d)),
      dev_write32 = (\<lambda>(m, n) reg v. if reg = db then (Suc m, n) else (m, n)),
      dev_write64 = (\<lambda>d _ _. d)\<rparr>"

text \<open>Before completion \<open>n\<close> is posted, its slot and the 63 after it show the other phase.\<close>

definition ring_fresh :: "nat \<Rightarrow> mem \<Rightarrow> nat \<Rightarrow> bool" where
  "ring_fresh co mem n \<longleftrightarrow>
     (\<forall>i. n \<le> i \<and> i < n + 64 \<longrightarrow> phase (slot_entry co mem i) \<noteq> even (i div 64))"

definition prompt_rel :: "nat \<Rightarrow> nat \<Rightarrow> nat \<Rightarrow> nat \<Rightarrow> nat \<times> nat \<Rightarrow> mem \<Rightarrow> bool" where
  "prompt_rel co m n b d mem \<longleftrightarrow> d = (m, n) \<and> n \<le> m \<and> ring_fresh co mem n \<and>
     (0 < n \<longrightarrow> slot_entry co mem (n - 1) = completion_of (n - 1))"

lemma phase_completion_of: "phase (completion_of n) = even (n div 64)"
  by (simp add: phase_def completion_of_def)

lemma slot_entry_away:
  assumes "off + length bs \<le> co \<or> co + 64 * 16 \<le> off"
  shows "slot_entry co (store mem off bs) i = slot_entry co mem i"
proof -
  have "i mod 64 < 64" by simp
  then have "co + 16 * (i mod 64) + 16 \<le> off \<or> off + length bs \<le> co + 16 * (i mod 64)"
    using assms by linarith
  then show ?thesis by (simp add: slot_entry_def load_store_disjoint)
qed

lemma slot_entry_post:
  "slot_entry co (store mem (co + 16 * (n mod 64)) (cqe_bytes c)) i =
     (if i mod 64 = n mod 64 then c else slot_entry co mem i)"
proof (cases "i mod 64 = n mod 64")
  case True
  then show ?thesis
    using cqer.typed_load_store [of mem "co + 16 * (n mod 64)" c] by (simp add: slot_entry_def)
next
  case False
  then have "co + 16 * (i mod 64) + 16 \<le> co + 16 * (n mod 64) \<or>
      co + 16 * (n mod 64) + 16 \<le> co + 16 * (i mod 64)" by linarith
  with False show ?thesis by (simp add: slot_entry_def load_store_disjoint)
qed

lemma ring_fresh_post:
  assumes "ring_fresh co mem n" and "phase c = even (n div 64)"
  shows "ring_fresh co (store mem (co + 16 * (n mod 64)) (cqe_bytes c)) (Suc n)"
  unfolding ring_fresh_def
proof (intro allI impI)
  fix i assume i: "Suc n \<le> i \<and> i < Suc n + 64"
  show "phase (slot_entry co (store mem (co + 16 * (n mod 64)) (cqe_bytes c)) i) \<noteq> even (i div 64)"
  proof (cases "i mod 64 = n mod 64")
    case True
    then have "64 dvd i - n" using i by (intro mod_eq_dvd_iff_nat [THEN iffD1]) simp_all
    then obtain k where "i - n = 64 * k" by (rule dvdE)
    then have "i = n + 64" using i by arith
    then have "i div 64 = Suc (n div 64)" by simp
    with True show ?thesis by (simp add: slot_entry_post assms(2))
  next
    case False
    with i assms(1) show ?thesis by (cases "i = n + 64") (auto simp: slot_entry_post ring_fresh_def)
  qed
qed

lemma ring_fresh_next: "ring_fresh co mem n \<Longrightarrow> phase (slot_entry co mem n) \<noteq> even (n div 64)"
  by (simp add: ring_fresh_def)

lemma ring_fresh_away:
  "off + length bs \<le> co \<or> co + 64 * 16 \<le> off \<Longrightarrow> ring_fresh co (store mem off bs) n = ring_fresh co mem n"
  by (simp add: ring_fresh_def slot_entry_away)

lemma prompt_posts:
  assumes "prompt_rel co m n b d mem" and "n < m"
  shows "prompt_rel co m (Suc n) b (m, Suc n)
    (store mem (co + 16 * (n mod 64)) (cqe_bytes (completion_of n)))"
  using assms ring_fresh_post [of co mem n "completion_of n"]
  by (simp add: prompt_rel_def slot_entry_post phase_completion_of)

lemma prompt_in_order:
  "in_order_controller (prompt_controller (submission_doorbell 1 4) 0x3000) example_queue 4 0
     (prompt_rel 0x3000)"
proof -
  have db: "completion_doorbell 1 4 \<noteq> submission_doorbell 1 4"
    by (simp add: completion_doorbell_def submission_doorbell_def)
  have step: "\<exists>n' b'. n \<le> n' \<and> (n' = n \<and> n < m \<longrightarrow> b' < b) \<and> prompt_rel 0x3000 m n' b'
      (fst (dev_step (prompt_controller (submission_doorbell 1 4) 0x3000) d mem))
      (snd (dev_step (prompt_controller (submission_doorbell 1 4) 0x3000) d mem))"
    if R: "prompt_rel 0x3000 m n b d mem" for m n b d mem
  proof (cases "n < m")
    case True
    then show ?thesis using prompt_posts [OF R True] R
      by (intro exI [of _ "Suc n"] exI [of _ b]) (auto simp: prompt_controller_def prompt_rel_def)
  next
    case False
    then show ?thesis using R
      by (intro exI [of _ n] exI [of _ b]) (auto simp: prompt_controller_def prompt_rel_def)
  qed
  show ?thesis
    unfolding in_order_controller_def
    using step db
    by (auto simp: queue_new_def prompt_rel_def slot_entry_away ring_fresh_away prompt_controller_def
        phase_completion_of dest: ring_fresh_next) (auto simp: completion_of_def)
qed

lemma of_le_zeros: "of_le (replicate k 0) = (0 :: 'a::len word)"
  by (induction k) simp_all

lemma slot_entry_zeros: "phase (slot_entry co (\<lambda>_. 0) i) = False"
  by (simp add: slot_entry_def load_def cqe_of_bytes_def phase_def map_replicate_const of_le_zeros
      drop_replicate)

theorem session_completes_every_command_witness:
  "list_all2 (\<lambda>r n. \<exists>c. r = Ok c \<and> cqe_cid c = of_nat n)
     (fst (submit_all (prompt_controller (submission_doorbell 1 4) 0x3000) example_bar
        example_region 4 (replicate 130 (id, sqe_new 2)) (example_queue, empty_world (0, 0))))
     [0..<130]"
proof -
  have "prompt_rel 0x3000 0 0 0 (0, 0) (\<lambda>_. 0)"
    by (simp add: prompt_rel_def ring_fresh_def slot_entry_zeros)
  then show ?thesis
    using session_completes_every_command [OF prompt_in_order _ example_queue_ok,
        of 0 "empty_world (0, 0)" "replicate 130 (id, sqe_new 2)"]
    by (auto simp: empty_world_def)
qed

lemma ring_counters_count_witness:
  "\<exists>rs q' w'. submit_all still_device example_bar example_region 4
      (replicate 70 (id, sqe_new 2)) (example_queue, empty_world ()) = (rs, (q', w')) \<and>
    length rs = 70 \<and> unat (submission_tail q') = 6"
proof -
  obtain rs q' w' where r: "submit_all still_device example_bar example_region 4
      (replicate 70 (id, sqe_new 2)) (example_queue, empty_world ()) = (rs, (q', w'))"
    by (metis prod.exhaust)
  then show ?thesis using ring_counters_count [OF example_queue_ok r] by auto
qed

end
