(* ===== verification/Driver_Examples.thy ===== *)
theory Driver_Examples
  imports Driver_Transfers Driver_Lifecycle Controllers
begin

text \<open>
  Concrete drivers: instances on which the hypotheses of the driver's theorems hold, and a
  controller that boots.
\<close>

section \<open>A driver with a known block size\<close>

definition example_driver :: driver where
  "example_driver = (driver_new example_bar example_region 0 1)\<lparr>block_sizes := [1 \<mapsto> 512]\<rparr>"

lemma log_empty_world [simp]: "log (empty_world d) = []"
  by (simp add: empty_world_def)

lemma example_cap_stride: "unat (cap_stride 0) = 4"
  by (simp only: cap_stride_pow) simp

lemma example_fields [simp]:
  "drv_nsid example_driver = 1" "block_sizes example_driver = [1 \<mapsto> 512]"
  "drv_bar example_driver = example_bar" "drv_dma example_driver = example_region"
  "doorbell_stride example_driver = cap_stride 0"
  "io_queue example_driver = queue_new 1 0x2000 0x3000"
  "admin_queue example_driver = queue_new 0 0 0x1000"
  by (simp_all add: example_driver_def driver_new_def layout_defs IO_QUEUE_ID_def)

lemma pow_512: "unat (512 :: usize) = 2 ^ 9"
  by simp

lemma driver_ok_sized:
  assumes "k < 64" and "unat bs = 2 ^ k"
  shows "driver_ok (example_driver\<lparr>block_sizes := [1 \<mapsto> bs]\<rparr>)"
proof -
  have "driver_ok (driver_new example_bar example_region 0 1)"
    by (rule driver_ok_new) (simp_all add: example_region_def example_bar_def example_cap_stride)
  then show ?thesis
    using assms by (auto simp: driver_ok_def driver_new_def example_driver_def)
qed

lemma example_driver_ok: "driver_ok example_driver"
  using driver_ok_sized [of 9 512] by (simp add: example_driver_def)

theorem driver_operations_never_panic_witness:
  "well_behaved example_driver (empty_world ()) (driver_write still_device 7 (replicate 512 1)) \<and>
   well_behaved example_driver (empty_world ()) (driver_read still_device 7 3)"
  using driver_operations_never_panic [OF example_driver_ok, of "replicate 512 1" "empty_world ()"
      still_device 7 3] by simp

theorem transfer_footprint_witness:
  "\<exists>es. log (snd (snd (driver_write still_device 7 (replicate 512 1) (example_driver, empty_world ())))) = es \<and>
     list_all (footprint (cap_stride 0) {1}) es"
  using transfer_footprint [OF example_driver_ok, of "replicate 512 1" "{1}" still_device 7 3 "empty_world ()"]
  by (simp add: empty_world_def)

theorem block_size_cached_witness:
  "namespace_block_size still_device 1 (example_driver, empty_world ()) =
     (Ok 512, (example_driver, empty_world ()))"
  using block_size_cached [of example_driver 1 512 still_device "empty_world ()"] by simp

theorem data_pointers_describe_the_buffer_witness:
  "\<exists>prp1 prp2 w'. data_pointers still_device example_driver 0x2001 (empty_world ()) = (Ok (prp1, prp2), w') \<and>
     walk_prps example_region (dma w') 3 prp1 prp2 = [0x40005000, 0x40006000, 0x40007000]"
proof -
  have "leaves still_device 0x4000 0x5000" by (simp add: leaves_def still_device_def)
  moreover have "dma_length (drv_dma example_driver) = HUGE_PAGE_SIZE" by (simp add: example_region_def)
  ultimately show ?thesis
    using data_pointers_describe_the_buffer [of example_driver still_device "0x2001" "empty_world ()"]
    by (simp add: example_region_def upt_rec)
qed



theorem bad_transfers_have_no_effect_witness:
  "driver_write still_device 7 [1, 2, 3] (example_driver, empty_world ()) =
     (Err WriteLengthNotMultiple, (example_driver, empty_world ())) \<and>
   driver_read still_device 7 0xFFFF (example_driver, empty_world ()) =
     (Err ReadLargerThanBuffer, (example_driver, empty_world ()))"
  using bad_transfers_have_no_effect [of example_driver 512 "[1, 2, 3]" still_device 7 "empty_world ()" "0xFFFF"]
  by simp

theorem oversized_read_slips_through_witness:
  "\<exists>dr e es. log (snd (snd (driver_read still_device 7 16 (dr, empty_world ())))) = announce dr e @ es \<and>
     command_blocks e = 16 \<and> sqe_prp2 e = 0"
proof -
  let ?dr = "example_driver\<lparr>block_sizes := [1 \<mapsto> push_bit 60 1]\<rparr>"
  have bs: "unat (push_bit 60 1 :: usize) = 2 ^ 60" by simp
  obtain r dr' w' where run: "driver_read still_device 7 16 (?dr, empty_world ()) = (r, (dr', w'))"
    by (metis prod.exhaust)
  have "block_sizes ?dr (drv_nsid ?dr) = Some (push_bit 60 1)" by simp
  from oversized_read_slips_through [OF driver_ok_sized [OF _ bs] this bs run]
  have "\<exists>e rest. log w' = log (empty_world ()) @ announce ?dr e @ rest \<and> command_slba e = 7 \<and>
    command_blocks e = 16 \<and> sqe_prp2 e = 0" by simp
  then show ?thesis using run by (intro exI [of _ ?dr]) auto
qed

section \<open>Waiting and resetting\<close>

lemma example_registers: "reg_ok 4 example_bar CSTS"
  by (simp add: reg_ok_def example_bar_def register_defs)

theorem wait_ready_decides_witness:
  "fst (wait_ready still_device example_bar False (empty_world ())) = Ok () \<and>
   fst (wait_ready still_device example_bar True (empty_world ())) = Err ReadyTimedOut"
proof -
  have seen: "status_seen still_device w = 0" for w
    by (simp add: status_seen_def) (simp add: still_device_def)
  have d: "decides False 0" "\<not> decides True 0" by (simp_all add: decides_def)
  have none: "find (\<lambda>k. False) xs = None" for xs :: "nat list" by (induction xs) simp_all
  have "[0..<1000] = 0 # [Suc 0..<1000]" by (subst upt_conv_Cons) (simp_all only: zero_less_numeral)
  then have zero: "find (\<lambda>k. True) [0..<1000] = Some 0" by (simp only: find.simps if_True)
  have "fst (wait_ready still_device example_bar False (empty_world ())) = Ok ()"
    using wait_ready_decides [OF example_registers, of still_device False "empty_world ()"]
    by (simp only: seen d zero option.case) simp
  moreover have "fst (wait_ready still_device example_bar True (empty_world ())) = Err ReadyTimedOut"
    using wait_ready_decides [OF example_registers, of still_device True "empty_world ()"]
    by (simp only: seen d none option.case)
  ultimately show ?thesis ..
qed

section \<open>A controller that boots\<close>

text \<open>
  Its state is CC and the number of admin commands announced. RDY follows EN. At every step it
  posts the completion of the last admin command and leaves in the data page the bytes that
  both Identify structures need: entry sizes 6 and 4, and 512-byte blocks.
\<close>

definition boot_post :: "nat \<Rightarrow> mem \<Rightarrow> mem" where
  "boot_post m mem = store (store (store mem
     (0x1000 + 16 * ((m - 1) mod 64)) (cqe_bytes (completion_of (m - 1)))) 0x5200 [0x66, 0x44]) 0x5082 [9]"

definition boot_controller :: "(u32 \<times> nat) device" where
  "boot_controller =
     \<lparr>dev_step = (\<lambda>(cc, m) mem. ((cc, m), if m = 0 then mem else boot_post m mem)),
      dev_read32 = (\<lambda>(cc, m) reg. (if reg = CSTS then cc AND 1 else cc, (cc, m))),
      dev_read64 = (\<lambda>d _. (0, d)),
      dev_write32 = (\<lambda>(cc, m) reg v. if reg = CC then (v, m)
        else if reg = submission_doorbell 0 4 then (cc, Suc m) else (cc, m)),
      dev_write64 = (\<lambda>d _ _. d)\<rparr>"

definition boot_data :: "mem \<Rightarrow> bool" where
  "boot_data mem \<longleftrightarrow> mem 0x5200 = 0x66 \<and> mem 0x5201 = 0x44 \<and> mem 0x5082 = 9"

lemma boot_step [simp]: "dev (step_device boot_controller w) = dev w"
  "0 < snd (dev w) \<Longrightarrow> dma (step_device boot_controller w) = boot_post (snd (dev w)) (dma w)"
  by (simp_all add: step_device_def boot_controller_def case_prod_unfold Let_def)

lemma boot_data_post: "boot_data (boot_post m mem)"
proof -
  have "(m - 1) mod 64 < 64" by simp
  then show ?thesis by (simp add: boot_data_def boot_post_def store_def)
qed

lemma boot_slot: "slot_entry 0x1000 (boot_post (Suc m) mem) m = completion_of m"
proof -
  have "m mod 64 < 64" by simp
  then have "0x1000 + 16 * (m mod 64) + 16 \<le> 0x5082" by simp
  then have "load (boot_post (Suc m) mem) (0x1000 + 16 * (m mod 64)) 16 =
      load (store mem (0x1000 + 16 * (m mod 64)) (cqe_bytes (completion_of m))) (0x1000 + 16 * (m mod 64)) 16"
    by (simp add: boot_post_def load_store_disjoint)
  then show ?thesis
    using cqer.typed_load_store [of mem "0x1000 + 16 * (m mod 64)" "completion_of m"]
    by (simp add: slot_entry_def)
qed

lemma success_completion_of: "is_success (completion_of n)"
  by (simp add: is_success_def status_code_def status_code_type_def completion_of_def)

lemma boot_submit:
  assumes ok: "queue_ok bar region 4 q" and at: "at_counts q m m"
    and q: "queue_id q = 0" "completion_offset q = 0x1000" and dev: "dev w = (cc, m)"
  obtains q' w' where "submit_and_wait boot_controller bar region 4 c (q, w) = (Ok (completion_of m), (q', w'))"
    and "at_counts q' (Suc m) (Suc m)" and "dev w' = (cc, Suc m)" and "boot_data (dma w')"
proof -
  let ?q = "advance_tail (take_cid q)"
  let ?w1 = "after_submit boot_controller 4 c q w" and ?D = boot_controller
  have w1: "dev ?w1 = (cc, Suc m)"
    using dev q(1) by (simp add: after_submit_def Let_def step_device_log_update)
      (simp add: boot_controller_def submission_doorbell_def DOORBELL_BASE_def CC_def)
  have w2: "dev (idle_poll ?D ?w1) = (cc, Suc m)" and
    mem: "dma (idle_poll ?D ?w1) = boot_post (Suc m) (dma ?w1)"
    using w1 by (simp_all add: idle_poll_def)
  have at1: "at_counts ?q (Suc m) m" using at by (rule at_counts_submit)
  have "seen ?q (idle_poll ?D ?w1) = completion_of m"
    using ok at1 q(2) by (subst seen_slot_entry [of bar region 4 _ "Suc m" m]) (simp_all add: mem boot_slot)
  moreover have "completion_phase ?q = even (m div 64)" using at1 by (simp add: at_counts_def)
  ultimately have "fresh ?q (idle_poll ?D ?w1)" by (simp add: fresh_def phase_completion_of)
  then have "first_fresh ?D ?q 200001 ?w1 = Some 1" by (intro first_freshI) simp_all
  then have run: "submit_and_wait ?D bar region 4 c (q, w) =
      (Ok (completion_of m), (advance_head ?q, after_consume ?D 4 ?q (idle_poll ?D ?w1)))"
    using \<open>seen ?q (idle_poll ?D ?w1) = completion_of m\<close> at_counts_cid [OF at]
    by (simp add: run_submit_and_wait [OF ok] Let_def completion_of_def)
  have "dev (after_consume ?D 4 ?q (idle_poll ?D ?w1)) = (cc, Suc m)"
    using w2 q(1) by (simp add: after_consume_def Let_def step_device_log_update)
      (simp add: boot_controller_def submission_doorbell_def completion_doorbell_def DOORBELL_BASE_def CC_def)
  moreover have "boot_data (dma (after_consume ?D 4 ?q (idle_poll ?D ?w1)))"
    using w2 by (simp add: after_consume_def Let_def step_device_log_update boot_data_post)
  ultimately show thesis using run at_counts_consume [OF at1] by (intro that)
qed

definition boot_ready :: "nat \<Rightarrow> driver \<Rightarrow> (u32 \<times> nat) world \<Rightarrow> bool" where
  "boot_ready m dr w \<longleftrightarrow> driver_ok dr \<and> doorbell_stride dr = 4 \<and> at_counts (admin_queue dr) m m \<and>
     snd (dev w) = m"

lemma boot_admin:
  assumes "boot_ready m dr w"
  obtains dr' w' where "admin_submit boot_controller c (dr, w) = (Ok (completion_of m), (dr', w'))"
    and "boot_ready (Suc m) dr' w'" and "boot_data (dma w')"
    and "drv_dma dr' = drv_dma dr" and "drv_nsid dr' = drv_nsid dr" and "block_sizes dr' = block_sizes dr"
proof -
  have ok: "driver_ok dr" and st: "doorbell_stride dr = 4" and at: "at_counts (admin_queue dr) m m"
    using assms by (simp_all add: boot_ready_def)
  obtain cc where dev: "dev w = (cc, m)" using assms by (cases "dev w") (simp add: boot_ready_def)
  have q: "queue_id (admin_queue dr) = 0" "completion_offset (admin_queue dr) = 0x1000"
    using ok by (simp_all add: driver_ok_def queue_at_def)
  obtain q' w' where run: "submit_and_wait boot_controller (drv_bar dr) (drv_dma dr) 4 c (admin_queue dr, w)
      = (Ok (completion_of m), (q', w'))"
    and post: "at_counts q' (Suc m) (Suc m)" "dev w' = (cc, Suc m)" "boot_data (dma w')"
    using boot_submit [OF driver_ok_queues(1) [OF ok, unfolded st] at q dev] by blast
  have eq: "admin_submit boot_controller c (dr, w) = (Ok (completion_of m), (dr\<lparr>admin_queue := q'\<rparr>, w'))"
    by (simp add: admin_submit_def st run)
  have "driver_at dr (fst (snd (admin_submit boot_controller c (dr, w))))"
    using safeD(1) [OF admin_submit_safe, of dr "(dr, w)"] driver_at_self [OF ok] by simp
  then have "driver_ok (fst (snd (admin_submit boot_controller c (dr, w))))" by (rule driver_atD(5))
  then have "boot_ready (Suc m) (dr\<lparr>admin_queue := q'\<rparr>) w'"
    using post st by (simp add: eq boot_ready_def)
  then show thesis by (rule that [OF eq _ post(3)]) simp_all
qed

lemma boot_identify:
  assumes "boot_ready m dr w"
  obtains data dr' w' where "identify boot_controller structure nsid (dr, w) = (Ok data, (dr', w'))"
    and "length data = 4096" and "data ! 512 = 0x66" and "data ! 513 = 0x44" and "data ! 130 = 9"
    and "boot_ready (Suc m) dr' w'" and "drv_nsid dr' = drv_nsid dr" and "block_sizes dr' = block_sizes dr"
proof -
  let ?c = "nvme_identify structure nsid (data_page_physical_address dr 0)"
  obtain dr' w' where run: "admin_submit boot_controller ?c (dr, w) = (Ok (completion_of m), (dr', w'))"
    and ready: "boot_ready (Suc m) dr' w'" and same: "drv_dma dr' = drv_dma dr" "drv_nsid dr' = drv_nsid dr"
      "block_sizes dr' = block_sizes dr"
    using boot_admin [OF assms] by metis
  let ?w = "step_device boot_controller w'"
  have len: "dma_length (drv_dma dr') = HUGE_PAGE_SIZE"
    using ready by (simp add: boot_ready_def driver_ok_def hardware_ok_def)
  then have "check_bytes (drv_dma dr') DATA_OFFSET 4096 = Ok ()"
    by (simp add: check_bytes_Ok DATA_OFFSET_def HUGE_PAGE_SIZE_def)
  then have eq: "identify boot_controller structure nsid (dr, w) = (Ok (load (dma ?w) 0x5000 4096), (dr', ?w))"
    by (simp add: identify_def run_simps run check_def success_completion_of read_bytes_def DATA_OFFSET_def)
  have "boot_data (dma ?w)" using ready by (simp add: boot_ready_def boot_data_post)
  moreover have "boot_ready (Suc m) dr' ?w" using ready by (simp add: boot_ready_def)
  ultimately show thesis using same by (intro that [OF eq]) (simp_all add: boot_data_def)
qed

lemma boot_reset:
  assumes "boot_ready 0 dr w"
  obtains w' where "reset_and_enable boot_controller dr w = (Ok (), w')" and "boot_ready 0 dr w'"
proof -
  have hw: "hardware_ok (drv_bar dr) (drv_dma dr) (doorbell_stride dr)"
    using assms unfolding boot_ready_def driver_ok_def by blast
  note regs = config_registers [OF hw]
  let ?D = boot_controller
  have dev_ops: "dev_read32 ?D d CSTS = (fst d AND 1, d)" "dev_read32 ?D d CC = (fst d, d)"
    "dev_write32 ?D d CC v = (v, snd d)" "dev_write32 ?D d AQA v = d" "dev_write64 ?D d reg u = d"
    for d v reg u
    by (simp_all add: boot_controller_def case_prod_unfold register_defs submission_doorbell_def)
  have wait: "fst (wait_ready ?D (drv_bar dr) want v) = Ok () \<and> dev (snd (wait_ready ?D (drv_bar dr) want v)) = dev v"
    if "want \<longleftrightarrow> fst (dev v) AND 1 \<noteq> 0" for want v
  proof -
    have "(fst (dev v) AND 1) AND 2 = 0" by (simp add: and.assoc)
    then have "decides want (status_seen ?D v)" "status_seen ?D v AND 2 = 0"
      using that by (simp_all add: decides_def status_seen_def dev_ops and.assoc)
    moreover have "wait_ready ?D (drv_bar dr) want v = wait_ready_polls ?D (drv_bar dr) want (Suc 999) v"
      by (simp add: wait_ready_def)
    ultimately show ?thesis
      by (simp only: wait_round [OF regs(2)] if_True) (simp add: status_read_def dev_ops)
  qed
  have waitF: "fst (dev v) AND 1 = 0 \<Longrightarrow> fst (wait_ready ?D (drv_bar dr) False v) = Ok ()"
    and waitT: "fst (dev v) AND 1 \<noteq> 0 \<Longrightarrow> fst (wait_ready ?D (drv_bar dr) True v) = Ok ()"
    and devF: "fst (dev v) AND 1 = 0 \<Longrightarrow> dev (snd (wait_ready ?D (drv_bar dr) False v)) = dev v"
    and devT: "fst (dev v) AND 1 \<noteq> 0 \<Longrightarrow> dev (snd (wait_ready ?D (drv_bar dr) True v)) = dev v" for v
    using wait [of False v] wait [of True v] by simp_all
  have off: "(x AND - 2) AND 1 = 0" for x :: u32 by (simp add: and.assoc)
  let ?r = "reset_and_enable ?D dr w"
  have vals: "push_bit 16 (ucast QUEUE_DEPTH - 1) OR (ucast QUEUE_DEPTH - 1) = (0x3F003F :: u32)"
    "push_bit 20 IO_COMPLETION_ENTRY_SIZE_EXPONENT OR push_bit 16 IO_SUBMISSION_ENTRY_SIZE_EXPONENT OR 1
      = 0x460001"
    by (simp_all add: QUEUE_DEPTH_def IO_COMPLETION_ENTRY_SIZE_EXPONENT_def
        IO_SUBMISSION_ENTRY_SIZE_EXPONENT_def)
  have "fst ?r = Ok () \<and> dev (snd ?r) = (0x460001, snd (dev w))"
    unfolding reset_and_enable_def Let_def vals
    by (simp add: run_andthen read_configuration_def write_configuration_def write_admin_queue_attributes_def
        write_admin_submission_queue_def write_admin_completion_queue_def reg32.wr_allowed [OF regs(1)]
        reg32.wr_allowed [OF regs(3)] reg32.rd_allowed [OF regs(1)] reg64.wr_allowed [OF regs(4)]
        reg64.wr_allowed [OF regs(5)] dev_ops waitF devF waitT devT off)
  then have "?r = (Ok (), snd ?r)" and "boot_ready 0 dr (snd ?r)"
    using assms by (simp_all add: boot_ready_def prod_eq_iff)
  then show thesis by (rule that)
qed

lemma success_status: "fst (of_outcome (check (completion_of m) what) s) = Ok ()"
  "snd (of_outcome (check (completion_of m) what) s) = s"
  by (simp_all add: run_of_outcome check_def success_completion_of)

lemma boot_bring_up:
  assumes "boot_ready 0 dr w"
  shows "\<exists>dr' w'. bring_up boot_controller (dr, w) = (Ok (), (dr', w'))"
proof -
  let ?D = boot_controller
  have pause: "pause v = (Ok (), v\<lparr>log := log v @ [Pause]\<rparr>)" for v :: "(u32 \<times> nat) world"
    by (simp add: run_access)
  have ready_log: "boot_ready m d (v\<lparr>log := l\<rparr>) = boot_ready m d v" for m d v l
    by (simp add: boot_ready_def)
  obtain w1 where reset: "reset_and_enable ?D dr w = (Ok (), w1)" "boot_ready 0 dr w1"
    using boot_reset [OF assms] .
  let ?w1 = "w1\<lparr>log := log w1 @ [Pause]\<rparr>"
  have r1: "boot_ready 0 dr ?w1" using reset(2) by (simp only: ready_log)
  obtain data dr2 w2 where id: "identify ?D IdController 0 (dr, ?w1) = (Ok data, (dr2, w2))"
      "length data = 4096" "data ! 512 = 0x66" "data ! 513 = 0x44" "boot_ready (Suc 0) dr2 w2"
      "drv_nsid dr2 = drv_nsid dr" "block_sizes dr2 = block_sizes dr"
    using boot_identify [OF r1, of IdController 0] by metis
  have fields: "field_le identify_controller ''sqes'' data = data ! 512"
      "field_le identify_controller ''cqes'' data = data ! 513"
    using id(2) by (simp_all only: field_le_def field_bytes_def entry_size_fields option.case prod.case)
      (simp_all add: byte_at)
  have pre: "read_from_prefix identify_controller data = Some data"
    using id(2) by (simp only: read_from_prefix_def identify_sizes) simp
  have sizes: "check_queue_entry_sizes ?D (dr, ?w1) = (Ok (), (dr2, w2))"
    by (simp add: check_queue_entry_sizes_def run_andthen id(1) pre fields Let_def run_ret
        entry_size_accepted_def id(3,4) IO_SUBMISSION_ENTRY_SIZE_EXPONENT_def
        IO_COMPLETION_ENTRY_SIZE_EXPONENT_def)
  let ?w2 = "w2\<lparr>log := log w2 @ [Pause]\<rparr>"
  obtain dr3 w3 where cq: "admin_submit ?D (nvme_create_io_completion_queue IO_QUEUE_ID (ucast QUEUE_DEPTH)
      (io_completion_queue_physical_address dr2)) (dr2, ?w2) = (Ok (completion_of (Suc 0)), (dr3, w3))"
      "boot_ready (Suc (Suc 0)) dr3 w3" "drv_nsid dr3 = drv_nsid dr2" "block_sizes dr3 = block_sizes dr2"
    using boot_admin [of "Suc 0" dr2 ?w2] id(5) by (metis ready_log)
  obtain dr4 w4 where sq: "admin_submit ?D (nvme_create_io_submission_queue IO_QUEUE_ID (ucast QUEUE_DEPTH)
      IO_QUEUE_ID (io_submission_queue_physical_address dr3)) (dr3, w3) = (Ok (completion_of (Suc (Suc 0))), (dr4, w4))"
      "boot_ready (Suc (Suc (Suc 0))) dr4 w4" "drv_nsid dr4 = drv_nsid dr3" "block_sizes dr4 = block_sizes dr3"
    using boot_admin [OF cq(2)] by metis
  have queues: "create_io_queues ?D (dr2, ?w2) = (Ok (), (dr4, w4))"
    by (simp add: create_io_queues_def run_andthen run_gets cq(1) sq(1) success_status)
      (simp add: run_of_outcome check_def success_completion_of)
  let ?w4 = "w4\<lparr>log := log w4 @ [Pause]\<rparr>"
  obtain ns dr5 w5 where ns: "identify ?D IdNamespace (drv_nsid dr) (dr4, ?w4) = (Ok ns, (dr5, w5))" "length ns = 4096"
    using boot_identify [of _ dr4 ?w4 IdNamespace "drv_nsid dr"] sq(2) by (metis ready_log)
  have "\<exists>bs d v. namespace_block_size ?D (drv_nsid dr) (dr4, ?w4) = (Ok bs, (d, v))"
    using ns by (cases "block_sizes dr4 (drv_nsid dr)")
      (auto simp: namespace_block_size_def identify_block_size_def run_andthen run_gets run_ret
        read_from_prefix_namespace Let_def run_on_fst run_modify)
  then obtain bs d v where bs: "namespace_block_size ?D (drv_nsid dr) (dr4, ?w4) = (Ok bs, (d, v))" by blast
  have "bring_up ?D (dr, w) = (Ok (), (d, v))"
    by (simp add: bring_up_def run_andthen run_gets run_on_snd reset(1) pause sizes queues bs run_ret)
  then show ?thesis by blast
qed

definition example_host :: host where
  "example_host = \<lparr>host_driver_link = \<lambda>_. LinkMissing, host_read_command = \<lambda>_. Inr [0, 0],
     host_write_command = \<lambda>_ _. None,
     host_bar = \<lparr>os_open_resource = \<lambda>_ _. None, os_resource_length = \<lambda>_ _. Inr 0x2000,
       os_mmap_resource = \<lambda>_ _ _. Inr 0x100000\<rparr>,
     host_mem = \<lparr>os_mmap = \<lambda>_. Inr 0x200000, os_mlock = \<lambda>_ _. None,
       os_pagemap = \<lambda>_. Inr (le_bytes 8 (0x8000000000012345 :: u64))\<rparr>\<rparr>"

lemma boot_open:
  obtains dr cs w where "driver_open boot_controller example_host bdf 1 ([], empty_world (0, 0))
      = (Ok dr, (cs, w))" and "drv_bar dr = \<lparr>bar_address = 0x100000, bar_length = 0x2000\<rparr>"
    and "doorbell_stride dr = cap_stride 0"
proof -
  let ?D = boot_controller and ?bar = "\<lparr>bar_address = 0x100000, bar_length = 0x2000\<rparr>"
  let ?os = "host_mem example_host"
  have entry: "(of_le (le_bytes 8 (0x8000000000012345 :: u64)) :: u64) = 0x8000000000012345"
    by (rule of_le_le_bytes) simp
  have "\<exists>pa. virtual_to_physical ?os 0x200000 = Ok pa"
    by (simp add: virtual_to_physical_def example_host_def entry)
  then obtain pa where pa: "virtual_to_physical ?os 0x200000 = Ok pa" by blast
  let ?region = "\<lparr>virtual_address = 0x200000, dma_length = HUGE_PAGE_SIZE, physical_address = pa\<rparr>"
  let ?dr = "driver_new ?bar ?region 0 1"
  have stride: "cap_stride 0 = 4" using unat_eqD [OF example_cap_stride] by simp
  have "driver_ok ?dr" by (rule driver_ok_new) (simp_all add: example_cap_stride)
  then have ready: "boot_ready 0 ?dr w" if "snd (dev w) = 0" for w
    using that by (simp add: boot_ready_def at_counts_new) (simp add: driver_new_def stride at_counts_new)
  have bar: "bar_map (host_bar example_host) bdf 0 cs = (Ok ?bar, cs @ [MmapResource 0x100000 0x2000])" for cs
    by (simp add: bar_map_def example_host_def run_simps os_did_def)
  have os: "os_mmap ?os n = Inr 0x200000" "os_mlock ?os a n = None" for a n
    by (simp_all add: example_host_def)
  have "\<exists>cs'. alloc_huge ?os cs = (Ok ?region, cs')" for cs
    by (simp add: alloc_huge_def os pa run_simps os_did_def)
  then obtain cs where alloc: "alloc_huge ?os [MmapResource 0x100000 0x2000] = (Ok ?region, cs)" by blast
  have "reg_ok 8 ?bar CAP" by (simp add: reg_ok_def register_defs)
  moreover have "dev_read64 ?D d reg = (0, d)" for d reg by (simp add: boot_controller_def)
  moreover have "(step_device ?D w)\<lparr>dev := dev w\<rparr> = step_device ?D w" for w
    by (rule world.equality) simp_all
  ultimately have cap: "read_capabilities ?D ?bar w = (Ok 0, step_device ?D w)" for w
    by (simp add: read_capabilities_def reg64.rd_allowed)
  have refuse: "refuse_if_kernel_driver_bound example_host bdf = Ok ()"
    by (simp add: refuse_if_kernel_driver_bound_def example_host_def)
  have bus: "fst (enable_bus_master example_host bdf w) = Ok ()"
    "dev (snd (enable_bus_master example_host bdf w)) = dev w" for w :: "(u32 \<times> nat) world"
    by (simp_all add: enable_bus_master_def example_host_def run_access Let_def)
  have pause: "fst (pause v) = Ok ()" "dev (snd (pause v)) = dev v" for v :: "(u32 \<times> nat) world"
    by (simp_all add: run_access)
  let ?w = "snd (pause (step_device ?D (snd (pause (snd (enable_bus_master example_host bdf
    (empty_world (0, 0))))))))"
  have "snd (dev ?w) = 0" by (simp add: pause bus empty_world_def)
  then obtain dr w where up: "bring_up ?D (?dr, ?w) = (Ok (), (dr, w))"
    using boot_bring_up [OF ready] by blast
  have eq: "driver_open ?D example_host bdf 1 ([], empty_world (0, 0)) = (Ok dr, (cs, w))"
    by (simp add: driver_open_def run_andthen run_of_outcome run_on_snd run_on_fst or_drop_def
        refuse bus(1) pause(1) bar alloc cap run_ret run_driver_def up)
  have "same_hardware (fst (?dr, ?w)) (fst (snd (bring_up ?D (?dr, ?w))))"
    using bring_up_keeps_hardware unfolding keeps_hardware_def by blast
  then have "same_hardware ?dr dr" by (simp add: up)
  then show thesis by (intro that [OF eq]) (simp_all add: same_hardware_def driver_new_def)
qed


theorem entry_sizes_checked_witness:
  "\<exists>dr w. fst (check_queue_entry_sizes boot_controller (dr, w)) = Ok ()"
proof -
  have ready: "boot_ready 0 (example_driver\<lparr>block_sizes := [1 \<mapsto> 512]\<rparr>) (empty_world (0, 0))"
    using driver_ok_sized [of 9 512] unat_eqD [OF example_cap_stride]
    by (simp add: boot_ready_def at_counts_new) (simp add: empty_world_def)
  obtain data s where "identify boot_controller IdController 0
      (example_driver\<lparr>block_sizes := [1 \<mapsto> 512]\<rparr>, empty_world (0, 0)) = (Ok data, s)"
    "length data = 4096" "data ! 512 = 0x66" "data ! 513 = 0x44"
    using boot_identify [OF ready, of IdController 0] by metis
  then show ?thesis using entry_sizes_checked [of boot_controller _ _ data s] by (auto simp: Let_def)
qed

theorem open_mappings_witness:
  "\<exists>dr cs w. driver_open boot_controller example_host (txt_of ''0000:01:00.0'') 1 ([], empty_world (0, 0)) =
     (Ok dr, (cs, w)) \<and> live cs = mapping_of dr"
proof -
  obtain dr cs w where run: "driver_open boot_controller example_host (txt_of ''0000:01:00.0'') 1
      ([], empty_world (0, 0)) = (Ok dr, (cs, w))" using boot_open [where bdf = "txt_of ''0000:01:00.0''"] by metis
  show ?thesis using open_mappings [OF run] run by auto
qed

theorem reachable_drivers_are_sound_witness:
  "\<exists>s. reachable boot_controller example_host 1 s \<and>
     (\<forall>q. fst (driver_read boot_controller 7 3 s) \<noteq> Panic q)"
proof -
  obtain dr cs w where run: "driver_open boot_controller example_host (txt_of ''0000:01:00.0'') 1
      ([], empty_world (0, 0)) = (Ok dr, (cs, w))"
    and "drv_bar dr = \<lparr>bar_address = 0x100000, bar_length = 0x2000\<rparr>" "doorbell_stride dr = cap_stride 0"
    using boot_open [where bdf = "txt_of ''0000:01:00.0''"] by metis
  then have "reachable boot_controller example_host 1 (dr, w)"
    by (intro reachable.opened [OF run]) (simp add: example_cap_stride)
  moreover from this have "fst (driver_read boot_controller 7 3 (dr, w)) \<noteq> Panic q" for q
    using reachable_drivers_are_sound [of boot_controller example_host 1 "(dr, w)"]
    by (metis list.size(3) zero_less_numeral zero_less_power)
  ultimately show ?thesis by blast
qed

end
