(* ===== verification/Repl_Examples.thy ===== *)
theory Repl_Examples
  imports Repl_Commands Repl_Display Repl_Program Repl_History Completion Driver_Examples
begin

text \<open>Concrete sessions: instances on which the hypotheses of the REPL's theorems hold.\<close>

unbundle bit_operations_syntax

definition example_map :: file_blocks where
  "example_map = \<lparr>device_lba_size = 512, extents =
     [\<lparr>ext_lba = 7, ext_count = 2, ext_unwritten = False\<rparr>, \<lparr>ext_lba = 70, ext_count = 1, ext_unwritten = True\<rparr>]\<rparr>"

lemma example_matching: "matching example_driver example_map"
  by (simp add: matching_def example_map_def)

lemma example_owned: "owned example_map = {7, 8, 70}"
proof -
  have two: "7 \<le> b \<and> b < 9 \<longleftrightarrow> b = 7 \<or> b = 8" for b :: u64
    by (simp add: word_le_nat_alt word_less_nat_alt word_unat_eq_iff) arith
  have one: "70 \<le> b \<and> b < 71 \<longleftrightarrow> b = 70" for b :: u64
    by (simp add: word_le_nat_alt word_less_nat_alt word_unat_eq_iff) arith
  show ?thesis by (auto simp: owned_def example_map_def covers_def two one)
qed


theorem foreign_blocks_are_refused_witness:
  "\<exists>e. poke still_device example_map 9 0 (txt_of ''x'') (example_driver, empty_world ()) =
     (Err e, (example_driver, empty_world ()))"
proof -
  have "\<not> block_range 9 1 \<subseteq> owned example_map" by (simp add: block_range_one example_owned)
  moreover have "length (replicate 512 (0 :: u8)) = unat (1 :: u64) * unat (device_lba_size example_map)"
    by (simp add: example_map_def)
  ultimately show ?thesis
    using foreign_blocks_are_refused [of 9 1 example_map "replicate 512 0" still_device
        "(example_driver, empty_world ())" 0 0 0 "txt_of ''x''"] by simp
qed

theorem write_pads_with_zeros_witness:
  "\<exists>es. log (snd (snd (write_blocks still_device example_map 8 [1, 2, 3] (example_driver, empty_world ())))) =
     DmaStore 0x5000 ([1, 2, 3] @ replicate 509 0) # es"
proof -
  obtain r dr w where run: "write_blocks still_device example_map 8 [1, 2, 3] (example_driver, empty_world ()) = (r, (dr, w))"
    by (metis prod.exhaust)
  have "block_range 8 (of_nat 1) \<subseteq> owned example_map" by (simp add: block_range_one example_owned)
  then show ?thesis
    unfolding run using write_pads_with_zeros [OF example_driver_ok example_matching _ _ _ _ _ run, of 1]
    by (auto simp: example_map_def)
qed

theorem larger_map_block_size_escapes_witness:
  "\<exists>fb e before after. owned fb = {7} \<and>
     log (snd (snd (confined_write still_device fb 7 (replicate 1024 0) (example_driver, empty_world ())))) =
       before @ announce example_driver e @ after \<and> 8 \<in> command_range e"
proof -
  let ?fb = "\<lparr>device_lba_size = 1024, extents = [\<lparr>ext_lba = 7, ext_count = 1, ext_unwritten = False\<rparr>]\<rparr>"
  obtain r dr w where run: "confined_write still_device ?fb 7 (replicate 1024 0) (example_driver, empty_world ()) = (r, (dr, w))"
    by (metis prod.exhaust)
  have "7 \<le> b \<and> b < 8 \<longleftrightarrow> b = 7" for b :: u64
    by (simp add: word_le_nat_alt word_less_nat_alt word_unat_eq_iff) arith
  then have "owned ?fb = {7}" by (auto simp: owned_def covers_def)
  moreover have "\<exists>e before after. log w = log (empty_world ()) @ before @ announce example_driver e @ after \<and>
      sqe_opc e = 1 \<and> 7 + 1 \<in> command_range e \<and> 7 + 1 \<notin> owned ?fb"
    by (rule larger_map_block_size_escapes [OF example_driver_ok _ _ _ _ _ _ _ run, of 512 False]) simp_all
  then obtain e before after where "log w = before @ announce example_driver e @ after" "8 \<in> command_range e"
    by (simp only: log_empty_world append_Nil) (elim exE conjE, simp)
  ultimately show ?thesis
    by - (rule exI [of _ ?fb], rule exI [of _ e], rule exI [of _ before], rule exI [of _ after], simp only: run snd_conv simp_thms)
qed

theorem read_listing_elides_the_middle_witness:
  "\<exists>w. print_read 7 (replicate 1024 65) 512 (example_driver, empty_world ()) = (Ok (), (example_driver, w)) \<and>
     length (log w) = 3"
proof -
  let ?data = "replicate 1024 65 :: u8 list"
  have n: "(length ?data + unat (512 :: u64) - 1) div unat (512 :: u64) = 2" by simp
  have two: "length (listing line 2) = 2" for line by (simp add: listing_def)
  have "0 < unat (512 :: u64)" "length ?data < 2 ^ 64" by simp_all
  note run = read_listing_elides_the_middle [OF this, of 7 example_driver "empty_world ()", unfolded n]
  show ?thesis unfolding run by (rule exI, rule conjI [OF refl]) (simp add: two)
qed

theorem run_releases_its_mappings_witness:
  "\<exists>cs w. repl_main still_device example_host (\<lambda>_. Ok []) [] None ([], empty_world ()) = (1, (cs, w)) \<and> live cs = []"
proof -
  obtain code cs w where run: "repl_main still_device example_host (\<lambda>_. Ok []) [] None ([], empty_world ()) = (code, (cs, w))"
    by (metis prod.exhaust)
  have r: "repl_run still_device example_host (\<lambda>_. Ok []) [] None s = (Err (MissingArgument ''bdf''), s)" for s
    by (simp add: repl_run_def arg_def run_andthen run_of_outcome)
  have "code = 1" "log w = [Report (MissingArgument ''bdf'')]"
    using run by (simp_all add: repl_main_def r) auto
  with run_releases_its_mappings [OF run] run show ?thesis by auto
qed

theorem completion_is_sound_witness:
  "\<exists>cs prior word rest. complete (helper_lbas example_map) (txt_of ''peek'' @ 32 # txt_of ''7'') 6 = Ok (5, cs) \<and>
     map fst cs = [txt_of ''7'', txt_of ''70''] \<and> txt_of ''peek'' @ 32 # txt_of ''7'' = prior @ word @ rest \<and>
     list_all (\<lambda>(d, r). prefix word d \<and> r = d @ [32]) cs"
proof -
  let ?before = "txt_of ''peek'' @ 32 # txt_of ''7''"
  have ws: "is_whitespace 32" "list_all (Not \<circ> is_whitespace) (txt_of ''7'')" by (simp_all add: is_whitespace_def)
  have "word_text (txt_of ''peek'')" by (simp add: word_text_def is_whitespace_def)
  then have peek: "split_whitespace (txt_of ''peek'' @ [32]) = [txt_of ''peek'']"
    using split_whitespace_word [of "txt_of ''peek''" "[32]"] ws(1) by (simp add: split_whitespace_space)
  have lbas: "helper_lbas example_map = [7, 70]" by (simp add: helper_lbas_def example_map_def)
  have "dec 7 = [55]" "dec 70 = [55, 48]" by (simp_all add: dec.simps)
  then have cs: "candidates [7, 70] [txt_of ''peek''] (txt_of ''7'') = map candidate [txt_of ''7'', txt_of ''70'']"
    by (simp add: candidates_def LBA_COMMANDS_def)
  have len: "length (as_bytes ?before) = 6" "length (as_bytes (txt_of ''peek'' @ [32])) = 5"
    by (simp_all add: utf8_char_def)
  have small: "(32 :: nat) < 0x80" by simp
  have run: "complete (helper_lbas example_map) ?before 6 = Ok (5, map candidate [txt_of ''7'', txt_of ''70''])"
    using complete_space [OF ws, of "[7, 70]" "txt_of ''peek''" "[]", unfolded len peek cs]
    by (simp only: append_Nil2 lbas small if_True)
  obtain prior word rest where "?before = prior @ word @ rest"
    "list_all (\<lambda>(d, r). prefix word d \<and> r = d @ [32]) (map candidate [txt_of ''7'', txt_of ''70''])"
    using completion_is_sound [OF run] by (elim exE conjE)
  then show ?thesis using run by (intro exI conjI) (assumption, simp add: candidate_def)
qed

theorem display_is_printable_witness:
  "length (ascii_line [27, 65]) = 2 \<and> list_all (\<lambda>c. 0x20 \<le> c) (ascii_line [27, 65]) \<and> ascii_char 65 = 65"
  using display_is_printable [of "[27, 65]"] by (auto simp: list_all_iff word_le_nat_alt)

theorem history_holds_what_was_typed_witness:
  "session_history still_device example_map (Some (txt_of ''/root'')) [Line (txt_of '' quit''), Line (txt_of ''list'')]
     (example_driver, empty_world ()) =
   [LoadHistory (txt_of ''/root/.nvmetoy_history''), AddHistoryEntry (txt_of ''quit''),
    SaveHistory (txt_of ''/root/.nvmetoy_history'')]"
proof -
  let ?inputs = "[Line (txt_of '' quit''), Line (txt_of ''list'')]" and ?s = "(example_driver, empty_world ())"
  have trim: "trim (txt_of '' quit'') = txt_of ''quit''" by (simp add: trim_def is_whitespace_def)
  have "word_text (txt_of ''quit'')" by (simp add: word_text_def is_whitespace_def)
  from split_whitespace_word [OF this, of "[]"] have words: "split_whitespace (txt_of ''quit'') = [txt_of ''quit'']"
    by simp
  have quits: "quits (txt_of ''quit'')" by (simp only: quits_def words simp_thms)
  then have "fst (run_repl_line still_device example_map (txt_of ''quit'') ?s) = Ok False" by (simp only: only_quit_ends)
  then obtain s' where "run_repl_line still_device example_map (txt_of ''quit'') ?s = (Ok False, s')"
    by (metis prod.collapse)
  then have run: "fst (repl_loop still_device example_map ?inputs ?s) = Ok ()"
    by (simp only: repl_loop.simps trim) simp
  have "typed ?inputs = [txt_of ''quit'']" by (simp only: typed.simps trim quits) simp
  then show ?thesis
    using history_holds_what_was_typed [of still_device example_map ?inputs ?s] run by (simp add: history_path_def)
qed

end
