(* ===== verification/Disk_Examples.thy ===== *)
theory Disk_Examples
  imports Disk_Commands Repl_Examples
begin

text \<open>
  A concrete controller that serves a disk: it fetches the announced entry, walks its data
  pointers, moves the data and posts the completion. It meets the contract of \<open>Storage\<close>, so the
  refinement applies to it.
\<close>

unbundle bit_operations_syntax

section \<open>The controller\<close>

fun scatter :: "nat list \<Rightarrow> u8 list \<Rightarrow> mem \<Rightarrow> mem" where
  "scatter [] bs m = m"
| "scatter (p # ps) bs m = scatter ps (drop 4096 bs) (store m p (take 4096 bs))"

definition disk_completion :: "nvm_namespace \<Rightarrow> nat \<Rightarrow> submission_queue_entry \<Rightarrow> completion_queue_entry" where
  "disk_completion ns n e =
     \<lparr>cqe_result = 0, cqe_reserved = 0, cqe_sq_head = 0, cqe_sq_id = 1, cqe_cid = sqe_cid e,
      cqe_status = (if even (n div 64) then 1 else 0) OR
        (if in_capacity ns (command_slba e) (command_blocks e) then 0 else 0x100)\<rparr>"

definition disk_serve ::
  "nvm_namespace \<Rightarrow> dma_region \<Rightarrow> submission_queue_entry \<Rightarrow> disk \<Rightarrow> mem \<Rightarrow> disk \<times> mem" where
  "disk_serve ns region e K m =
     (if \<not> in_capacity ns (command_slba e) (command_blocks e) then (K, m)
      else if sqe_opc e = 1 then (store K (disk_pos ns (command_slba e)) (transferred ns region m e), m)
      else (K, scatter (command_pages ns region m e)
        (load K (disk_pos ns (command_slba e)) (command_bytes ns e)) m))"

definition disk_controller ::
  "nvm_namespace \<Rightarrow> dma_region \<Rightarrow> usize \<Rightarrow> (nat \<times> nat \<times> disk) device" where
  "disk_controller ns region doorbell_register =
     \<lparr>dev_step = (\<lambda>(m, n, K) mem.
        if n < m then
          let e = sqe_of_bytes (load mem (0x2000 + 64 * (n mod 64)) 64);
              (K', mem') = disk_serve ns region e K mem
          in ((m, Suc n, K'), store mem' (0x3000 + 16 * (n mod 64)) (cqe_bytes (disk_completion ns n e)))
        else ((m, n, K), mem)),
      dev_read32 = (\<lambda>d _. (0, d)), dev_read64 = (\<lambda>d _. (0, d)),
      dev_write32 = (\<lambda>(m, n, K) reg v. if reg = doorbell_register then (Suc m, n, K) else (m, n, K)),
      dev_write64 = (\<lambda>d _ _. d)\<rparr>"

definition disk_idle :: "nat \<Rightarrow> disk \<Rightarrow> nat \<times> nat \<times> disk \<Rightarrow> mem \<Rightarrow> bool" where
  "disk_idle m K d mem \<longleftrightarrow> d = (m, m, K) \<and> ring_fresh 0x3000 mem m"

definition disk_busy ::
  "nvm_namespace \<Rightarrow> dma_region \<Rightarrow> nat \<Rightarrow> submission_queue_entry \<Rightarrow> nat \<Rightarrow> disk \<Rightarrow>
   nat \<times> nat \<times> disk \<Rightarrow> mem \<Rightarrow> bool" where
  "disk_busy ns region m e b K d mem \<longleftrightarrow> d = (Suc m, m, K) \<and> ring_fresh 0x3000 mem m \<and>
     e = sqe_of_bytes (load mem (0x2000 + 64 * (m mod 64)) 64) \<and> proper ns region mem e"

section \<open>It meets the contract\<close>

lemma store_nil [simp]: "store m a [] = m"
  by (rule ext) (auto simp: store_def)

lemma store_store_append:
  "store (store m a xs) (a + length xs) ys = store m a (xs @ ys)"
  by (rule ext) (auto simp: store_def nth_append)

lemma scatter_row:
  "length bs \<le> 4096 * k \<Longrightarrow> scatter (map (\<lambda>i. a + 4096 * i) [0..<k]) bs m = store m a bs"
proof (induction k arbitrary: a bs m)
  case 0
  then show ?case by (auto simp: store_def fun_eq_iff)
next
  case (Suc k)
  have row: "map (\<lambda>i. a + 4096 * i) [0..<Suc k] = a # map (\<lambda>i. (a + 4096) + 4096 * i) [0..<k]"
    by (simp add: upt_conv_Cons map_Suc_upt [symmetric] del: upt_Suc)
  have "scatter (map (\<lambda>i. (a + 4096) + 4096 * i) [0..<k]) (drop 4096 bs) (store m a (take 4096 bs)) =
      store (store m a (take 4096 bs)) (a + 4096) (drop 4096 bs)"
    using Suc.prems by (intro Suc.IH) simp
  also have "\<dots> = store m a bs"
  proof (cases "length bs \<le> 4096")
    case True
    then show ?thesis by (auto simp: store_def fun_eq_iff)
  next
    case False
    then show ?thesis using store_store_append [of m a "take 4096 bs" "drop 4096 bs"] by simp
  qed
  finally show ?case by (simp only: row scatter.simps)
qed

lemma disk_completion_fields:
  "phase (disk_completion ns n e) = even (n div 64)" "cqe_cid (disk_completion ns n e) = sqe_cid e"
  "is_success (disk_completion ns n e) = in_capacity ns (command_slba e) (command_blocks e)"
  by (simp_all add: disk_completion_def phase_def is_success_def status_code_def status_code_type_def)

lemma disk_serve_proper:
  assumes proper: "proper ns region m e" and serve: "disk_serve ns region e K m = (K', m')"
  shows "co \<le> 0x3000 \<Longrightarrow> ring_fresh co m n \<Longrightarrow> ring_fresh co m' n"
    and "\<not> may_change ns region m e i \<Longrightarrow> m' i = m i"
    and "cqe_cid c = sqe_cid e \<Longrightarrow> is_success c = in_capacity ns (command_slba e) (command_blocks e) \<Longrightarrow>
      performed ns region e K m K' (store m' (0x3000 + 16 * (n mod 64)) (cqe_bytes c)) c"
proof -
  let ?n = "command_bytes ns e" and ?r = "load K (disk_pos ns (command_slba e)) (command_bytes ns e)"
  have pages: "command_pages ns region m e = map (\<lambda>i. 0x5000 + 4096 * i) [0..<(?n + 4095) div 4096]"
    and le: "?n \<le> 0x1FB000" using proper by (simp_all add: proper_def)
  have "?n \<le> 4096 * ((?n + 4095) div 4096)" by simp
  then have "scatter (command_pages ns region m e) ?r m = store m 0x5000 ?r"
    unfolding pages by (intro scatter_row) simp
  then have m': "m' = (if in_capacity ns (command_slba e) (command_blocks e) \<and> sqe_opc e \<noteq> 1
      then store m 0x5000 ?r else m)"
    and K': "K' = (if in_capacity ns (command_slba e) (command_blocks e) \<and> sqe_opc e = 1
      then store K (disk_pos ns (command_slba e)) (transferred ns region m e) else K)"
    using serve by (auto simp: disk_serve_def split: if_splits)
  show "ring_fresh co m' n" if "co \<le> 0x3000" "ring_fresh co m n"
    using that by (simp add: m' ring_fresh_away)
  show "m' i = m i" if "\<not> may_change ns region m e i"
  proof (rule ccontr)
    assume "m' i \<noteq> m i"
    then have opc: "sqe_opc e \<noteq> 1" and i: "0x5000 \<le> i" "i < 0x5000 + ?n"
      by (auto simp: m' store_def split: if_splits)
    define j where "j = i - 0x5000"
    have j: "i = 0x5000 + j" "j < ?n" using i by (simp_all add: j_def)
    have "j div 4096 < (?n + 4095) div 4096" using j(2) by linarith
    moreover have "0x5000 + 4096 * (j div 4096) \<le> i \<and> i < 0x5000 + 4096 * (j div 4096) + 4096"
      using j(1) by simp
    ultimately have "\<exists>p \<in> set (command_pages ns region m e). p \<le> i \<and> i < p + 4096"
      unfolding pages by (intro bexI [of _ "0x5000 + 4096 * (j div 4096)"]) auto
    then show False using that opc proper by (simp add: may_change_def proper_def)
  qed
  let ?m = "store m' (0x3000 + 16 * (n mod 64)) (cqe_bytes c)"
  have slot: "0x3000 + 16 * (n mod 64) + 16 \<le> 0x3400" using mod_less_divisor [of 64 n] by linarith
  then have "proper ns region ?m e"
    by (intro proper_cong [OF proper]) (simp add: store_outside m')
  then have "transferred ns region ?m e = load ?m 0x5000 ?n" by (rule transferred_proper)
  also have "\<dots> = load m' 0x5000 ?n" using slot by (intro load_store_disjoint) simp
  finally have t: "transferred ns region ?m e = load m' 0x5000 ?n" .
  show "performed ns region e K m K' ?m c" if "cqe_cid c = sqe_cid e"
    "is_success c = in_capacity ns (command_slba e) (command_blocks e)"
    using that load_store_same [of m "0x5000" ?r] by (simp add: performed_def t) (simp add: m' K')
qed

lemma disk_controller_serves:
  assumes "doorbell_register = submission_doorbell 1 stride" "submission_doorbell 1 stride \<noteq> completion_doorbell 1 stride"
  shows "storage_controller (disk_controller ns region doorbell_register) ns region stride 0
    disk_idle (disk_busy ns region)"
proof -
  let ?D = "disk_controller ns region doorbell_register"
  have idle: "snd (dev_step ?D d mem) = mem \<and> disk_idle m K (fst (dev_step ?D d mem)) mem \<and>
      (\<forall>off bs. clear_of_rings off (length bs) \<longrightarrow> disk_idle m K d (store mem off bs)) \<and>
      (\<forall>v. disk_idle m K (dev_write32 ?D d (completion_doorbell 1 stride) v) mem) \<and>
      (let e = sqe_of_bytes (load mem (0x2000 + 64 * (m mod 64)) 64) in proper ns region mem e \<longrightarrow>
         disk_busy ns region m e 0 K
           (dev_write32 ?D d (submission_doorbell 1 stride) (of_nat (Suc m mod 64))) mem)"
    if "disk_idle m K d mem" for m K d mem
    using that assms
    by (auto simp: disk_idle_def disk_busy_def disk_controller_def clear_of_rings_def ring_fresh_away Let_def)
  have busy: "let (d', mem') = dev_step ?D d mem in
      (\<forall>i. \<not> may_change ns region mem e i \<longrightarrow> mem' i = mem i) \<and>
      (\<exists>K'. disk_idle (Suc m) K' d' mem' \<and> phase (slot_entry 0x3000 mem' m) = even (m div 64) \<and>
         performed ns region e K mem K' mem' (slot_entry 0x3000 mem' m))"
    if b: "disk_busy ns region m e b K d mem" for m e b K d mem
  proof -
    obtain K' m' where serve: "disk_serve ns region e K mem = (K', m')" by (metis prod.exhaust)
    have proper: "proper ns region mem e" and fresh: "ring_fresh 0x3000 mem m"
      and e: "e = sqe_of_bytes (load mem (0x2000 + 64 * (m mod 64)) 64)" and d: "d = (Suc m, m, K)"
      using b unfolding disk_busy_def by blast+
    let ?m = "store m' (0x3000 + 16 * (m mod 64)) (cqe_bytes (disk_completion ns m e))"
    have "dev_step ?D d mem = ((Suc m, Suc m, K'), ?m)"
      using serve by (simp add: disk_controller_def d e [symmetric] Let_def)
    moreover have "slot_entry 0x3000 ?m m = disk_completion ns m e" by (simp add: slot_entry_post)
    moreover have "?m i = mem i" if i: "\<not> may_change ns region mem e i" for i
    proof -
      have "m mod 64 < 64" by simp
      then have "?m i = m' i" using i by (intro store_outside) (auto simp: may_change_def)
      then show ?thesis using disk_serve_proper(2) [OF proper serve i] by simp
    qed
    moreover have "disk_idle (Suc m) K' (Suc m, Suc m, K') ?m"
      using ring_fresh_post [OF disk_serve_proper(1) [OF proper serve order_refl fresh]]
      by (simp add: disk_idle_def disk_completion_fields)
    moreover have "performed ns region e K mem K' ?m (disk_completion ns m e)"
      by (rule disk_serve_proper(3) [OF proper serve]) (simp_all add: disk_completion_fields)
    ultimately show ?thesis by (auto simp: disk_completion_fields)
  qed
  show ?thesis
    unfolding storage_controller_def queue_server_def nvm_commands_def command_set.simps
  proof (rule conjI, intro allI impI idle, assumption, intro allI impI)
    fix m e b K d mem assume "disk_busy ns region m e b K d mem"
    from busy [OF this] show "let (d', mem') = dev_step ?D d mem in
        (\<forall>i. \<not> may_change ns region mem e i \<longrightarrow> mem' i = mem i) \<and>
        ((\<exists>b' < b. disk_busy ns region m e b' K d' mem' \<and>
            phase (slot_entry 0x3000 mem' m) \<noteq> even (m div 64)) \<or>
         (\<exists>K'. disk_idle (Suc m) K' d' mem' \<and> phase (slot_entry 0x3000 mem' m) = even (m div 64) \<and>
            performed ns region e K mem K' mem' (slot_entry 0x3000 mem' m)))"
      unfolding Let_def by (cases "dev_step ?D d mem") (simp only: prod.case, blast)
  qed
qed

section \<open>A command on it\<close>

definition example_namespace :: nvm_namespace where
  "example_namespace = \<lparr>ns_id = 1, ns_block_size = 512, ns_capacity = 100\<rparr>"

abbreviation example_disk :: "(nat \<times> nat \<times> disk) device" where
  "example_disk \<equiv> disk_controller example_namespace example_region (submission_doorbell 1 (cap_stride 0))"

lemma example_attached:
  "attached example_disk example_namespace 0 disk_idle (disk_busy example_namespace example_region) K
     (example_driver, empty_world (0, 0, K))"
proof -
  have "cap_stride 0 \<noteq> 0" using example_cap_stride by auto
  then have "submission_doorbell 1 (cap_stride 0) \<noteq> completion_doorbell 1 (cap_stride 0)"
    by (simp add: submission_doorbell_def completion_doorbell_def)
  then have "storage_controller example_disk example_namespace example_region (cap_stride 0) 0 disk_idle
      (disk_busy example_namespace example_region)" by (intro disk_controller_serves refl)
  then have "set_up example_disk example_namespace 0 disk_idle (disk_busy example_namespace example_region)
      example_driver"
    by (simp add: set_up_def example_driver_ok) (simp add: example_namespace_def)
  moreover have "disk_idle 0 K (0, 0, K) (\<lambda>_. 0)"
    by (simp add: disk_idle_def ring_fresh_def slot_entry_zeros)
  ultimately show ?thesis
    by (auto simp: attached_def at_counts_new empty_world_def intro!: exI [of _ 0])
qed

lemma load_const: "load (\<lambda>_. c) off n = replicate n c"
  by (simp add: load_def map_replicate_const)

theorem poke_patches_the_disk_witness:
  "\<exists>s'. poke example_disk example_map 8 3 (txt_of ''hi'') (example_driver, empty_world (0, 0, \<lambda>_. 7)) = (Ok (), s') \<and>
     attached example_disk example_namespace 0 disk_idle (disk_busy example_namespace example_region)
       (store (\<lambda>_. 7) 4099 [104, 105]) s'"
proof -
  have "\<exists>s'. poke example_disk example_map 8 3 (txt_of ''hi'') (example_driver, empty_world (0, 0, \<lambda>_. 7)) = (Ok (), s') \<and>
     attached example_disk example_namespace 0 disk_idle (disk_busy example_namespace example_region)
       (store (\<lambda>_. 7) (disk_pos example_namespace 8 + unat (3 :: u64)) (as_bytes (txt_of ''hi''))) s'"
    by (rule poke_patches_the_disk [OF example_attached])
      (simp_all add: example_map_def example_namespace_def in_capacity_def utf8_char_def
        example_owned [unfolded example_map_def])
  then show ?thesis by (simp add: disk_pos_def example_namespace_def utf8_char_def)
qed

end
