(* ===== verification/Bring_Up.thy ===== *)
theory Bring_Up
  imports Queue_Server Driver_Open
begin

text \<open>
  What \<open>open\<close> relies on from a controller that follows the NVMe specification while it is brought up:
  the enable handshake of CC and CSTS, and an admin queue that serves Identify and the creation of
  one pair of I/O queues. On such a controller the bring-up succeeds, step by step.
\<close>

unbundle bit_operations_syntax

section \<open>The enable handshake\<close>

text \<open>
  The phases of a controller before its admin queue runs: as it was found, resetting (RDY falls
  within that many more reads of CSTS), disabled (with what AQA, ASQ and ACQ were given since), and
  starting (RDY rises within that many more reads).
\<close>

datatype boot_phase = Found | Stopping nat | Stopped "u32 option" "u64 option" "u64 option" | Starting nat

text \<open>
  The documented behaviour. In every phase the memory is left alone. CAP reads \<open>cap\<close>. Clearing
  CC.EN resets; while disabled the queue registers can be set; once AQA says 64 entries for both
  queues, and ASQ and ACQ hold the addresses of the first two pages of the region at \<open>base\<close>, writing
  CC with EN set and entry sizes 6 and 4 starts the controller. When it shows RDY, and the completion
  rings are zero, its admin queue is idle with no command served, in the state \<open>X0\<close>.
\<close>

definition rings_zero :: "mem \<Rightarrow> bool" where
  "rings_zero m \<longleftrightarrow> (\<forall>i. 0x1000 \<le> i \<and> i < 0x1400 \<or> 0x3000 \<le> i \<and> i < 0x3400 \<longrightarrow> m i = 0)"

definition boots ::
  "'d device \<Rightarrow> u64 \<Rightarrow> u64 \<Rightarrow> nat \<Rightarrow> (boot_phase \<Rightarrow> 'd \<Rightarrow> bool) \<Rightarrow> (nat \<Rightarrow> 'x \<Rightarrow> 'd \<Rightarrow> mem \<Rightarrow> bool) \<Rightarrow> 'x \<Rightarrow> bool" where
  "boots D base cap rounds booting idle X0 \<longleftrightarrow>
     (\<forall>ph d mem. booting ph d \<longrightarrow> snd (dev_step D d mem) = mem \<and> booting ph (fst (dev_step D d mem))) \<and>
     (\<forall>d v. booting Found d \<longrightarrow> fst (dev_read64 D d CAP) = cap \<and> booting Found (snd (dev_read64 D d CAP)) \<and>
        booting Found (snd (dev_read32 D d CC)) \<and>
        (v AND 1 = 0 \<longrightarrow> booting (Stopping rounds) (dev_write32 D d CC v))) \<and>
     (\<forall>k d. booting (Stopping k) d \<longrightarrow> (let (v, d') = dev_read32 D d CSTS in v AND 2 = 0 \<and>
        (if v AND 1 = 0 then booting (Stopped None None None) d' else \<exists>j<k. booting (Stopping j) d'))) \<and>
     (\<forall>a s c d v u. booting (Stopped a s c) d \<longrightarrow> booting (Stopped (Some v) s c) (dev_write32 D d AQA v) \<and>
        booting (Stopped a (Some u) c) (dev_write64 D d ASQ u) \<and>
        booting (Stopped a s (Some u)) (dev_write64 D d ACQ u)) \<and>
     (\<forall>d. booting (Stopped (Some 0x3F003F) (Some base) (Some (base + 0x1000))) d \<longrightarrow>
        booting (Starting rounds) (dev_write32 D d CC 0x460001)) \<and>
     (\<forall>k d. booting (Starting k) d \<longrightarrow> (let (v, d') = dev_read32 D d CSTS in v AND 2 = 0 \<and>
        (if v AND 1 \<noteq> 0 then \<forall>mem. rings_zero mem \<longrightarrow> idle 0 X0 d' mem
         else \<exists>j<k. booting (Starting j) d')))"

lemma bootsD:
  assumes "boots D base cap rounds booting idle X0"
  shows "booting ph d \<Longrightarrow> snd (dev_step D d mem) = mem" "booting ph d \<Longrightarrow> booting ph (fst (dev_step D d mem))"
    "booting Found d \<Longrightarrow> fst (dev_read64 D d CAP) = cap" "booting Found d \<Longrightarrow> booting Found (snd (dev_read64 D d CAP))"
    "booting Found d \<Longrightarrow> booting Found (snd (dev_read32 D d CC))"
    "booting Found d \<Longrightarrow> v AND 1 = 0 \<Longrightarrow> booting (Stopping rounds) (dev_write32 D d CC v)"
    "booting (Stopping k) d \<Longrightarrow> fst (dev_read32 D d CSTS) AND 2 = 0"
    "booting (Stopping k) d \<Longrightarrow> fst (dev_read32 D d CSTS) AND 1 = 0 \<Longrightarrow>
      booting (Stopped None None None) (snd (dev_read32 D d CSTS))"
    "booting (Stopping k) d \<Longrightarrow> fst (dev_read32 D d CSTS) AND 1 \<noteq> 0 \<Longrightarrow>
      \<exists>j<k. booting (Stopping j) (snd (dev_read32 D d CSTS))"
    "booting (Stopped a s c) d \<Longrightarrow> booting (Stopped (Some x) s c) (dev_write32 D d AQA x)"
    "booting (Stopped a s c) d \<Longrightarrow> booting (Stopped a (Some u) c) (dev_write64 D d ASQ u)"
    "booting (Stopped a s c) d \<Longrightarrow> booting (Stopped a s (Some u)) (dev_write64 D d ACQ u)"
    "booting (Stopped (Some 0x3F003F) (Some base) (Some (base + 0x1000))) d \<Longrightarrow>
      booting (Starting rounds) (dev_write32 D d CC 0x460001)"
    "booting (Starting k) d \<Longrightarrow> fst (dev_read32 D d CSTS) AND 2 = 0"
    "booting (Starting k) d \<Longrightarrow> fst (dev_read32 D d CSTS) AND 1 \<noteq> 0 \<Longrightarrow>
      rings_zero mem \<Longrightarrow> idle 0 X0 (snd (dev_read32 D d CSTS)) mem"
    "booting (Starting k) d \<Longrightarrow> fst (dev_read32 D d CSTS) AND 1 = 0 \<Longrightarrow>
      \<exists>j<k. booting (Starting j) (snd (dev_read32 D d CSTS))"
  using assms unfolding boots_def Let_def case_prod_unfold by meson+

text \<open>A step of the controller in some phase.\<close>

lemma step_booting:
  assumes "boots D base cap rounds booting idle X0" and "booting ph (dev w)"
  shows "dma (step_device D w) = dma w" "booting ph (dev (step_device D w))"
  using bootsD(1,2) [OF assms] by (simp_all add: step_device_def case_prod_unfold Let_def)

section \<open>Waiting\<close>

text \<open>Waiting for RDY to fall, and to rise, within a budget of reads.\<close>

lemma wait_falls:
  assumes ctl: "boots D base cap rounds booting idle X0" and reg: "reg_ok 4 bar CSTS"
  shows "booting (Stopping k) (dev w) \<Longrightarrow> k < n \<Longrightarrow>
    \<exists>w'. wait_ready_polls D bar False n w = (Ok (), w') \<and> booting (Stopped None None None) (dev w') \<and> dma w' = dma w"
proof (induction k arbitrary: n w rule: less_induct)
  case (less k)
  obtain n' where n: "n = Suc n'" using less.prems(2) by (cases n) auto
  note s = step_booting [OF ctl less.prems(1)]
  let ?v = "status_seen D w" and ?d = "snd (dev_read32 D (dev (step_device D w)) CSTS)"
  have fatal: "?v AND 2 = 0" using bootsD(7) [OF ctl s(2)] by (simp add: status_seen_def)
  show ?case
  proof (cases "?v AND 1 = 0")
    case True
    then show ?thesis
      using bootsD(8) [OF ctl s(2)] fatal s(1)
      by (simp add: n wait_round [OF reg] decides_def status_read_def status_seen_def del: wait_ready_polls.simps)
  next
    case False
    then obtain j where j: "j < k" "booting (Stopping j) ?d"
      using bootsD(9) [OF ctl s(2)] by (auto simp: status_seen_def)
    have "\<exists>w'. wait_ready_polls D bar False n' (ready_round D w) = (Ok (), w') \<and>
        booting (Stopped None None None) (dev w') \<and> dma w' = dma (ready_round D w)"
      using less.IH [OF j(1), of "ready_round D w" n'] j less.prems(2) n
      by (simp add: ready_round_def status_read_def)
    moreover have "dma (ready_round D w) = dma w" using s(1) by (simp add: ready_round_def status_read_def)
    ultimately show ?thesis
      using False fatal by (simp add: n wait_round [OF reg] decides_def del: wait_ready_polls.simps)
  qed
qed

lemma wait_rises:
  assumes ctl: "boots D base cap rounds booting idle X0" and reg: "reg_ok 4 bar CSTS"
  shows "booting (Starting k) (dev w) \<Longrightarrow> k < n \<Longrightarrow> rings_zero (dma w) \<Longrightarrow>
    \<exists>w'. wait_ready_polls D bar True n w = (Ok (), w') \<and> idle 0 X0 (dev w') (dma w') \<and> dma w' = dma w"
proof (induction k arbitrary: n w rule: less_induct)
  case (less k)
  obtain n' where n: "n = Suc n'" using less.prems(2) by (cases n) auto
  note s = step_booting [OF ctl less.prems(1)]
  let ?v = "status_seen D w" and ?d = "snd (dev_read32 D (dev (step_device D w)) CSTS)"
  have fatal: "?v AND 2 = 0" using bootsD(14) [OF ctl s(2)] by (simp add: status_seen_def)
  show ?case
  proof (cases "?v AND 1 = 0")
    case False
    then have "idle 0 X0 ?d (dma w)"
      using bootsD(15) [OF ctl s(2)] less.prems(3) by (simp add: status_seen_def)
    then show ?thesis
      using False fatal s(1) by (simp add: n wait_round [OF reg] decides_def status_read_def del: wait_ready_polls.simps)
  next
    case True
    then obtain j where j: "j < k" "booting (Starting j) ?d"
      using bootsD(16) [OF ctl s(2)] by (auto simp: status_seen_def)
    have round: "dma (ready_round D w) = dma w" "dev (ready_round D w) = ?d"
      using s(1) by (simp_all add: ready_round_def status_read_def)
    have "\<exists>w'. wait_ready_polls D bar True n' (ready_round D w) = (Ok (), w') \<and>
        idle 0 X0 (dev w') (dma w') \<and> dma w' = dma (ready_round D w)"
      using less.IH [OF j(1), of "ready_round D w" n'] j less.prems(2,3) n by (simp add: round)
    then show ?thesis
      using True fatal by (simp add: n wait_round [OF reg] decides_def round del: wait_ready_polls.simps)
  qed
qed

text \<open>Reset and enable, from the controller as it was found to an idle admin queue.\<close>

lemma reset_succeeds:
  assumes ctl: "boots D (physical_address (drv_dma dr)) cap rounds booting idle X0" and "rounds < 1000"
    and hw: "hardware_ok (drv_bar dr) (drv_dma dr) (doorbell_stride dr)"
    and found: "booting Found (dev w)" and zero: "rings_zero (dma w)"
  obtains w' where "reset_and_enable D dr w = (Ok (), w')" "idle 0 X0 (dev w') (dma w')" "dma w' = dma w"
proof -
  note regs = config_registers [OF hw]
  let ?bar = "drv_bar dr" and ?base = "physical_address (drv_dma dr)"
  have clear: "(x AND NOT 1) AND 1 = 0" for x :: u32 by (simp add: and.assoc)
  obtain cc w1 where 1: "read_configuration D ?bar w = (Ok cc, w1)" "booting Found (dev w1)" "dma w1 = dma w"
    using step_booting [OF ctl found] bootsD(5) [OF ctl]
    by (simp add: read_configuration_def reg32.rd_allowed [OF regs(1)])
  obtain w2 where 2: "write_configuration D ?bar (cc AND NOT 1) w1 = (Ok (), w2)"
      "booting (Stopping rounds) (dev w2)" "dma w2 = dma w"
    using step_booting [OF ctl 1(2)] bootsD(6) [OF ctl _ clear] 1(3)
    by (simp add: write_configuration_def reg32.wr_allowed [OF regs(1)])
  obtain w3 where 3: "wait_ready D ?bar False w2 = (Ok (), w3)" "booting (Stopped None None None) (dev w3)"
      "dma w3 = dma w"
    using wait_falls [OF ctl regs(2) 2(2) \<open>rounds < 1000\<close>] 2(3) by (auto simp: wait_ready_def)
  let ?aqa = "0x3F003F :: u32"
  obtain w4 where 4: "write_admin_queue_attributes D ?bar ?aqa w3 = (Ok (), w4)"
      "booting (Stopped (Some ?aqa) None None) (dev w4)" "dma w4 = dma w"
    using step_booting [OF ctl 3(2)] bootsD(10) [OF ctl] 3(3)
    by (simp add: write_admin_queue_attributes_def reg32.wr_allowed [OF regs(3)])
  obtain w5 where 5: "write_admin_submission_queue D ?bar (admin_submission_queue_physical_address dr) w4 = (Ok (), w5)"
      "booting (Stopped (Some ?aqa) (Some ?base) None) (dev w5)" "dma w5 = dma w"
    using step_booting [OF ctl 4(2)] bootsD(11) [OF ctl] 4(3)
    by (simp add: write_admin_submission_queue_def reg64.wr_allowed [OF regs(4)]
        admin_submission_queue_physical_address_def physical_address_at_def ADMIN_SUBMISSION_QUEUE_OFFSET_def)
  obtain w6 where 6: "write_admin_completion_queue D ?bar (admin_completion_queue_physical_address dr) w5 = (Ok (), w6)"
      "booting (Stopped (Some ?aqa) (Some ?base) (Some (?base + 0x1000))) (dev w6)" "dma w6 = dma w"
    using step_booting [OF ctl 5(2)] bootsD(12) [OF ctl] 5(3)
    by (simp add: write_admin_completion_queue_def reg64.wr_allowed [OF regs(5)]
        admin_completion_queue_physical_address_def physical_address_at_def ADMIN_COMPLETION_QUEUE_OFFSET_def)
  obtain w7 where 7: "write_configuration D ?bar 0x460001 w6 = (Ok (), w7)"
      "booting (Starting rounds) (dev w7)" "dma w7 = dma w"
    using step_booting [OF ctl 6(2)] bootsD(13) [OF ctl] 6(3)
    by (simp add: write_configuration_def reg32.wr_allowed [OF regs(1)])
  obtain w8 where 8: "wait_ready D ?bar True w7 = (Ok (), w8)" "idle 0 X0 (dev w8) (dma w8)" "dma w8 = dma w"
    using wait_rises [OF ctl regs(2) 7(2) \<open>rounds < 1000\<close>] 7(3) zero by (auto simp: wait_ready_def)
  have vals: "push_bit 16 (ucast QUEUE_DEPTH - 1) OR (ucast QUEUE_DEPTH - 1) = ?aqa"
    "push_bit 20 IO_COMPLETION_ENTRY_SIZE_EXPONENT OR push_bit 16 IO_SUBMISSION_ENTRY_SIZE_EXPONENT OR 1
      = (0x460001 :: u32)"
    by (simp_all add: QUEUE_DEPTH_def IO_COMPLETION_ENTRY_SIZE_EXPONENT_def IO_SUBMISSION_ENTRY_SIZE_EXPONENT_def)
  have "reset_and_enable D dr w = (Ok (), w8)"
    unfolding reset_and_enable_def Let_def vals
    by (simp only: run_andthen 1 2 3 4 5 6 7 8 fst_conv snd_conv outcome.case)
  then show thesis using 8 by (intro that)
qed

section \<open>The admin queue\<close>

text \<open>
  The state of a controller that was enabled: whether the I/O completion and submission queue were
  created, and its disk.
\<close>

record 'k enabled =
  cq_made :: bool
  sq_made :: bool
  medium :: 'k

definition queues_made :: "'k \<Rightarrow> 'k enabled" where
  "queues_made K = \<lparr>cq_made = True, sq_made = True, medium = K\<rparr>"

definition no_queues :: "'k \<Rightarrow> 'k enabled" where
  "no_queues K = \<lparr>cq_made = False, sq_made = False, medium = K\<rparr>"

text \<open>The data page an Identify command names, as an offset into the region at \<open>base\<close>.\<close>

definition identify_page :: "u64 \<Rightarrow> submission_queue_entry \<Rightarrow> nat" where
  "identify_page base e = unat (sqe_prp1 e - base)"

text \<open>
  What the controller is asked to carry out: Identify of a namespace or of the controller into one
  page behind the PRP page; first the creation of completion queue 1, with 64 entries at the fourth
  page of the region, physically contiguous, without interrupts; then that of submission queue 1,
  with 64 entries at the third page, which posts to completion queue 1.
\<close>

definition admin_accepts :: "u64 \<Rightarrow> 'k enabled \<Rightarrow> mem \<Rightarrow> submission_queue_entry \<Rightarrow> bool" where
  "admin_accepts base X m e \<longleftrightarrow>
     (sqe_opc e = 6 \<and> 0x5000 \<le> identify_page base e \<and> identify_page base e + 4096 \<le> 0x200000 \<and>
        identify_page base e mod 4096 = 0 \<and> (sqe_cdw10 e = 0 \<or> sqe_cdw10 e = 1)) \<or>
     (sqe_opc e = 5 \<and> \<not> cq_made X \<and> sqe_prp1 e = base + 0x3000 \<and>
        low16 (sqe_cdw10 e) = 1 \<and> high16 (sqe_cdw10 e) = 63 \<and> sqe_cdw11 e = 1) \<or>
     (sqe_opc e = 1 \<and> cq_made X \<and> \<not> sq_made X \<and> sqe_prp1 e = base + 0x2000 \<and>
        low16 (sqe_cdw10 e) = 1 \<and> high16 (sqe_cdw10 e) = 63 \<and>
        low16 (sqe_cdw11 e) = 1 \<and> high16 (sqe_cdw11 e) = 1)"

definition admin_touches :: "u64 \<Rightarrow> mem \<Rightarrow> submission_queue_entry \<Rightarrow> nat \<Rightarrow> bool" where
  "admin_touches base m e i \<longleftrightarrow> (0x1000 \<le> i \<and> i < 0x1400) \<or>
     (sqe_opc e = 6 \<and> identify_page base e \<le> i \<and> i < identify_page base e + 4096)"

text \<open>
  A creation succeeds and is remembered. Identify leaves the structure of the controller (\<open>idc\<close>) in its
  page, or that of the namespace (\<open>idn n\<close>), or fails when there is no such namespace. The disk stays.
\<close>

definition identified :: "u8 list \<Rightarrow> (u32 \<Rightarrow> u8 list option) \<Rightarrow> bool \<Rightarrow> u32 \<Rightarrow> u8 list option" where
  "identified idc idn of_controller nsid = (if of_controller then Some idc else idn nsid)"

definition admin_performs ::
  "u64 \<Rightarrow> u8 list \<Rightarrow> (u32 \<Rightarrow> u8 list option) \<Rightarrow> submission_queue_entry \<Rightarrow> 'k enabled \<Rightarrow> mem \<Rightarrow> 'k enabled \<Rightarrow>
   mem \<Rightarrow> completion_queue_entry \<Rightarrow> bool" where
  "admin_performs base idc idn e X m X' m' c \<longleftrightarrow> cqe_cid c = sqe_cid e \<and>
     (if sqe_opc e = 6 then X' = X \<and> (case identified idc idn (sqe_cdw10 e = 1) (sqe_nsid e) of
          None \<Rightarrow> \<not> is_success c
        | Some data \<Rightarrow> is_success c \<and> load m' (identify_page base e) 4096 = data)
      else is_success c \<and> X' = (if sqe_opc e = 5 then X\<lparr>cq_made := True\<rparr> else X\<lparr>sq_made := True\<rparr>))"

definition admin_commands :: "u64 \<Rightarrow> u8 list \<Rightarrow> (u32 \<Rightarrow> u8 list option) \<Rightarrow> 'k enabled command_set" where
  "admin_commands base idc idn =
     \<lparr>accepts = admin_accepts base, touches = admin_touches base, performs = admin_performs base idc idn\<rparr>"

text \<open>What a completion says does not depend on the memory before the command.\<close>

interpretation admin: served_commands "admin_commands base idc idn" 0 "admin_performs base idc idn" for base idc idn
  by unfold_locales (simp_all add: admin_commands_def admin_accepts_def admin_performs_def)

definition admin_server ::
  "'d device \<Rightarrow> u64 \<Rightarrow> usize \<Rightarrow> nat \<Rightarrow> u8 list \<Rightarrow> (u32 \<Rightarrow> u8 list option) \<Rightarrow>
   (nat \<Rightarrow> 'k enabled \<Rightarrow> 'd \<Rightarrow> mem \<Rightarrow> bool) \<Rightarrow>
   (nat \<Rightarrow> submission_queue_entry \<Rightarrow> nat \<Rightarrow> 'k enabled \<Rightarrow> 'd \<Rightarrow> mem \<Rightarrow> bool) \<Rightarrow> bool" where
  "admin_server D base stride latency idc idn idle busy =
     queue_server (admin_commands base idc idn) D 0 0 0x1000 stride latency idle busy"

section \<open>Admin commands of the driver\<close>

definition admin_ready ::
  "(nat \<Rightarrow> 'k enabled \<Rightarrow> 'd \<Rightarrow> mem \<Rightarrow> bool) \<Rightarrow> u64 \<Rightarrow> nat \<Rightarrow> 'k enabled \<Rightarrow> driver \<Rightarrow> 'd world \<Rightarrow> bool" where
  "admin_ready idle base m X dr w \<longleftrightarrow> driver_ok dr \<and> physical_address (drv_dma dr) = base \<and>
     at_counts (admin_queue dr) m m \<and> idle m X (dev w) (dma w)"

lemma admin_ready_log [simp]: "admin_ready idle base m X dr (w\<lparr>log := l\<rparr>) = admin_ready idle base m X dr w"
  by (simp add: admin_ready_def)

lemma admin_carried_out:
  assumes ctl: "admin_server D base (doorbell_stride dr) latency idc idn idle busy" and "latency \<le> 200000"
    and ready: "admin_ready idle base m X dr w"
    and acc: "\<And>cid. admin_accepts base X (dma w) (command\<lparr>sqe_cid := cid\<rparr>)"
  obtains c q w' X' e where "admin_submit D command (dr, w) = (Ok c, (dr\<lparr>admin_queue := q\<rparr>, w'))"
    "admin_ready idle base (Suc m) X' (dr\<lparr>admin_queue := q\<rparr>) w'"
    "e = command\<lparr>sqe_cid := next_cid (admin_queue dr)\<rparr>" "admin_performs base idc idn e X (dma w) X' (dma w') c"
proof -
  have ok: "driver_ok dr" and at: "at_counts (admin_queue dr) m m" and idle: "idle m X (dev w) (dma w)"
    using ready by (simp_all add: admin_ready_def)
  have q: "queue_id (admin_queue dr) = 0" "unat (submission_offset (admin_queue dr)) = 0"
    "unat (completion_offset (admin_queue dr)) = 0x1000"
    using ok by (simp_all add: driver_ok_def queue_at_def)
  let ?e = "command\<lparr>sqe_cid := next_cid (admin_queue dr)\<rparr>"
  obtain c q' w' X' where run: "submit_and_wait D (drv_bar dr) (drv_dma dr) (doorbell_stride dr) command
      (admin_queue dr, w) = (Ok c, (q', w'))" "at_counts q' (Suc m) (Suc m)" "idle (Suc m) X' (dev w') (dma w')"
    and res: "admin_performs base idc idn ?e X (dma w) X' (dma w') c"
    by (rule admin.submit_served [OF ctl [unfolded admin_server_def] assms(2) driver_ok_queues(1) [OF ok] at q _ idle,
        of command]) (use acc in \<open>simp_all add: admin_commands_def clear_of_rings_def\<close>)
  have eq: "admin_submit D command (dr, w) = (Ok c, (dr\<lparr>admin_queue := q'\<rparr>, w'))"
    by (simp add: admin_submit_def run(1))
  have "driver_ok (fst (snd (admin_submit D command (dr, w))))"
    using safeD(1) [OF admin_submit_safe, of dr "(dr, w)"] driver_at_self [OF ok] driver_atD(5) by fastforce
  then have "admin_ready idle base (Suc m) X' (dr\<lparr>admin_queue := q'\<rparr>) w'"
    using ready run(2,3) by (simp add: admin_ready_def eq)
  then show thesis by (rule that [OF eq _ refl res])
qed

text \<open>Identify returns the structure that was asked for, or an error when there is none.\<close>

lemma first_data_page: "unat (data_page_physical_address dr 0 - physical_address (drv_dma dr)) = 0x5000"
  by (simp add: data_page_physical_address_def physical_address_at_def DATA_OFFSET_def)

lemma identify_served:
  assumes ctl: "admin_server D base (doorbell_stride dr) latency idc idn idle busy" and "latency \<le> 200000"
    and ready: "admin_ready idle base m X dr w" and s: "structure = IdController \<or> structure = IdNamespace"
  obtains r q w' where "identify D structure nsid (dr, w) = (r, (dr\<lparr>admin_queue := q\<rparr>, w'))"
    "answer r = identified idc idn (structure = IdController) nsid"
    "admin_ready idle base (Suc m) X (dr\<lparr>admin_queue := q\<rparr>) w'"
proof -
  let ?c = "nvme_identify structure nsid (data_page_physical_address dr 0)"
  let ?id = "identified idc idn (structure = IdController) nsid"
  have base: "base = physical_address (drv_dma dr)" using ready by (simp add: admin_ready_def)
  have fields: "sqe_opc (?c\<lparr>sqe_cid := cid\<rparr>) = 6" "identify_page base (?c\<lparr>sqe_cid := cid\<rparr>) = 0x5000"
    "sqe_cdw10 (?c\<lparr>sqe_cid := cid\<rparr>) = (if structure = IdController then 1 else 0)"
    "sqe_nsid (?c\<lparr>sqe_cid := cid\<rparr>) = nsid" for cid
    using s by (auto simp: nvme_identify_def admin_opcode_u8_def identify_page_def base first_data_page
        identify_structure_u8_def)
  have acc: "admin_accepts base X (dma w) (?c\<lparr>sqe_cid := cid\<rparr>)" for cid
    by (simp only: admin_accepts_def fields) simp
  obtain c q w1 X' e where run: "admin_submit D ?c (dr, w) = (Ok c, (dr\<lparr>admin_queue := q\<rparr>, w1))"
      "admin_ready idle base (Suc m) X' (dr\<lparr>admin_queue := q\<rparr>) w1" "e = ?c\<lparr>sqe_cid := next_cid (admin_queue dr)\<rparr>"
      "admin_performs base idc idn e X (dma w) X' (dma w1) c"
    using admin_carried_out [OF ctl assms(2) ready acc] by metis
  have kind: "((if structure = IdController then 1 else 0 :: u32) = 1) = (structure = IdController)" by simp
  have res: "X' = X" "case ?id of None \<Rightarrow> \<not> is_success c | Some data \<Rightarrow> is_success c \<and> load (dma w1) 0x5000 4096 = data"
    using run(4) by (simp_all only: admin_performs_def run(3) fields kind if_True simp_thms)
  have idle: "idle (Suc m) X (dev w1) (dma w1)" using run(2) res(1) by (simp add: admin_ready_def)
  note still = step_idle [OF ctl [unfolded admin_server_def], OF idle]
  have ready': "admin_ready idle base (Suc m) X (dr\<lparr>admin_queue := q\<rparr>) w1"
    "admin_ready idle base (Suc m) X (dr\<lparr>admin_queue := q\<rparr>) (step_device D w1)"
    using run(2) still res(1) by (simp_all add: admin_ready_def)
  show thesis
  proof (cases ?id)
    case None
    then have "identify D structure nsid (dr, w) = (Err (CommandFailed ''Identify'' (status_code_type c)
        (status_code c)), (dr\<lparr>admin_queue := q\<rparr>, w1))"
      using res(2) by (simp add: identify_def run_simps run(1) check_def)
    then show thesis by (rule that) (simp_all add: None ready'(1))
  next
    case (Some data)
    have "dma_length (drv_dma dr) = HUGE_PAGE_SIZE"
      using ready by (simp add: admin_ready_def driver_ok_def hardware_ok_def)
    then have "check_bytes (drv_dma dr) DATA_OFFSET 4096 = Ok ()"
      by (simp add: check_bytes_Ok DATA_OFFSET_def HUGE_PAGE_SIZE_def)
    then have "identify D structure nsid (dr, w) = (Ok data, (dr\<lparr>admin_queue := q\<rparr>, step_device D w1))"
      using res(2) Some by (simp add: identify_def run_simps run(1) check_def read_bytes_def DATA_OFFSET_def still)
    then show thesis by (rule that) (simp_all add: Some ready'(2))
  qed
qed

lemma identify_controller_served:
  assumes "admin_server D base (doorbell_stride dr) latency idc idn idle busy" and "latency \<le> 200000"
    and "admin_ready idle base m X dr w"
  obtains q w' where "identify D IdController 0 (dr, w) = (Ok idc, (dr\<lparr>admin_queue := q\<rparr>, w'))"
    "admin_ready idle base (Suc m) X (dr\<lparr>admin_queue := q\<rparr>) w'"
  by (rule identify_served [OF assms, of IdController 0]) (auto simp: identified_def answer_Some intro: that)

end
