(* ===== verification/Machine_Runs.thy ===== *)
theory Machine_Runs
  imports Repl
begin

text \<open>
  The programs as a transition system. A run of the machine interleaves steps of the controller
  with accesses of the CPU, each labelled with the event it leaves; every program of the model
  moves the machine by such a run. An invariant of the steps is then an invariant of the programs.
\<close>

unbundle bit_operations_syntax

section \<open>Steps and runs\<close>

text \<open>Events that neither the region nor the registers see.\<close>

definition silent :: "event \<Rightarrow> bool" where
  "silent e = (case e of DmaStore off bs \<Rightarrow> False | RegWrite32 reg v \<Rightarrow> False
     | RegWrite64 reg v \<Rightarrow> False | _ \<Rightarrow> True)"

inductive machine_step :: "'d device \<Rightarrow> 'd world \<Rightarrow> event list \<Rightarrow> 'd world \<Rightarrow> bool" for D where
  controller: "machine_step D w [] (step_device D w)"
| loading32: "machine_step D w [] (w\<lparr>dev := snd (dev_read32 D (dev w) reg)\<rparr>)"
| loading64: "machine_step D w [] (w\<lparr>dev := snd (dev_read64 D (dev w) reg)\<rparr>)"
| storing: "machine_step D w [DmaStore off bs]
    (w\<lparr>dma := store (dma w) off bs, log := log w @ [DmaStore off bs]\<rparr>)"
| writing32: "machine_step D w [RegWrite32 reg v]
    (w\<lparr>dev := dev_write32 D (dev w) reg v, log := log w @ [RegWrite32 reg v]\<rparr>)"
| writing64: "machine_step D w [RegWrite64 reg u]
    (w\<lparr>dev := dev_write64 D (dev w) reg u, log := log w @ [RegWrite64 reg u]\<rparr>)"
| marking: "silent e \<Longrightarrow> machine_step D w [e] (w\<lparr>log := log w @ [e]\<rparr>)"

inductive machine_run :: "'d device \<Rightarrow> 'd world \<Rightarrow> event list \<Rightarrow> 'd world \<Rightarrow> bool" for D where
  at_rest: "machine_run D w [] w"
| moved: "machine_run D w es w' \<Longrightarrow> machine_step D w' fs w'' \<Longrightarrow> machine_run D w (es @ fs) w''"

lemma machine_run_append:
  assumes "machine_run D w' fs w''" and "machine_run D w es w'"
  shows "machine_run D w (es @ fs) w''"
  using assms
proof induction
  case (moved v fs v' gs v'')
  then show ?case using machine_run.moved [of D w "es @ fs" v' gs v''] by simp
qed simp

lemma machine_run_step: "machine_step D w es w' \<Longrightarrow> machine_run D w es w'"
  using machine_run.moved [OF machine_run.at_rest] by fastforce

lemma machine_step_log: "machine_step D w es w' \<Longrightarrow> log w' = log w @ es"
  by (cases rule: machine_step.cases) auto

lemma machine_run_log: "machine_run D w es w' \<Longrightarrow> log w' = log w @ es"
  by (induction rule: machine_run.induct) (auto dest: machine_step_log)

text \<open>An access is a step of the controller followed by a step of the CPU.\<close>

lemma access_run:
  assumes "machine_step D (step_device D w) es w'"
  shows "machine_run D w es w'"
  using machine_run_append [OF machine_run_step [OF assms] machine_run_step [OF machine_step.controller]]
  by simp

section \<open>Programs that move the machine\<close>

text \<open>
  \<open>moves D v I P p\<close>: \<open>p\<close> keeps \<open>I\<close> and moves the machine that its state shows as \<open>v\<close> along a run
  whose events satisfy \<open>P\<close>, however \<open>p\<close> ends.
\<close>

definition moves ::
  "'d device \<Rightarrow> ('s \<Rightarrow> 'd world) \<Rightarrow> ('s \<Rightarrow> bool) \<Rightarrow> (event \<Rightarrow> bool) \<Rightarrow> ('s, 'a) prog \<Rightarrow> bool" where
  "moves D v I P p \<longleftrightarrow> (\<forall>s. I s \<longrightarrow> I (snd (p s)) \<and>
     (\<exists>es. machine_run D (v s) es (v (snd (p s))) \<and> list_all P es))"

abbreviation world_moves :: "'d device \<Rightarrow> (event \<Rightarrow> bool) \<Rightarrow> ('d world, 'a) prog \<Rightarrow> bool" where
  "world_moves D P p \<equiv> moves D (\<lambda>w. w) (\<lambda>_. True) P p"

abbreviation pair_moves ::
  "'d device \<Rightarrow> ('s \<Rightarrow> bool) \<Rightarrow> (event \<Rightarrow> bool) \<Rightarrow> ('s \<times> 'd world, 'a) prog \<Rightarrow> bool" where
  "pair_moves D J P p \<equiv> moves D snd (\<lambda>s. J (fst s)) P p"

named_theorems moves_rules "decomposition of moves along the structure of a program"

lemma movesD:
  assumes "moves D v I P p" and "I s"
  shows "I (snd (p s))" and "\<exists>es. machine_run D (v s) es (v (snd (p s))) \<and> list_all P es"
  using assms unfolding moves_def by blast+

lemma moves_idle: "(\<And>s. I s \<Longrightarrow> I (snd (p s)) \<and> v (snd (p s)) = v s) \<Longrightarrow> moves D v I P p"
  unfolding moves_def using machine_run.at_rest by fastforce

lemma moves_still [moves_rules]:
  "moves D v I P (ret x)" "moves D v I P (fail e)" "moves D v I P (crash q)" "moves D v I P (of_outcome r)"
  by (auto intro: moves_idle simp: run_simps)

lemma moves_gets [moves_rules]:
  "(\<And>s. I s \<Longrightarrow> moves D v I P (f (g s))) \<Longrightarrow> moves D v I P (andthen (gets g) f)"
  unfolding moves_def by (auto simp: run_simps)

lemma moves_then:
  assumes p: "moves D v I P p" and f: "\<And>s. I s \<Longrightarrow> moves D v I P (f (fst (p s)))"
  shows "moves D v I P (\<lambda>s. f (fst (p s)) (snd (p s)))"
  unfolding moves_def
proof (intro allI impI)
  fix s assume s: "I s"
  note first = movesD [OF p s]
  note second = movesD [OF f [OF s] first(1)]
  obtain es fs where "machine_run D (v s) es (v (snd (p s)))" "list_all P es"
    "machine_run D (v (snd (p s))) fs (v (snd (f (fst (p s)) (snd (p s)))))" "list_all P fs"
    using first(2) second(2) by blast
  then have "machine_run D (v s) (es @ fs) (v (snd (f (fst (p s)) (snd (p s))))) \<and> list_all P (es @ fs)"
    using machine_run_append by fastforce
  then show "I (snd (f (fst (p s)) (snd (p s)))) \<and>
      (\<exists>es. machine_run D (v s) es (v (snd (f (fst (p s)) (snd (p s))))) \<and> list_all P es)"
    using second(1) by blast
qed

lemma moves_andthen_result:
  assumes "moves D v I P p" and "\<And>s x. I s \<Longrightarrow> fst (p s) = Ok x \<Longrightarrow> moves D v I P (f x)"
  shows "moves D v I P (andthen p f)"
proof -
  have eq: "andthen p f = (\<lambda>s. (\<lambda>r. case r of Ok x \<Rightarrow> f x | Err e \<Rightarrow> fail e | Panic q \<Rightarrow> crash q)
      (fst (p s)) (snd (p s)))"
    by (auto simp: fun_eq_iff run_simps split: outcome.split)
  show ?thesis
    unfolding eq by (rule moves_then [OF assms(1)]) (auto split: outcome.split intro: assms(2) moves_still)
qed

lemma moves_andthen [moves_rules]:
  "moves D v I P p \<Longrightarrow> (\<And>x. moves D v I P (f x)) \<Longrightarrow> moves D v I P (andthen p f)"
  by (rule moves_andthen_result)

lemma moves_cases [moves_rules]:
  "(c \<Longrightarrow> moves D v I P p) \<Longrightarrow> (\<not> c \<Longrightarrow> moves D v I P q) \<Longrightarrow> moves D v I P (if c then p else q)"
  "moves D v I P p \<Longrightarrow> (\<And>y. moves D v I P (g y)) \<Longrightarrow> moves D v I P (case x of None \<Rightarrow> p | Some y \<Rightarrow> g y)"
  "(\<And>a b. moves D v I P (h a b)) \<Longrightarrow> moves D v I P (case z of (a, b) \<Rightarrow> h a b)"
  by (simp_all split: option.split prod.split)

lemma moves_mono:
  assumes "moves D v I P p" and "\<And>e. P e \<Longrightarrow> P' e"
  shows "moves D v I P' p"
  using assms unfolding moves_def by (meson list.pred_mono_strong)

text \<open>A program of the machine, or of the other component, run on a pair.\<close>

lemma moves_on_snd [moves_rules]:
  assumes "world_moves D P p"
  shows "pair_moves D J P (on_snd p)"
  using assms unfolding moves_def by (auto simp: on_snd_def split: prod.splits) (metis snd_conv)

lemma moves_on_fst:
  assumes "\<And>a. J a \<Longrightarrow> J (snd (q a))"
  shows "pair_moves D J P (on_fst q)"
  by (rule moves_idle) (use assms in \<open>auto simp: on_fst_def split: prod.splits\<close>, metis snd_conv)

lemma moves_on_fst_modify [moves_rules]:
  "(\<And>a. J a \<Longrightarrow> J (f a)) \<Longrightarrow> pair_moves D J P (on_fst (modify f))"
  by (rule moves_on_fst) (simp add: run_simps)

lemma moves_on_fst_any [moves_rules]: "pair_moves D (\<lambda>_. True) P (on_fst q)"
  by (rule moves_on_fst) simp

section \<open>Accesses\<close>

lemma moves_emit [moves_rules]:
  "silent e \<Longrightarrow> P e \<Longrightarrow> world_moves D P (emit e)"
  "P Pause \<Longrightarrow> world_moves D P pause"
proof -
  have "silent e \<Longrightarrow> P e \<Longrightarrow> world_moves D P (emit e)" for e
    unfolding moves_def by (auto simp: run_access intro!: exI [of _ "[e]"] machine_run_step machine_step.marking)
  from this [of e] this [of Pause]
  show "silent e \<Longrightarrow> P e \<Longrightarrow> world_moves D P (emit e)" "P Pause \<Longrightarrow> world_moves D P pause"
    by (simp_all add: pause_def silent_def)
qed

lemma moves_access:
  "P (DmaStore off bs) \<Longrightarrow> world_moves D P (dma_store D off bs)"
  "world_moves D P (dma_load D off n)"
  "world_moves D P (reg_read32 D reg)" "world_moves D P (reg_read64 D reg)"
  "P (RegWrite32 reg v) \<Longrightarrow> world_moves D P (reg_write32 D reg v)"
  "P (RegWrite64 reg u) \<Longrightarrow> world_moves D P (reg_write64 D reg u)"
proof -
  note steps = machine_step.storing [of D "step_device D w" off bs for w]
    machine_step.writing32 [of D "step_device D w" reg v for w]
    machine_step.writing64 [of D "step_device D w" reg u for w]
  note runs = steps [simplified, THEN access_run] machine_run_step [OF machine_step.controller]
    access_run [OF machine_step.loading32] access_run [OF machine_step.loading64]
  show "world_moves D P (dma_load D off n)"
    "world_moves D P (reg_read32 D reg)" "world_moves D P (reg_read64 D reg)"
    unfolding moves_def by (auto simp: run_access intro!: exI [of _ "[]"] runs)
  show "P (DmaStore off bs) \<Longrightarrow> world_moves D P (dma_store D off bs)"
    unfolding moves_def by (auto simp: run_access intro!: exI [of _ "[DmaStore off bs]"] runs)
  show "P (RegWrite32 reg v) \<Longrightarrow> world_moves D P (reg_write32 D reg v)"
    unfolding moves_def by (auto simp: run_access intro!: exI [of _ "[RegWrite32 reg v]"] runs)
  show "P (RegWrite64 reg u) \<Longrightarrow> world_moves D P (reg_write64 D reg u)"
    unfolding moves_def by (auto simp: run_access intro!: exI [of _ "[RegWrite64 reg u]"] runs)
qed

lemma moves_region [moves_rules]:
  "P (DmaStore (unat off) (encode t x)) \<Longrightarrow> world_moves D P (write_volatile D t region off x)"
  "world_moves D P (read_volatile D t region off)"
  "P (DmaStore (unat off) bs) \<Longrightarrow> world_moves D P (write_bytes D region off bs)"
  "world_moves D P (read_bytes D region off n)"
  unfolding write_volatile_def read_volatile_def write_bytes_def read_bytes_def
  by (intro moves_andthen moves_still moves_access; assumption)+

lemma moves_registers [moves_rules]:
  "world_moves D P (read32 D bar reg)" "world_moves D P (read64 D bar reg)"
  "P (RegWrite32 reg v) \<Longrightarrow> world_moves D P (write32 D bar reg v)"
  "P (RegWrite64 reg u) \<Longrightarrow> world_moves D P (write64 D bar reg u)"
  unfolding read32_def read64_def write32_def write64_def
  by (intro moves_andthen moves_still moves_access; assumption)+

end
