(* ===== verification/Obedience.thy ===== *)
theory Obedience
  imports Machine_Runs Repl_Session
begin

text \<open>
  The weakest thing to ask of a controller: it does only what it was told. It may be slow, refuse,
  reorder, repeat, answer nonsense or nothing, and write garbage into the blocks it was told to
  write; but it takes commands only from rings it was given, and changes only blocks that some
  command names. Along any run whose events name blocks of a set only, such a controller leaves
  the other blocks alone.
\<close>

unbundle bit_operations_syntax

section \<open>What a controller has been told\<close>

text \<open>
  Everything a controller has ever been told: the addresses written to ASQ, the admin queue sizes
  written to AQA, the I/O submission rings (address and entries) named by Create I/O Submission
  Queue, and the blocks that other commands it may still work on can change.
\<close>

record knowledge =
  known_asq :: "u64 set"
  known_sizes :: "nat set"
  known_rings :: "(u64 \<times> nat) set"
  known_blocks :: "u64 set"

definition no_more_than :: "knowledge \<Rightarrow> knowledge \<Rightarrow> bool" where
  "no_more_than K K' \<longleftrightarrow> known_asq K \<subseteq> known_asq K' \<and> known_sizes K \<subseteq> known_sizes K' \<and>
     known_rings K \<subseteq> known_rings K' \<and> known_blocks K \<subseteq> known_blocks K'"

text \<open>
  What an entry tells it. Of the admin commands, Create I/O Submission Queue (1) names a ring,
  Delete I/O Queue (0, 4), Create I/O Completion Queue (5) and Identify (6) change no block, and any
  other may change all. Of the I/O commands, Flush (0) and Read (2) change no block, Write (1)
  changes the blocks it names, in whatever namespace, and any other may change all.
\<close>

definition admin_rings :: "submission_queue_entry \<Rightarrow> (u64 \<times> nat) set" where
  "admin_rings e = (if sqe_opc e = 1 then {(sqe_prp1 e, high16 (sqe_cdw10 e) + 1)} else {})"

definition admin_blocks :: "submission_queue_entry \<Rightarrow> u64 set" where
  "admin_blocks e = (if sqe_opc e \<in> {0, 1, 4, 5, 6} then {} else UNIV)"

definition io_blocks :: "submission_queue_entry \<Rightarrow> u64 set" where
  "io_blocks e = (if sqe_opc e = 1 then command_range e else if sqe_opc e \<in> {0, 2} then {} else UNIV)"

text \<open>
  The entries of a ring at a bus address, when the region is at \<open>base\<close>. A controller that looks at
  the memory \<open>m\<close> may fetch any of them, whether it was announced or not.
\<close>

definition ring_entries :: "u64 \<Rightarrow> mem \<Rightarrow> u64 \<Rightarrow> nat \<Rightarrow> submission_queue_entry set" where
  "ring_entries base m a n =
     (\<lambda>k. sqe_of_bytes (load m (unat (a + of_nat (64 * k) - base)) 64)) ` {..<n}"

definition admin_entries :: "u64 \<Rightarrow> mem \<Rightarrow> knowledge \<Rightarrow> submission_queue_entry set" where
  "admin_entries base m K = (\<Union>a \<in> known_asq K. \<Union>n \<in> known_sizes K. ring_entries base m a n)"

definition io_entries :: "u64 \<Rightarrow> mem \<Rightarrow> knowledge \<Rightarrow> submission_queue_entry set" where
  "io_entries base m K = (\<Union>(a, n) \<in> known_rings K. ring_entries base m a n)"

definition learned :: "u64 \<Rightarrow> mem \<Rightarrow> knowledge \<Rightarrow> knowledge" where
  "learned base m K =
     (let K' = K\<lparr>known_rings := known_rings K \<union> (\<Union>e \<in> admin_entries base m K. admin_rings e)\<rparr>
      in K'\<lparr>known_blocks := known_blocks K \<union> (\<Union>e \<in> admin_entries base m K. admin_blocks e) \<union>
           (\<Union>e \<in> io_entries base m K'. io_blocks e)\<rparr>)"

text \<open>
  The contract. \<open>content d b\<close> is what the device's block \<open>b\<close> holds, \<open>told d\<close> what the device has been
  told. A step learns at most what the rings it knows hold, changes only blocks it has been told
  to change, and leaves the two submission rings as they are; writing AQA and ASQ tells it a size
  and an address, and no register access changes a block. Nothing is asked of what it answers.
\<close>

definition obedient ::
  "'d device \<Rightarrow> u64 \<Rightarrow> ('d \<Rightarrow> u64 \<Rightarrow> 'b) \<Rightarrow> ('d \<Rightarrow> knowledge) \<Rightarrow> bool" where
  "obedient D base content told \<longleftrightarrow>
     (\<forall>d m. let (d', m') = dev_step D d m; K = learned base m (told d) in
        no_more_than (told d') K \<and> (\<forall>b. b \<notin> known_blocks K \<longrightarrow> content d' b = content d b) \<and>
        (\<forall>i. i < 0x1000 \<or> 0x2000 \<le> i \<and> i < 0x3000 \<longrightarrow> m' i = m i)) \<and>
     (\<forall>d reg. let d' = snd (dev_read32 D d reg) in
        no_more_than (told d') (told d) \<and> content d' = content d) \<and>
     (\<forall>d reg. let d' = snd (dev_read64 D d reg) in
        no_more_than (told d') (told d) \<and> content d' = content d) \<and>
     (\<forall>d reg v. let d' = dev_write32 D d reg v in content d' = content d \<and>
        no_more_than (told d') (if reg = AQA
          then (told d)\<lparr>known_sizes := insert (unat (v AND 0xFFF) + 1) (known_sizes (told d))\<rparr>
          else told d)) \<and>
     (\<forall>d reg v. let d' = dev_write64 D d reg v in content d' = content d \<and>
        no_more_than (told d') (if reg = ASQ
          then (told d)\<lparr>known_asq := insert v (known_asq (told d))\<rparr> else told d))"

section \<open>Harmless events\<close>

definition admin_harmless :: "u64 \<Rightarrow> submission_queue_entry \<Rightarrow> bool" where
  "admin_harmless base e \<longleftrightarrow> admin_blocks e = {} \<and> admin_rings e \<subseteq> {(base + 0x2000, 64)}"

definition io_harmless :: "u64 set \<Rightarrow> submission_queue_entry \<Rightarrow> bool" where
  "io_harmless S e \<longleftrightarrow> io_blocks e \<subseteq> S"

text \<open>
  The events of a driver that keeps its rings in the first three pages of the region at \<open>base\<close>: it
  stores behind the rings, or one entry into one slot of a ring, in the I/O ring an entry that
  satisfies \<open>A\<close>; ASQ gets the address of the region and AQA at most 64 entries; it prints and reports
  only where that is allowed (\<open>aloud\<close>). Such an event is harmless for the blocks outside \<open>S\<close> when
  the entry is.
\<close>

definition tame :: "bool \<Rightarrow> u64 \<Rightarrow> (submission_queue_entry \<Rightarrow> bool) \<Rightarrow> event \<Rightarrow> bool" where
  "tame aloud base A e = (case e of
     DmaStore off bs \<Rightarrow> 0x3000 \<le> off \<or> length bs = 64 \<and>
       ((\<exists>k<64. off = 64 * k \<and> admin_harmless base (sqe_of_bytes bs)) \<or>
        (\<exists>k<64. off = 0x2000 + 64 * k \<and> A (sqe_of_bytes bs)))
   | RegWrite32 reg v \<Rightarrow> reg = AQA \<longrightarrow> unat (v AND 0xFFF) < 64
   | RegWrite64 reg v \<Rightarrow> reg = ASQ \<longrightarrow> v = base
   | Print t \<Rightarrow> aloud
   | Report x \<Rightarrow> aloud
   | _ \<Rightarrow> True)"

abbreviation harmless :: "u64 \<Rightarrow> u64 set \<Rightarrow> event \<Rightarrow> bool" where
  "harmless base S \<equiv> tame True base (io_harmless S)"

text \<open>What holds of the memory and of the controller while only harmless events happen.\<close>

definition rings_harmless :: "u64 \<Rightarrow> u64 set \<Rightarrow> mem \<Rightarrow> bool" where
  "rings_harmless base S m \<longleftrightarrow> (\<forall>k<64. admin_harmless base (sqe_of_bytes (load m (64 * k) 64)) \<and>
     io_harmless S (sqe_of_bytes (load m (0x2000 + 64 * k) 64)))"

definition knows_only :: "u64 \<Rightarrow> u64 set \<Rightarrow> knowledge \<Rightarrow> bool" where
  "knows_only base S K \<longleftrightarrow> known_asq K \<subseteq> {base} \<and> (\<forall>n \<in> known_sizes K. n \<le> 64) \<and>
     known_rings K \<subseteq> {(base + 0x2000, 64)} \<and> known_blocks K \<subseteq> S"

definition contained :: "u64 \<Rightarrow> u64 set \<Rightarrow> ('d \<Rightarrow> knowledge) \<Rightarrow> 'd world \<Rightarrow> bool" where
  "contained base S told w \<longleftrightarrow> rings_harmless base S (dma w) \<and> knows_only base S (told (dev w))"

lemma no_more_knows: "no_more_than K K' \<Longrightarrow> knows_only base S K' \<Longrightarrow> knows_only base S K"
  unfolding no_more_than_def knows_only_def by blast

lemma ring_entries_base:
  assumes "n \<le> 64"
  shows "e \<in> ring_entries base m base n \<Longrightarrow> \<exists>k<64. e = sqe_of_bytes (load m (64 * k) 64)"
    and "e \<in> ring_entries base m (base + 0x2000) n \<Longrightarrow> \<exists>k<64. e = sqe_of_bytes (load m (0x2000 + 64 * k) 64)"
proof -
  have at: "unat (base + of_nat off + of_nat (64 * k) - base) = off + 64 * k" if "k < 64" "off \<le> 0x2000" for off k
  proof -
    have "base + of_nat off + of_nat (64 * k) - base = of_nat (off + 64 * k)" by simp
    moreover have "unat (of_nat (off + 64 * k) :: u64) = off + 64 * k"
      using that by (intro unat_of_nat_small) simp
    ultimately show ?thesis by (simp only:)
  qed
  show "e \<in> ring_entries base m base n \<Longrightarrow> \<exists>k<64. e = sqe_of_bytes (load m (64 * k) 64)"
    using at [of _ 0] assms by (auto simp: ring_entries_def) (metis less_le_trans)
  show "e \<in> ring_entries base m (base + 0x2000) n \<Longrightarrow> \<exists>k<64. e = sqe_of_bytes (load m (0x2000 + 64 * k) 64)"
    using at [of _ "0x2000"] assms by (auto simp: ring_entries_def) (metis less_le_trans)
qed

lemma learned_knows:
  assumes rings: "rings_harmless base S m" and K: "knows_only base S K"
  shows "knows_only base S (learned base m K)"
proof -
  have admin: "admin_harmless base e" if "e \<in> admin_entries base m K" for e
  proof -
    from that K obtain n where "n \<le> 64" "e \<in> ring_entries base m base n"
      by (auto simp: admin_entries_def knows_only_def)
    from ring_entries_base(1) [OF this] rings show ?thesis by (auto simp: rings_harmless_def)
  qed
  define K' where "K' = K\<lparr>known_rings := known_rings K \<union> (\<Union>e \<in> admin_entries base m K. admin_rings e)\<rparr>"
  have rs: "known_rings K' \<subseteq> {(base + 0x2000, 64)}"
    using admin K by (auto simp: K'_def admin_harmless_def knows_only_def)
  have io: "io_harmless S e" if "e \<in> io_entries base m K'" for e
  proof -
    from that rs have "e \<in> ring_entries base m (base + 0x2000) 64" by (auto simp: io_entries_def)
    from ring_entries_base(2) [OF le_refl this] rings show ?thesis by (auto simp: rings_harmless_def)
  qed
  have blocks: "known_blocks (learned base m K) = known_blocks K \<union> (\<Union>e \<in> admin_entries base m K. admin_blocks e) \<union>
      (\<Union>e \<in> io_entries base m K'. io_blocks e)"
    by (simp add: learned_def Let_def K'_def)
  have "known_blocks (learned base m K) \<subseteq> S"
    unfolding blocks
    by (intro Un_least UN_least) (use K admin io in \<open>simp_all add: knows_only_def admin_harmless_def io_harmless_def\<close>)
  moreover have "known_rings (learned base m K) = known_rings K'" "known_asq (learned base m K) = known_asq K"
    "known_sizes (learned base m K) = known_sizes K"
    by (simp_all add: learned_def Let_def K'_def)
  ultimately show ?thesis using K rs by (simp add: knows_only_def)
qed

lemma rings_harmless_cong:
  assumes "\<And>i. i < 0x1000 \<or> 0x2000 \<le> i \<and> i < 0x3000 \<Longrightarrow> m' i = m i"
  shows "rings_harmless base S m' = rings_harmless base S m"
proof -
  have "load m' (64 * k) 64 = load m (64 * k) 64" "load m' (0x2000 + 64 * k) 64 = load m (0x2000 + 64 * k) 64"
    if "k < 64" for k
    by (rule load_cong, rule assms, use that in simp)+
  then show ?thesis by (simp add: rings_harmless_def)
qed

lemma store_harmless:
  assumes "harmless base S (DmaStore off bs)" and rings: "rings_harmless base S m"
  shows "rings_harmless base S (store m off bs)"
proof (cases "0x3000 \<le> off")
  case True
  then have "rings_harmless base S (store m off bs) = rings_harmless base S m"
    by (intro rings_harmless_cong) (auto simp: store_def)
  then show ?thesis using rings by simp
next
  case False
  with assms(1) have len: "length bs = 64" and slot:
    "(\<exists>j<64. off = 64 * j \<and> admin_harmless base (sqe_of_bytes bs)) \<or>
     (\<exists>j<64. off = 0x2000 + 64 * j \<and> io_harmless S (sqe_of_bytes bs))"
    by (auto simp: tame_def)
  have same: "load (store m off bs) off 64 = bs" using load_store_same [of m off bs] len by simp
  have other: "load (store m off bs) p 64 = load m p 64" if "off + 64 \<le> p \<or> p + 64 \<le> off" for p
    by (rule load_cong) (use that len in \<open>auto simp: store_def\<close>)
  have apart: "64 * j + 64 \<le> 64 * k \<or> 64 * k + 64 \<le> 64 * j" if "j \<noteq> k" for j k :: nat
    using that by linarith
  have "admin_harmless base (sqe_of_bytes (load (store m off bs) (64 * k) 64)) \<and>
      io_harmless S (sqe_of_bytes (load (store m off bs) (0x2000 + 64 * k) 64))" if k: "k < 64" for k
    using slot
  proof (elim disjE exE conjE)
    fix j assume j: "j < 64" "off = 64 * j" "admin_harmless base (sqe_of_bytes bs)"
    have "load (store m off bs) (64 * k) 64 = (if k = j then bs else load m (64 * k) 64)"
      using same other [of "64 * k"] apart [of j k] j by auto
    moreover have "load (store m off bs) (0x2000 + 64 * k) 64 = load m (0x2000 + 64 * k) 64"
      using j by (intro other) simp
    ultimately show ?thesis using rings k j by (simp add: rings_harmless_def)
  next
    fix j assume j: "j < 64" "off = 0x2000 + 64 * j" "io_harmless S (sqe_of_bytes bs)"
    have "load (store m off bs) (0x2000 + 64 * k) 64 = (if k = j then bs else load m (0x2000 + 64 * k) 64)"
      using same other [of "0x2000 + 64 * k"] apart [of j k] j by auto
    moreover have "load (store m off bs) (64 * k) 64 = load m (64 * k) 64"
      using j k by (intro other) simp
    ultimately show ?thesis using rings k j by (simp add: rings_harmless_def)
  qed
  then show ?thesis by (simp add: rings_harmless_def)
qed

section \<open>Harmless runs change nothing outside\<close>

lemma obedientD:
  assumes "obedient D base content told"
  shows "no_more_than (told (fst (dev_step D d m))) (learned base m (told d))"
    and "b \<notin> known_blocks (learned base m (told d)) \<Longrightarrow> content (fst (dev_step D d m)) b = content d b"
    and "i < 0x1000 \<or> 0x2000 \<le> i \<and> i < 0x3000 \<Longrightarrow> snd (dev_step D d m) i = m i"
    and "no_more_than (told (snd (dev_read32 D d reg))) (told d)" "content (snd (dev_read32 D d reg)) = content d"
    and "no_more_than (told (snd (dev_read64 D d reg))) (told d)" "content (snd (dev_read64 D d reg)) = content d"
    and "no_more_than (told (dev_write32 D d reg v)) (if reg = AQA
          then (told d)\<lparr>known_sizes := insert (unat (v AND 0xFFF) + 1) (known_sizes (told d))\<rparr> else told d)"
    and "content (dev_write32 D d reg v) = content d"
    and "no_more_than (told (dev_write64 D d reg u)) (if reg = ASQ
          then (told d)\<lparr>known_asq := insert u (known_asq (told d))\<rparr> else told d)"
    and "content (dev_write64 D d reg u) = content d"
  using assms by (auto simp: obedient_def Let_def case_prod_unfold)

lemma harmless_step:
  assumes ctl: "obedient D base content told" and step: "machine_step D w es w'"
    and "list_all (harmless base S) es" and c: "contained base S told w"
  shows "contained base S told w' \<and> (\<forall>b. b \<notin> S \<longrightarrow> content (dev w') b = content (dev w) b)"
proof -
  note law = obedientD [OF ctl]
  have rings: "rings_harmless base S (dma w)" and K: "knows_only base S (told (dev w))"
    using c by (simp_all add: contained_def)
  show ?thesis
    using step
  proof (cases rule: machine_step.cases)
    case controller
    have dev: "dev w' = fst (dev_step D (dev w) (dma w))" "dma w' = snd (dev_step D (dev w) (dma w))"
      by (simp_all add: controller step_device_def case_prod_unfold Let_def)
    note new = learned_knows [OF rings K]
    have "knows_only base S (told (dev w'))" using no_more_knows [OF law(1) new] by (simp add: dev)
    moreover have "rings_harmless base S (dma w') = rings_harmless base S (dma w)"
      by (rule rings_harmless_cong) (simp only: dev law(3))
    moreover have "content (dev w') b = content (dev w) b" if "b \<notin> S" for b
    proof -
      have "b \<notin> known_blocks (learned base (dma w) (told (dev w)))" using new that by (auto simp: knows_only_def)
      then show ?thesis unfolding dev by (rule law(2))
    qed
    ultimately show ?thesis using rings by (simp add: contained_def)
  next
    case (loading32 reg)
    then show ?thesis using c law(5) no_more_knows [OF law(4) K] by (simp add: contained_def)
  next
    case (loading64 reg)
    then show ?thesis using c law(7) no_more_knows [OF law(6) K] by (simp add: contained_def)
  next
    case (storing off bs)
    then show ?thesis using assms(3) c store_harmless by (simp add: contained_def)
  next
    case (writing32 reg v)
    have "knows_only base S (told (dev_write32 D (dev w) reg v))"
      by (rule no_more_knows [OF law(8)]) (use writing32 assms(3) K in \<open>auto simp: knows_only_def tame_def\<close>)
    then show ?thesis using writing32 c law(9) by (simp add: contained_def)
  next
    case (writing64 reg v)
    have "knows_only base S (told (dev_write64 D (dev w) reg v))"
      by (rule no_more_knows [OF law(10)]) (use writing64 assms(3) K in \<open>auto simp: knows_only_def tame_def\<close>)
    then show ?thesis using writing64 c law(11) by (simp add: contained_def)
  next
    case (marking e)
    then show ?thesis using c by (simp add: contained_def)
  qed
qed

lemma harmless_run:
  assumes "machine_run D w es w'" and "obedient D base content told"
    and "list_all (harmless base S) es" and "contained base S told w"
  shows "contained base S told w' \<and> (\<forall>b. b \<notin> S \<longrightarrow> content (dev w') b = content (dev w) b)"
  using assms(1,3,4)
proof induction
  case (moved w es w' fs w'')
  then show ?case using harmless_step [OF assms(2) moved.hyps(2)] by auto
qed simp

end
