(* ===== verification/Driver_Runs.thy ===== *)
theory Driver_Runs
  imports Obedience Driver_Open
begin

text \<open>
  Every operation of the driver, and \<open>open\<close> on every path and with a BAR of any size, moves the
  machine by tame events: entries go into the slots of their ring, admin commands are harmless,
  the controller is told of the two rings only, and all else is stored behind them.
\<close>

unbundle bit_operations_syntax

section \<open>Submissions\<close>

text \<open>The rings are where \<open>open\<close> puts them; nothing is said of the BAR or of the block sizes.\<close>

definition placed :: "u64 \<Rightarrow> driver \<Rightarrow> bool" where
  "placed base dr \<longleftrightarrow> queue_at 0 0 0x1000 (admin_queue dr) \<and> queue_at 1 0x2000 0x3000 (io_queue dr) \<and>
     physical_address (drv_dma dr) = base"

lemma tame_marks [moves_rules]:
  "tame aloud base A Fence" "tame aloud base A Pause" "silent Fence" "silent (Sleep n)" "silent (Print t)"
  "silent (Report e)" "silent (ConfigWrite bdf off bs)" "tame aloud base A (Sleep n)" "tame True base A (Print t)"
  "tame True base A (Report e)" "tame aloud base A (ConfigWrite bdf off bs)"
  by (simp_all add: tame_def silent_def)

lemma tame_behind: "0x3000 \<le> off \<Longrightarrow> tame aloud base A (DmaStore off bs)"
  by (simp add: tame_def)

lemma tame_small: "unat v < 64 \<Longrightarrow> tame aloud base A (RegWrite32 reg v)"
proof -
  assume v: "unat v < 64"
  have "unat (v AND 0xFFF) = unat v mod 2 ^ 12" by (simp only: low_masks unat_and_mask)
  then show ?thesis using v by (simp add: tame_def)
qed

lemma tame_entry:
  "k < 64 \<Longrightarrow> admin_harmless base e \<Longrightarrow> tame aloud base A (DmaStore (k * 64) (sqe_bytes e))"
  "k < 64 \<Longrightarrow> A e \<Longrightarrow> tame aloud base A (DmaStore (0x2000 + k * 64) (sqe_bytes e))"
  by (auto simp: tame_def sqe_of_sqe_bytes)

text \<open>Polling and submitting, whatever the BAR and the region are.\<close>

lemma queue_at_updates:
  "queue_at i so co q \<Longrightarrow> queue_at i so co (take_cid q)"
  "queue_at i so co q \<Longrightarrow> queue_at i so co (advance_tail q)"
  "queue_at i so co q \<Longrightarrow> queue_at i so co (advance_head q)"
  using sq_tail.pos_bump_less cq_head.pos_bump_less by (simp_all add: queue_at_def)

lemma poll_moves:
  "pair_moves D (queue_at i so co) (tame aloud base A) (poll D bar region stride cid spins)"
proof (induction D bar region stride cid spins rule: poll.induct)
  case (1 D bar region stride cid spins)
  have bell: "tame aloud base A (RegWrite32 reg (completion_head q))" if "queue_at i so co q" for reg q
    using that by (intro tame_small) (simp add: queue_at_def)
  show ?case
    unfolding poll.simps [of D bar region stride cid spins] consume_completion_def ring_completion_doorbell_def
    by (intro 1 moves_rules queue_at_updates bell)
qed


lemma ring_slot:
  assumes "queue_at i so co q" and "unat so \<le> 0x2000"
  shows "unat (sqe_slot q) = unat so + unat (submission_tail q) * 64"
  using assms unfolding sqe_slot_def queue_at_def by (subst unat_slot) simp_all

lemma submit_moves:
  assumes entry: "\<And>k cid. k < 64 \<Longrightarrow> tame aloud base A (DmaStore (unat so + k * 64) (sqe_bytes (command\<lparr>sqe_cid := cid\<rparr>)))"
    and so: "unat so \<le> 0x2000"
  shows "pair_moves D (queue_at i so co) (tame aloud base A) (submit_and_wait D bar region stride command)"
proof -
  have bell: "tame aloud base A (RegWrite32 reg (submission_tail q))" if "queue_at i so co q" for reg q
    using that by (intro tame_small) (simp add: queue_at_def)
  have slot: "tame aloud base A (DmaStore (unat (sqe_slot q)) (encode sqe_repr (command\<lparr>sqe_cid := cid\<rparr>)))"
    if "queue_at i so co q" for q cid
    using entry [of "unat (submission_tail q)"] that ring_slot [OF that so] by (simp add: queue_at_def)
  have slot': "tame aloud base A (DmaStore (unat (case s of (q, w) \<Rightarrow> sqe_slot q))
      (encode sqe_repr (command\<lparr>sqe_cid := cid\<rparr>)))" if "queue_at i so co (fst s)"
    for s :: "queue_pair \<times> 'w world" and cid
    using slot [OF that] by (simp add: case_prod_unfold)
  show ?thesis
    unfolding submit_and_wait_def ring_submission_doorbell_def
    by (intro poll_moves moves_rules queue_at_updates bell slot')
qed

text \<open>A submission on one of the driver's queues, which \<open>put\<close> stores back.\<close>

lemma queue_submit_moves:
  assumes sub: "\<And>bar region stride. pair_moves D (queue_at i so co) P (submit_and_wait D bar region stride command)"
    and get: "\<And>dr. placed base dr \<Longrightarrow> queue_at i so co (get dr)"
    and put: "\<And>dr q. placed base dr \<Longrightarrow> queue_at i so co q \<Longrightarrow> placed base (put dr q)"
  shows "pair_moves D (placed base) P (\<lambda>(dr, w). case submit_and_wait D (drv_bar dr) (drv_dma dr)
      (doorbell_stride dr) command (get dr, w) of (r, (q, w')) \<Rightarrow> (r, (put dr q, w')))"
  unfolding moves_def
proof (intro allI impI)
  fix s :: "'a machine" assume p: "placed base (fst s)"
  obtain dr w where s: "s = (dr, w)" by (cases s)
  obtain r q w' where run: "submit_and_wait D (drv_bar dr) (drv_dma dr) (doorbell_stride dr) command (get dr, w)
      = (r, (q, w'))" by (metis prod.exhaust)
  have pd: "placed base dr" using p by (simp add: s)
  note movesD [OF sub, of "(get dr, w)", unfolded fst_conv snd_conv, OF get [OF pd], of "drv_bar dr" "drv_dma dr" "doorbell_stride dr",
    unfolded run fst_conv snd_conv]
  then show "placed base (fst (snd ((\<lambda>(dr, w). case submit_and_wait D (drv_bar dr) (drv_dma dr)
          (doorbell_stride dr) command (get dr, w) of (r, (q, w')) \<Rightarrow> (r, (put dr q, w'))) s))) \<and>
      (\<exists>es. machine_run D (snd s) es (snd (snd ((\<lambda>(dr, w). case submit_and_wait D (drv_bar dr) (drv_dma dr)
          (doorbell_stride dr) command (get dr, w) of (r, (q, w')) \<Rightarrow> (r, (put dr q, w'))) s))) \<and> list_all P es)"
    using put [OF pd] by (simp add: s run)
qed

lemma admin_submit_moves:
  assumes "\<And>cid. admin_harmless base (command\<lparr>sqe_cid := cid\<rparr>)"
  shows "pair_moves D (placed base) (tame aloud base A) (admin_submit D command)"
  unfolding admin_submit_def
  by (rule queue_submit_moves [where put = "\<lambda>dr q. dr\<lparr>admin_queue := q\<rparr>", OF submit_moves [where so = 0]])
    (use tame_entry(1) assms in \<open>simp_all add: placed_def\<close>)

lemma io_submit_moves:
  assumes "\<And>cid. A (command\<lparr>sqe_cid := cid\<rparr>)"
  shows "pair_moves D (placed base) (tame aloud base A) (io_submit D command)"
  unfolding io_submit_def
  by (rule queue_submit_moves [where put = "\<lambda>dr q. dr\<lparr>io_queue := q\<rparr>", OF submit_moves [where so = "0x2000"]])
    (use tame_entry(2) assms in \<open>simp_all add: placed_def\<close>)

text \<open>The commands the driver builds.\<close>

lemma identify_harmless: "admin_harmless base ((nvme_identify structure nsid p)\<lparr>sqe_cid := cid\<rparr>)"
  by (simp add: admin_harmless_def admin_blocks_def admin_rings_def nvme_identify_def admin_opcode_u8_def)

lemma create_harmless:
  "admin_harmless base ((nvme_create_io_completion_queue q n p)\<lparr>sqe_cid := cid\<rparr>)"
  "admin_harmless base ((nvme_create_io_submission_queue IO_QUEUE_ID (ucast QUEUE_DEPTH) IO_QUEUE_ID
     (base + 0x2000))\<lparr>sqe_cid := cid\<rparr>)"
proof -
  have depth: "unat (ucast QUEUE_DEPTH :: u16) = 64" "0 < (ucast QUEUE_DEPTH :: u16)"
    by (simp_all add: QUEUE_DEPTH_def)
  show "admin_harmless base ((nvme_create_io_completion_queue q n p)\<lparr>sqe_cid := cid\<rparr>)"
    by (simp add: admin_harmless_def admin_blocks_def admin_rings_def nvme_create_io_completion_queue_def
        admin_opcode_u8_def)
  show "admin_harmless base ((nvme_create_io_submission_queue IO_QUEUE_ID (ucast QUEUE_DEPTH) IO_QUEUE_ID
     (base + 0x2000))\<lparr>sqe_cid := cid\<rparr>)"
    using queue_commands_name_their_queue [OF depth(2), of IO_QUEUE_ID "base + 0x2000" IO_QUEUE_ID] depth(1)
    by (simp add: admin_harmless_def admin_blocks_def admin_rings_def Let_def)
qed

section \<open>Opening\<close>

lemma wait_ready_moves [moves_rules]: "world_moves D (tame aloud base A) (wait_ready D bar want)"
proof -
  have "world_moves D (tame aloud base A) (wait_ready_polls D bar want n)" for n
    by (induction n) (auto simp: read_status_def intro!: moves_rules)
  then show ?thesis by (simp add: wait_ready_def)
qed

lemma reset_moves:
  assumes "physical_address (drv_dma dr) = base"
  shows "world_moves D (tame aloud base A) (reset_and_enable D dr)"
proof -
  have regs: "tame aloud base A (RegWrite32 CC v)" "tame aloud base A (RegWrite64 ACQ u)"
    "tame aloud base A (RegWrite64 ASQ (admin_submission_queue_physical_address dr))"
    "tame aloud base A (RegWrite32 AQA (push_bit 16 (ucast QUEUE_DEPTH - 1) OR (ucast QUEUE_DEPTH - 1)))" for v u
    by (simp_all add: tame_def register_defs QUEUE_DEPTH_def admin_submission_queue_physical_address_def
        physical_address_at_def ADMIN_SUBMISSION_QUEUE_OFFSET_def assms)
  show ?thesis
    unfolding reset_and_enable_def Let_def read_configuration_def write_configuration_def
      write_admin_queue_attributes_def write_admin_submission_queue_def write_admin_completion_queue_def
    by (intro moves_rules regs)
qed

lemma identify_moves [moves_rules]:
  "pair_moves D (placed base) (tame aloud base A) (identify D structure nsid)"
  unfolding identify_def by (auto intro!: admin_submit_moves identify_harmless moves_rules)


lemma identify_block_size_moves [moves_rules]:
  "pair_moves D (placed base) (tame aloud base A) (identify_block_size D nsid)"
  unfolding identify_block_size_def Let_def by (intro moves_rules) (simp add: placed_def)

lemma namespace_block_size_moves [moves_rules]:
  "pair_moves D (placed base) (tame aloud base A) (namespace_block_size D nsid)"
  unfolding namespace_block_size_def by (intro moves_rules)

lemma check_queue_entry_sizes_moves [moves_rules]:
  "pair_moves D (placed base) (tame aloud base A) (check_queue_entry_sizes D)"
  unfolding check_queue_entry_sizes_def Let_def by (intro moves_rules)

lemma create_io_queues_moves [moves_rules]:
  "pair_moves D (placed base) (tame aloud base A) (create_io_queues D)"
proof -
  have sq: "admin_harmless base ((nvme_create_io_submission_queue IO_QUEUE_ID (ucast QUEUE_DEPTH) IO_QUEUE_ID
      (io_submission_queue_physical_address dr))\<lparr>sqe_cid := cid\<rparr>)" if "placed base dr" for dr cid
    using create_harmless(2) that by (simp add: io_submission_queue_physical_address_def physical_address_at_def
        IO_SUBMISSION_QUEUE_OFFSET_def placed_def)
  show ?thesis
    unfolding create_io_queues_def
    by (auto intro!: admin_submit_moves create_harmless(1) sq moves_rules)
qed

lemma bring_up_moves:
  "pair_moves D (placed base) (tame aloud base A) (bring_up D)"
  unfolding bring_up_def by (intro moves_rules reset_moves) (simp_all add: placed_def)

lemma run_driver_moves:
  assumes "pair_moves D J P p" and "J dr"
  shows "world_moves D P (run_driver dr p)"
proof -
  have "snd (run_driver dr p w) = snd (snd (p (dr, w)))" for w
    by (simp add: run_driver_def split: prod.split outcome.split)
  then show ?thesis using assms unfolding moves_def by fastforce
qed

text \<open>The bus address that \<open>alloc_huge\<close> finds for its hugepage.\<close>

definition region_base :: "mem_os \<Rightarrow> u64" where
  "region_base os = (case os_mmap os HUGE_PAGE_SIZE of
     Inr va \<Rightarrow> (case virtual_to_physical os va of Ok pa \<Rightarrow> pa | _ \<Rightarrow> 0) | _ \<Rightarrow> 0)"

lemma alloc_huge_base: "fst (alloc_huge os cs) = Ok region \<Longrightarrow> physical_address region = region_base os"
  by (auto simp: alloc_huge_def region_base_def os_did_def run_simps
      split: sum.splits option.splits outcome.splits)

lemma or_drop_moves [moves_rules]:
  assumes "pair_moves D (\<lambda>_. True) P p"
  shows "pair_moves D (\<lambda>_. True) P (or_drop p (on_fst d))"
proof -
  have "snd (snd (or_drop p (on_fst d) s)) = snd (snd (p s))" for s :: "'b \<times> 'a world"
    by (auto simp: or_drop_def on_fst_def split: prod.split outcome.split)
  then show ?thesis using assms unfolding moves_def by fastforce
qed

lemma driver_open_moves:
  "pair_moves D (\<lambda>_. True) (tame aloud (region_base (host_mem h)) A) (driver_open D h bdf nsid)"
proof -
  have bus: "world_moves D (tame aloud base A) (enable_bus_master h bdf)" for base
    unfolding enable_bus_master_def Let_def
    by (auto split: sum.split option.split intro: moves_rules)
  have new: "placed (region_base (host_mem h)) (driver_new bar region cap nsid)"
    if "physical_address region = region_base (host_mem h)" for bar region cap
    using that by (simp add: placed_def driver_new_def queue_at_def queue_new_def layout_defs IO_QUEUE_ID_def)
  have region: "physical_address region = region_base (host_mem h)"
    if "fst (or_drop (on_fst (alloc_huge (host_mem h))) (on_fst d) s) = Ok region" for region d and s :: "_ \<times> 'a world"
    using that alloc_huge_base by (cases s) (auto simp: or_drop_def on_fst_def split: prod.splits outcome.splits, metis fst_conv)
  show ?thesis
    unfolding driver_open_def read_capabilities_def
    by (intro moves_andthen_result [of _ _ _ _ "or_drop (on_fst (alloc_huge (host_mem h))) d" for d]
        moves_rules bus run_driver_moves [OF bring_up_moves] new) (erule region)
qed

text \<open>Where a driver that \<open>open\<close> returns keeps its rings.\<close>

lemma open_base:
  assumes "driver_open D h bdf nsid (cs, w) = (Ok dr, s)"
  shows "physical_address (drv_dma dr) = region_base (host_mem h)"
proof -
  have base: "alloc_huge os c = (Ok region, c') \<Longrightarrow> physical_address region = region_base os" for os c region c'
    using alloc_huge_base [of os c region] by simp
  obtain bar region cap w1 w2 where region: "physical_address region = region_base (host_mem h)"
    and run: "run_driver (driver_new bar region cap nsid) (bring_up D) w1 = (Ok dr, w2)"
    using assms unfolding driver_open_def
    by (auto simp: andthen_Ok or_drop_Ok on_fst_Ok on_snd_Ok dest!: base)
  from run have "same_hardware (driver_new bar region cap nsid) dr"
    by (cases rule: run_driver_cases [of "driver_new bar region cap nsid" D w1]) auto
  then show ?thesis using region by (simp add: same_hardware_def driver_new_def)
qed

section \<open>Transfers\<close>

abbreviation transfer_command :: "submission_queue_entry \<Rightarrow> bool" where
  "transfer_command e \<equiv> sqe_opc e = 1 \<or> sqe_opc e = 2"

lemma data_pointers_moves:
  assumes "unat len \<le> 0x1FB000"
  shows "world_moves D (tame aloud base A) (data_pointers D dr len)"
proof -
  have list: "world_moves D (tame aloud base A) (write_prp_list D dr index n)" if "index + n \<le> 512" for index n
    using that
  proof (induction n arbitrary: index)
    case (Suc n)
    have "tame aloud base A (DmaStore (unat (PRP_LIST_OFFSET + of_nat index * 8)) bs)" for bs
      using prp_slot [of index] Suc.prems by (intro tame_behind) simp
    with Suc.IH [of "Suc index"] Suc.prems show ?case by (auto intro!: moves_rules)
  qed (simp add: moves_rules)
  have "unat (div_ceil len PAGE_SIZE - 1) \<le> 507" if "div_ceil len PAGE_SIZE \<noteq> 0"
    using pages_of(2) [OF assms] that by (simp add: unat_minus_one)
  then show ?thesis
    unfolding data_pointers_def Let_def by (auto intro!: moves_rules list)
qed

lemma transfers_move [moves_rules]:
  "pair_moves D (placed base) (tame aloud base transfer_command) (driver_read D slba count)"
  "pair_moves D (placed base) (tame aloud base transfer_command) (driver_write D slba data)"
proof -
  have opcodes: "transfer_command ((nvme_read n l b p1 p2)\<lparr>sqe_cid := cid\<rparr>)"
    "transfer_command ((nvme_write n l b p1 p2)\<lparr>sqe_cid := cid\<rparr>)" for n l b p1 p2 cid
    by (simp_all add: nvme_read_def nvme_write_def io_opcode_u8_def)
  have area: "tame aloud base A (DmaStore (unat DATA_OFFSET) bs)" for A bs
    by (rule tame_behind) (simp add: DATA_OFFSET_def)
  show "pair_moves D (placed base) (tame aloud base transfer_command) (driver_read D slba count)"
    unfolding driver_read_def Let_def
    by (intro moves_rules io_submit_moves opcodes data_pointers_moves) (simp_all add: not_above_max)
  show "pair_moves D (placed base) (tame aloud base transfer_command) (driver_write D slba data)"
    unfolding driver_write_def Let_def
    by (intro moves_rules io_submit_moves opcodes data_pointers_moves area) (simp_all add: not_above_max)
qed

lemma identify_controller_moves [moves_rules]:
  "pair_moves D (placed base) (tame aloud base A) (driver_identify_controller D)"
  unfolding driver_identify_controller_def by (rule moves_rules)

end
