(* ===== verification/Open_Succeeds.thy ===== *)
theory Open_Succeeds
  imports Bring_Up Driver_Runs Disk_Refinement
begin

text \<open>
  \<open>open\<close> succeeds on every controller that follows the specification, and hands over a driver whose
  Reads and Writes implement the controller's disk.
\<close>

unbundle bit_operations_syntax

section \<open>Bringing up\<close>

text \<open>
  The structures the controller answers to Identify: entry size ranges that contain 64 and 16
  bytes, and the block size of the namespace.
\<close>

definition suitable :: "nvm_namespace \<Rightarrow> u8 list \<Rightarrow> (u32 \<Rightarrow> u8 list option) \<Rightarrow> bool" where
  "suitable ns idc idn \<longleftrightarrow> length idc = 4096 \<and> (\<forall>n data. idn n = Some data \<longrightarrow> length data = 4096) \<and>
     entry_size_accepted (field_le identify_controller ''sqes'' idc) 6 \<and>
     entry_size_accepted (field_le identify_controller ''cqes'' idc) 4 \<and>
     map_option block_size_of (idn (ns_id ns)) = Some (of_nat (ns_block_size ns))"

lemma entry_sizes_served:
  assumes ctl: "admin_server D base (doorbell_stride dr) latency idc idn idle busy" and "latency \<le> 200000"
    and ready: "admin_ready idle base m X dr w" and ok: "suitable ns idc idn"
  obtains q w' where "check_queue_entry_sizes D (dr, w) = (Ok (), (dr\<lparr>admin_queue := q\<rparr>, w'))"
    "admin_ready idle base (Suc m) X (dr\<lparr>admin_queue := q\<rparr>) w'"
proof -
  obtain q w' where id: "identify D IdController 0 (dr, w) = (Ok idc, (dr\<lparr>admin_queue := q\<rparr>, w'))"
      "admin_ready idle base (Suc m) X (dr\<lparr>admin_queue := q\<rparr>) w'"
    by (rule identify_controller_served [OF ctl assms(2) ready])
  have "read_from_prefix identify_controller idc = Some idc"
    using ok by (simp only: read_from_prefix_def identify_sizes) (simp add: suitable_def)
  then have "check_queue_entry_sizes D (dr, w) = (Ok (), (dr\<lparr>admin_queue := q\<rparr>, w'))"
    using ok by (simp add: check_queue_entry_sizes_def run_andthen id(1) run_ret Let_def suitable_def
        IO_SUBMISSION_ENTRY_SIZE_EXPONENT_def IO_COMPLETION_ENTRY_SIZE_EXPONENT_def)
  then show thesis using id(2) by (rule that)
qed

lemma queues_served:
  assumes ctl: "admin_server D base (doorbell_stride dr) latency idc idn idle busy" and lat: "latency \<le> 200000"
    and ready: "admin_ready idle base m X dr w" and none: "\<not> cq_made X" "\<not> sq_made X"
  obtains q w' where "create_io_queues D (dr, w) = (Ok (), (dr\<lparr>admin_queue := q\<rparr>, w'))"
    "admin_ready idle base (m + 2) (X\<lparr>cq_made := True, sq_made := True\<rparr>) (dr\<lparr>admin_queue := q\<rparr>) w'"
proof -
  let ?X = "X\<lparr>cq_made := True\<rparr>" and ?depth = "ucast QUEUE_DEPTH :: u16"
  let ?cq = "nvme_create_io_completion_queue IO_QUEUE_ID ?depth (io_completion_queue_physical_address dr)"
  let ?sq = "nvme_create_io_submission_queue IO_QUEUE_ID ?depth IO_QUEUE_ID (io_submission_queue_physical_address dr)"
  have base: "base = physical_address (drv_dma dr)" using ready by (simp add: admin_ready_def)
  have depth: "unat ?depth = 64" "0 < ?depth" by (simp_all add: QUEUE_DEPTH_def)
  have at: "io_completion_queue_physical_address dr = base + 0x3000" "io_submission_queue_physical_address dr = base + 0x2000"
    by (simp_all add: io_completion_queue_physical_address_def io_submission_queue_physical_address_def
        physical_address_at_def layout_defs base)
  note fields = queue_commands_name_their_queue [OF depth(2), of IO_QUEUE_ID "base + 0x3000" IO_QUEUE_ID]
    queue_commands_name_their_queue [OF depth(2), of IO_QUEUE_ID "base + 0x2000" IO_QUEUE_ID]
  have acc: "admin_accepts base X (dma w) (?cq\<lparr>sqe_cid := cid\<rparr>)" "admin_accepts base ?X m' (?sq\<lparr>sqe_cid := cid\<rparr>)"
    for cid m'
    using fields none depth(1) by (simp_all add: admin_accepts_def at Let_def IO_QUEUE_ID_def)
  obtain c1 q1 w1 X1 e1 where 1: "admin_submit D ?cq (dr, w) = (Ok c1, (dr\<lparr>admin_queue := q1\<rparr>, w1))"
      "admin_ready idle base (Suc m) X1 (dr\<lparr>admin_queue := q1\<rparr>) w1" "e1 = ?cq\<lparr>sqe_cid := next_cid (admin_queue dr)\<rparr>"
      "admin_performs base idc idn e1 X (dma w) X1 (dma w1) c1"
    by (rule admin_carried_out [OF ctl lat ready acc(1)])
  have r1: "is_success c1" "X1 = ?X"
    using 1(4) fields by (simp_all add: admin_performs_def 1(3) at Let_def)
  have ctl': "admin_server D base (doorbell_stride (dr\<lparr>admin_queue := q1\<rparr>)) latency idc idn idle busy"
    using ctl by simp
  let ?dr = "dr\<lparr>admin_queue := q1\<rparr>"
  obtain c2 q2 w2 X2 e2 where 2: "admin_submit D ?sq (?dr, w1) = (Ok c2, (?dr\<lparr>admin_queue := q2\<rparr>, w2))"
      "admin_ready idle base (Suc (Suc m)) X2 (?dr\<lparr>admin_queue := q2\<rparr>) w2"
      "e2 = ?sq\<lparr>sqe_cid := next_cid (admin_queue ?dr)\<rparr>" "admin_performs base idc idn e2 ?X (dma w1) X2 (dma w2) c2"
    by (rule admin_carried_out [OF ctl' lat 1(2) [unfolded r1(2)] acc(2)])
  have r2: "is_success c2" "X2 = X\<lparr>cq_made := True, sq_made := True\<rparr>"
    using 2(4) fields by (simp_all add: admin_performs_def 2(3) at Let_def)
  have "io_submission_queue_physical_address (dr\<lparr>admin_queue := q1\<rparr>) = io_submission_queue_physical_address dr"
    by (simp add: io_submission_queue_physical_address_def)
  then have "create_io_queues D (dr, w) = (Ok (), (dr\<lparr>admin_queue := q2\<rparr>, w2))"
    using 2(1) by (simp add: create_io_queues_def run_andthen run_gets 1(1) check_def r1(1) r2(1) run_of_outcome)
  moreover have "admin_ready idle base (m + 2) (X\<lparr>cq_made := True, sq_made := True\<rparr>) (dr\<lparr>admin_queue := q2\<rparr>) w2"
    using 2(2) r2(2) by simp
  ultimately show thesis by (rule that)
qed

text \<open>A block size that is not known is asked for, and remembered when there is such a namespace.\<close>

lemma block_size_asked:
  assumes ctl: "admin_server D base (doorbell_stride dr) latency idc idn idle busy" and "latency \<le> 200000"
    and ready: "admin_ready idle base m X dr w" and ok: "suitable ns idc idn" and none: "block_sizes dr n = None"
  obtains r q w' where "namespace_block_size D n (dr, w) = (r, (dr\<lparr>admin_queue := q,
      block_sizes := (block_sizes dr)(n := map_option block_size_of (idn n))\<rparr>, w'))"
    "answer r = map_option block_size_of (idn n)"
    "admin_ready idle base (Suc m) X (dr\<lparr>admin_queue := q\<rparr>) w'"
proof -
  obtain r q w' where id: "identify D IdNamespace n (dr, w) = (r, (dr\<lparr>admin_queue := q\<rparr>, w'))"
      "answer r = idn n" "admin_ready idle base (Suc m) X (dr\<lparr>admin_queue := q\<rparr>) w'"
    by (rule identify_served [OF ctl assms(2) ready, of IdNamespace n]) (auto simp: identified_def)
  have start: "namespace_block_size D n (dr, w) = identify_block_size D n (dr, w)"
    using none by (simp add: namespace_block_size_def run_andthen run_gets)
  have "fst (identify D IdNamespace n (dr, w)) \<noteq> Panic x" for x
    using safeD(3) [OF identify_safe, of dr "(dr, w)"] ready driver_at_self
    by (auto simp: admin_ready_def split: outcome.splits)
  then have panic: "r \<noteq> Panic x" for x by (simp add: id(1))
  show thesis
  proof (cases "idn n")
    case None
    then obtain e where "r = Err e" using id(2) panic by (cases r) auto
    moreover have "(block_sizes dr)(n := None) = block_sizes dr" using none by (simp add: fun_upd_idem)
    ultimately show thesis
      using id(3) by (intro that [of "Err e" q w']) (simp_all add: start identify_block_size_def run_andthen id(1) None)
  next
    case (Some data)
    then have "r = Ok data" "length data = 4096" using id(2) ok by (auto simp: answer_Some suitable_def)
    then show thesis
      using id(3) by (intro that [of "Ok (block_size_of data)" q w'])
        (simp_all add: start identify_block_size_def run_andthen id(1) Some read_from_prefix_namespace Let_def
          run_on_fst run_modify run_ret)
  qed
qed

lemma block_size_served:
  assumes ctl: "admin_server D base (doorbell_stride dr) latency idc idn idle busy" and "latency \<le> 200000"
    and ready: "admin_ready idle base m X dr w" and ok: "suitable ns idc idn" and none: "block_sizes dr (ns_id ns) = None"
  obtains q w' where "namespace_block_size D (ns_id ns) (dr, w) = (Ok (of_nat (ns_block_size ns)),
      (dr\<lparr>admin_queue := q, block_sizes := (block_sizes dr)(ns_id ns \<mapsto> of_nat (ns_block_size ns))\<rparr>, w'))"
    "admin_ready idle base (Suc m) X (dr\<lparr>admin_queue := q\<rparr>) w'"
  by (rule block_size_asked [OF assms]) (use ok in \<open>auto simp: suitable_def answer_Some intro: that\<close>)

section \<open>A conforming controller\<close>

text \<open>
  Both queues. \<open>idle m n X d mem\<close> says that \<open>m\<close> commands of the I/O queue and \<open>n\<close> of the admin queue
  were announced and completed, and that the controller's state is \<open>X\<close>. The admin queue serves its
  commands whatever \<open>m\<close> is; once both I/O queues exist, the I/O queue serves Reads and Writes on the disk,
  whatever \<open>n\<close> is. Each command ends within 200\,000 steps.
\<close>

definition both_queues ::
  "'d device \<Rightarrow> nvm_namespace \<Rightarrow> u64 \<Rightarrow> usize \<Rightarrow> nat \<Rightarrow> u8 list \<Rightarrow> (u32 \<Rightarrow> u8 list option) \<Rightarrow>
   (nat \<Rightarrow> nat \<Rightarrow> disk enabled \<Rightarrow> 'd \<Rightarrow> mem \<Rightarrow> bool) \<Rightarrow>
   (nat \<Rightarrow> nat \<Rightarrow> submission_queue_entry \<Rightarrow> nat \<Rightarrow> disk enabled \<Rightarrow> 'd \<Rightarrow> mem \<Rightarrow> bool) \<Rightarrow>
   (nat \<Rightarrow> nat \<Rightarrow> submission_queue_entry \<Rightarrow> nat \<Rightarrow> disk \<Rightarrow> 'd \<Rightarrow> mem \<Rightarrow> bool) \<Rightarrow> bool" where
  "both_queues D ns base stride latency idc idn idle abusy busy \<longleftrightarrow> latency \<le> 200000 \<and>
     (\<forall>m. admin_server D base stride latency idc idn (idle m) (abusy m)) \<and>
     (\<forall>n region. physical_address region = base \<longrightarrow>
        storage_controller D ns region stride latency (\<lambda>m K. idle m n (queues_made K)) (busy n))"

lemma both_queuesD:
  assumes "both_queues D ns base stride latency idc idn idle abusy busy"
  shows "latency \<le> 200000" "admin_server D base stride latency idc idn (idle m) (abusy m)"
    "physical_address region = base \<Longrightarrow>
      storage_controller D ns region stride latency (\<lambda>m K. idle m n (queues_made K)) (busy n)"
  using assms unfolding both_queues_def by blast+

text \<open>
  A machine whose driver is attached to the disk \<open>K\<close>, with the admin queue idle as well, and with no
  block size in its cache but those the controller would answer.
\<close>

definition connected ::
  "'d device \<Rightarrow> nvm_namespace \<Rightarrow> nat \<Rightarrow> u8 list \<Rightarrow> (u32 \<Rightarrow> u8 list option) \<Rightarrow>
   (nat \<Rightarrow> nat \<Rightarrow> disk enabled \<Rightarrow> 'd \<Rightarrow> mem \<Rightarrow> bool) \<Rightarrow>
   (nat \<Rightarrow> nat \<Rightarrow> submission_queue_entry \<Rightarrow> nat \<Rightarrow> disk enabled \<Rightarrow> 'd \<Rightarrow> mem \<Rightarrow> bool) \<Rightarrow>
   (nat \<Rightarrow> nat \<Rightarrow> submission_queue_entry \<Rightarrow> nat \<Rightarrow> disk \<Rightarrow> 'd \<Rightarrow> mem \<Rightarrow> bool) \<Rightarrow> disk \<Rightarrow> 'd machine \<Rightarrow> bool" where
  "connected D ns latency idc idn idle abusy busy K s \<longleftrightarrow>
     both_queues D ns (physical_address (drv_dma (fst s))) (doorbell_stride (fst s)) latency idc idn idle abusy busy \<and>
     suitable ns idc idn \<and>
     (\<forall>n b. block_sizes (fst s) n = Some b \<longrightarrow> map_option block_size_of (idn n) = Some b) \<and>
     (\<exists>n. at_counts (admin_queue (fst s)) n n \<and>
        attached D ns latency (\<lambda>m K. idle m n (queues_made K)) (busy n) K s)"

text \<open>
  A controller that follows the specification, with everything \<open>open\<close> and the transfers rely on: the
  enable handshake within fewer than 1000 reads of CSTS, both queues, Identify structures the
  driver accepts, and a namespace \<open>ns\<close> with the disk \<open>K\<close>.
\<close>

definition conforming ::
  "'d device \<Rightarrow> nvm_namespace \<Rightarrow> u64 \<Rightarrow> u64 \<Rightarrow> nat \<Rightarrow> nat \<Rightarrow> (boot_phase \<Rightarrow> 'd \<Rightarrow> bool) \<Rightarrow>
   u8 list \<Rightarrow> (u32 \<Rightarrow> u8 list option) \<Rightarrow> (nat \<Rightarrow> nat \<Rightarrow> disk enabled \<Rightarrow> 'd \<Rightarrow> mem \<Rightarrow> bool) \<Rightarrow>
   (nat \<Rightarrow> nat \<Rightarrow> submission_queue_entry \<Rightarrow> nat \<Rightarrow> disk enabled \<Rightarrow> 'd \<Rightarrow> mem \<Rightarrow> bool) \<Rightarrow>
   (nat \<Rightarrow> nat \<Rightarrow> submission_queue_entry \<Rightarrow> nat \<Rightarrow> disk \<Rightarrow> 'd \<Rightarrow> mem \<Rightarrow> bool) \<Rightarrow> disk \<Rightarrow> bool" where
  "conforming D ns base cap rounds latency booting idc idn idle abusy busy K \<longleftrightarrow>
     boots D base cap rounds booting (idle 0) (no_queues K) \<and> rounds < 1000 \<and>
     both_queues D ns base (cap_stride cap) latency idc idn idle abusy busy \<and> suitable ns idc idn \<and>
     32 \<le> ns_block_size ns \<and> ns_block_size ns \<le> 2 ^ 32"

lemma conformingD:
  assumes "conforming D ns base cap rounds latency booting idc idn idle abusy busy K"
  shows "boots D base cap rounds booting (idle 0) (no_queues K)" "rounds < 1000"
    "both_queues D ns base (cap_stride cap) latency idc idn idle abusy busy" "suitable ns idc idn"
    "32 \<le> ns_block_size ns" "ns_block_size ns \<le> 2 ^ 32"
  using assms unfolding conforming_def by blast+

text \<open>The part of \<open>open\<close> that runs on the new driver.\<close>

lemma bring_up_succeeds:
  assumes ctl: "conforming D ns base cap rounds latency booting idc idn idle abusy busy K"
    and dr: "dr = driver_new bar region cap (ns_id ns)" "physical_address region = base" "driver_ok dr"
    and found: "booting Found (dev w)" and zero: "rings_zero (dma w)"
  obtains q w' n where "bring_up D (dr, w) =
      (Ok (), (dr\<lparr>admin_queue := q, block_sizes := [ns_id ns \<mapsto> of_nat (ns_block_size ns)]\<rparr>, w'))"
    "at_counts q n n" "idle 0 n (queues_made K) (dev w') (dma w')"
proof -
  note law = conformingD [OF ctl] both_queuesD(1) [OF conformingD(3) [OF ctl]]
  have fields: "drv_nsid dr = ns_id ns" "block_sizes dr = Map.empty" "doorbell_stride dr = cap_stride cap"
    "physical_address (drv_dma dr) = base" "at_counts (admin_queue dr) 0 0"
    using dr(2) by (simp_all add: dr(1) driver_new_def at_counts_new)
  have server: "admin_server D base (doorbell_stride (dr\<lparr>admin_queue := q\<rparr>)) latency idc idn (idle 0) (abusy 0)"
    "admin_server D base (doorbell_stride dr) latency idc idn (idle 0) (abusy 0)" for q
    using both_queuesD(2) [OF law(3)] fields(3) by simp_all
  have hw: "hardware_ok (drv_bar dr) (drv_dma dr) (doorbell_stride dr)" using dr(3) by (simp add: driver_ok_def)
  obtain w1 where 1: "reset_and_enable D dr w = (Ok (), w1)" "idle 0 0 (no_queues K) (dev w1) (dma w1)" "dma w1 = dma w"
    by (rule reset_succeeds [OF law(1) [folded fields(4)] law(2) hw found zero])
  define v1 where "v1 = snd (pause w1)"
  have p1: "pause w1 = (Ok (), v1)" by (simp add: v1_def run_access)
  have r1: "admin_ready (idle 0) base 0 (no_queues K) dr v1"
    using 1(2) dr(3) fields by (simp add: v1_def run_access admin_ready_def)
  obtain q2 w2 where 2: "check_queue_entry_sizes D (dr, v1) = (Ok (), (dr\<lparr>admin_queue := q2\<rparr>, w2))"
      "admin_ready (idle 0) base (Suc 0) (no_queues K) (dr\<lparr>admin_queue := q2\<rparr>) w2"
    using entry_sizes_served [OF server(2) law(7) r1 law(4)] by blast
  define v2 where "v2 = snd (pause w2)"
  have p2: "pause w2 = (Ok (), v2)" by (simp add: v2_def run_access)
  have r2: "admin_ready (idle 0) base (Suc 0) (no_queues K) (dr\<lparr>admin_queue := q2\<rparr>) v2"
    using 2(2) by (simp add: v2_def run_access)
  have fresh: "\<not> cq_made (no_queues K)" "\<not> sq_made (no_queues K)"
    "(no_queues K)\<lparr>cq_made := True, sq_made := True\<rparr> = queues_made K"
    by (simp_all add: no_queues_def queues_made_def)
  obtain q3 w3 where 3: "create_io_queues D (dr\<lparr>admin_queue := q2\<rparr>, v2) = (Ok (), (dr\<lparr>admin_queue := q3\<rparr>, w3))"
      "admin_ready (idle 0) base (Suc 0 + 2) (queues_made K) (dr\<lparr>admin_queue := q3\<rparr>) w3"
    using queues_served [OF server(1) law(7) r2 fresh(1,2)] by (simp add: fresh(3)) blast
  define v3 where "v3 = snd (pause w3)"
  have p3: "pause w3 = (Ok (), v3)" by (simp add: v3_def run_access)
  have r3: "admin_ready (idle 0) base (Suc 0 + 2) (queues_made K) (dr\<lparr>admin_queue := q3\<rparr>) v3"
    using 3(2) by (simp add: v3_def run_access)
  have none: "block_sizes (dr\<lparr>admin_queue := q3\<rparr>) (ns_id ns) = None" using fields(2) by simp
  obtain q4 w4 where 4: "namespace_block_size D (ns_id ns) (dr\<lparr>admin_queue := q3\<rparr>, v3) = (Ok (of_nat (ns_block_size ns)),
      (dr\<lparr>admin_queue := q4, block_sizes := [ns_id ns \<mapsto> of_nat (ns_block_size ns)]\<rparr>, w4))"
      "admin_ready (idle 0) base (Suc (Suc 0 + 2)) (queues_made K) (dr\<lparr>admin_queue := q4\<rparr>) w4"
    using block_size_served [OF server(1) law(7) r3 law(4) none] fields(2) by simp blast
  have "bring_up D (dr, w) =
      (Ok (), (dr\<lparr>admin_queue := q4, block_sizes := [ns_id ns \<mapsto> of_nat (ns_block_size ns)]\<rparr>, w4))"
    by (simp add: bring_up_def run_andthen run_gets run_on_snd 1(1) p1 2(1) p2 3(1) p3 4(1) fields(1) run_ret)
  then show thesis by (rule that) (use 4(2) in \<open>auto simp: admin_ready_def\<close>)
qed

section \<open>Opening\<close>

text \<open>
  A host on which the device can be opened: no kernel driver is bound, the command register can be
  read and written, the BAR and one hugepage can be mapped, and the BAR reaches the doorbells.
\<close>

definition host_ready :: "host \<Rightarrow> rtext \<Rightarrow> nvme_bar \<Rightarrow> dma_region \<Rightarrow> bool" where
  "host_ready h bdf bar region \<longleftrightarrow> refuse_if_kernel_driver_bound h bdf = Ok () \<and>
     (\<exists>bs. host_read_command h bdf = Inr bs) \<and> (\<forall>bs. host_write_command h bdf bs = None) \<and>
     (\<forall>cs. fst (bar_map (host_bar h) bdf 0 cs) = Ok bar) \<and> (\<forall>cs. fst (alloc_huge (host_mem h) cs) = Ok region)"

lemma open_attaches:
  assumes ctl: "conforming D ns (physical_address region) cap rounds latency booting idc idn idle abusy busy K"
    and host: "host_ready h bdf bar region" and size: "4096 + 3 * unat (cap_stride cap) + 4 \<le> unat (bar_length bar)"
    and found: "booting Found (dev w)" and zero: "dma w = (\<lambda>_. 0)"
  obtains dr cs' w' where "driver_open D h bdf (ns_id ns) (cs, w) = (Ok dr, (cs', w'))"
    "connected D ns latency idc idn idle abusy busy K (dr, w')" "drv_bar dr = bar" "doorbell_stride dr = cap_stride cap"
proof -
  note law = conformingD [OF ctl]
  note still = step_booting [OF law(1)]
  define w1 where "w1 = snd (pause (snd (enable_bus_master h bdf w)))"
  have bus: "fst (enable_bus_master h bdf w) = Ok ()" "dev w1 = dev w" "dma w1 = dma w"
    using host by (auto simp: host_ready_def enable_bus_master_def run_access w1_def Let_def)
  obtain cs1 where bar: "bar_map (host_bar h) bdf 0 cs = (Ok bar, cs1)"
    using host unfolding host_ready_def by (metis prod.collapse)
  obtain cs2 where huge: "alloc_huge (host_mem h) cs1 = (Ok region, cs2)"
    using host unfolding host_ready_def by (metis prod.collapse)
  have "reg_ok 8 bar CAP" using size by (simp add: reg_ok_def register_defs)
  then obtain w2 where cap: "read_capabilities D bar w1 = (Ok cap, w2)"
    and f1: "booting Found (dev w2)" "dma w2 = dma w"
    using still [of Found w1] found bus(2,3) bootsD(3,4) [OF law(1)]
    by (simp add: read_capabilities_def reg64.rd_allowed)
  let ?dr = "driver_new bar region cap (ns_id ns)"
  let ?w = "snd (pause w2)"
  have len: "dma_length region = HUGE_PAGE_SIZE" by (rule alloc_huge_length [OF huge])
  have ok: "driver_ok ?dr" by (rule driver_ok_new [OF len size])
  have "booting Found (dev ?w)" "rings_zero (dma ?w)"
    using f1 zero by (simp_all add: run_access rings_zero_def)
  then obtain q w' n where up: "bring_up D (?dr, ?w) =
      (Ok (), (?dr\<lparr>admin_queue := q, block_sizes := [ns_id ns \<mapsto> of_nat (ns_block_size ns)]\<rparr>, w'))"
    and at: "at_counts q n n" and idle: "idle 0 n (queues_made K) (dev w') (dma w')"
    using bring_up_succeeds [OF ctl refl refl ok] by blast
  let ?up = "?dr\<lparr>admin_queue := q, block_sizes := [ns_id ns \<mapsto> of_nat (ns_block_size ns)]\<rparr>"
  have pause: "fst (pause v) = Ok ()" for v :: "'a world" by (simp add: run_access)
  have refuse: "refuse_if_kernel_driver_bound h bdf = Ok ()" using host by (simp add: host_ready_def)
  have eq: "driver_open D h bdf (ns_id ns) (cs, w) = (Ok ?up, (cs2, w'))"
    using cap up
    by (simp add: driver_open_def run_andthen run_of_outcome run_on_snd run_on_fst or_drop_def refuse bus(1) pause
        w1_def [symmetric] bar huge run_ret run_driver_def)
  have "driver_ok ?up"
    using open_establishes_the_invariant [OF eq] size by (simp add: driver_new_def)
  moreover have "drv_dma ?up = region" "doorbell_stride ?up = cap_stride cap" "drv_nsid ?up = ns_id ns" "drv_bar ?up = bar"
    "at_counts (io_queue ?up) 0 0"
    by (simp_all add: driver_new_def at_counts_new)
  moreover note both_queuesD(1) [OF law(3)] both_queuesD(3) [OF law(3), OF refl, of n]
  ultimately have "attached D ns latency (\<lambda>m K. idle m n (queues_made K)) (busy n) K (?up, w')"
    using law(5,6) idle by (auto simp: attached_def set_up_def)
  then have "connected D ns latency idc idn idle abusy busy K (?up, w')"
    unfolding connected_def fst_conv using law(3,4) at
    by (intro conjI exI [of _ n]) (simp_all add: driver_new_def suitable_def)
  then show thesis by (rule that [OF eq]) (simp_all add: driver_new_def)
qed

text \<open>
  C5: \<open>open\<close> succeeds on every controller that follows the specification, and what it returns can be
  used. Take a host on which the device can be mapped, zeroed memory, and a controller that
  performs the enable handshake when CC is written and the queue registers were set before,
  serves Identify, and creates the I/O queues it is asked for, completion queue first, if they lie
  where its transfers will look for them. Then \<open>open\<close> returns a driver that is connected
  to the controller: attached to its disk, so that from here on Reads and Writes implement the abstract
  disk, and with an idle admin queue that answers Identify.
\<close>

theorem open_attaches_to_the_disk:
  assumes "conforming D ns (physical_address region) cap rounds latency booting idc idn idle abusy busy K"
    and "host_ready h bdf bar region" and "4096 + 3 * unat (cap_stride cap) + 4 \<le> unat (bar_length bar)"
    and "booting Found (dev w)" and "dma w = (\<lambda>_. 0)"
  shows "\<exists>dr cs' w'. driver_open D h bdf (ns_id ns) (cs, w) = (Ok dr, (cs', w')) \<and>
    connected D ns latency idc idn idle abusy busy K (dr, w')"
  by (rule open_attaches [OF assms]) blast

end
