(* ===== verification/Model_Controller.thy ===== *)
theory Model_Controller
  imports Disk_Examples Open_Succeeds Obedience
begin

text \<open>
  A concrete controller for the whole program: registers, the enable handshake, the admin queue with
  Identify and the creation of the I/O queues, and a disk behind the I/O queue. It follows every
  contract of the development (\<open>boots\<close>, \<open>admin_server\<close>, \<open>storage_controller\<close>, \<open>obedient\<close>), so their
  theorems apply to it.
\<close>

unbundle bit_operations_syntax

section \<open>The controller\<close>

text \<open>
  Its state: RDY, the queue registers as they were written, for each queue how many commands were
  announced and how many were served, which I/O queues exist, and the disk.
\<close>

record nvme_state =
  st_ready :: bool
  st_aqa :: "u32 option"
  st_asq :: "u64 option"
  st_acq :: "u64 option"
  st_admin :: "nat \<times> nat"
  st_io :: "nat \<times> nat"
  st_cq :: bool
  st_sq :: bool
  st_disk :: disk

definition reset_state :: "disk \<Rightarrow> nvme_state" where
  "reset_state K = \<lparr>st_ready = False, st_aqa = None, st_asq = None, st_acq = None, st_admin = (0, 0),
     st_io = (0, 0), st_cq = False, st_sq = False, st_disk = K\<rparr>"

definition enabled_of :: "nvme_state \<Rightarrow> disk enabled" where
  "enabled_of d = \<lparr>cq_made = st_cq d, sq_made = st_sq d, medium = st_disk d\<rparr>"

definition running :: "u64 \<Rightarrow> nvme_state \<Rightarrow> bool" where
  "running base d \<longleftrightarrow> st_ready d \<and> st_aqa d = Some 0x3F003F \<and> st_asq d = Some base"

text \<open>The region, as far as its bus address goes.\<close>

definition region_at :: "u64 \<Rightarrow> dma_region" where
  "region_at base = \<lparr>virtual_address = 0, dma_length = HUGE_PAGE_SIZE, physical_address = base\<rparr>"

text \<open>What Identify asked for (nothing for the other commands), and the completion: Invalid Namespace if there is none.\<close>

definition admin_answer :: "u8 list \<Rightarrow> (u32 \<Rightarrow> u8 list option) \<Rightarrow> submission_queue_entry \<Rightarrow> u8 list option" where
  "admin_answer idc idn e =
     (if sqe_opc e = 6 then identified idc idn (sqe_cdw10 e = 1) (sqe_nsid e) else Some [])"

definition admin_completion :: "nat \<Rightarrow> bool \<Rightarrow> submission_queue_entry \<Rightarrow> completion_queue_entry" where
  "admin_completion n success e = \<lparr>cqe_result = 0, cqe_reserved = 0, cqe_sq_head = 0, cqe_sq_id = 0,
     cqe_cid = sqe_cid e, cqe_status = (if even (n div 64) then 1 else 0) + (if success then 0 else 0x16)\<rparr>"

text \<open>One command of a queue; an entry that it is not prepared for is skipped.\<close>

definition serve_admin ::
  "u64 \<Rightarrow> u8 list \<Rightarrow> (u32 \<Rightarrow> u8 list option) \<Rightarrow> nvme_state \<Rightarrow> mem \<Rightarrow> nvme_state \<times> mem" where
  "serve_admin base idc idn d m =
     (let n = snd (st_admin d); e = sqe_of_bytes (load m (64 * (n mod 64)) 64);
          d' = d\<lparr>st_admin := (fst (st_admin d), Suc n)\<rparr>
      in if \<not> admin_accepts base (enabled_of d) m e then (d', m)
         else
           (d'\<lparr>st_cq := st_cq d \<or> sqe_opc e = 5, st_sq := st_sq d \<or> sqe_opc e = 1\<rparr>,
            store (store m (identify_page base e) (case admin_answer idc idn e of None \<Rightarrow> [] | Some data \<Rightarrow> data))
              (0x1000 + 16 * (n mod 64)) (cqe_bytes (admin_completion n (admin_answer idc idn e \<noteq> None) e))))"

definition serve_io :: "nvm_namespace \<Rightarrow> u64 \<Rightarrow> nvme_state \<Rightarrow> mem \<Rightarrow> nvme_state \<times> mem" where
  "serve_io ns base d m =
     (let n = snd (st_io d); e = sqe_of_bytes (load m (0x2000 + 64 * (n mod 64)) 64);
          d' = d\<lparr>st_io := (fst (st_io d), Suc n)\<rparr>
      in if \<not> proper ns (region_at base) m e then (d', m)
         else case disk_serve ns (region_at base) e (st_disk d) m of (K, m') \<Rightarrow>
           (d'\<lparr>st_disk := K\<rparr>, store m' (0x3000 + 16 * (n mod 64)) (cqe_bytes (disk_completion ns n e))))"

definition model_step ::
  "nvm_namespace \<Rightarrow> u64 \<Rightarrow> u8 list \<Rightarrow> (u32 \<Rightarrow> u8 list option) \<Rightarrow> nvme_state \<Rightarrow> mem \<Rightarrow> nvme_state \<times> mem" where
  "model_step ns base idc idn d m =
     (if \<not> running base d then (d, m)
      else if snd (st_admin d) < fst (st_admin d) then serve_admin base idc idn d m
      else if st_sq d \<and> snd (st_io d) < fst (st_io d) then serve_io ns base d m
      else (d, m))"

text \<open>The registers; CAP is 0, so the doorbells are 4 bytes apart.\<close>

definition model_read32 :: "nvme_state \<Rightarrow> usize \<Rightarrow> u32 \<times> nvme_state" where
  "model_read32 d reg = (if reg = CSTS then if st_ready d then 1 else 0 else 0, d)"

definition model_write32 :: "nvme_state \<Rightarrow> usize \<Rightarrow> u32 \<Rightarrow> nvme_state" where
  "model_write32 d reg v =
     (if reg = CC then (if v AND 1 = 0 then reset_state (st_disk d) else d\<lparr>st_ready := True\<rparr>)
      else if reg = AQA then d\<lparr>st_aqa := Some v\<rparr>
      else if reg = submission_doorbell 0 4 then d\<lparr>st_admin := (Suc (fst (st_admin d)), snd (st_admin d))\<rparr>
      else if reg = submission_doorbell 1 4 then d\<lparr>st_io := (Suc (fst (st_io d)), snd (st_io d))\<rparr>
      else d)"

definition model_write64 :: "nvme_state \<Rightarrow> usize \<Rightarrow> u64 \<Rightarrow> nvme_state" where
  "model_write64 d reg v =
     (if reg = ASQ then d\<lparr>st_asq := Some v\<rparr> else if reg = ACQ then d\<lparr>st_acq := Some v\<rparr> else d)"

definition model_controller ::
  "nvm_namespace \<Rightarrow> u64 \<Rightarrow> u8 list \<Rightarrow> (u32 \<Rightarrow> u8 list option) \<Rightarrow> nvme_state device" where
  "model_controller ns base idc idn =
     \<lparr>dev_step = model_step ns base idc idn, dev_read32 = model_read32, dev_read64 = (\<lambda>d reg. (0, d)),
      dev_write32 = model_write32, dev_write64 = model_write64\<rparr>"

lemma model_simps [simp]:
  "dev_step (model_controller ns base idc idn) = model_step ns base idc idn"
  "dev_read32 (model_controller ns base idc idn) = model_read32"
  "dev_read64 (model_controller ns base idc idn) d reg = (0, d)"
  "dev_write32 (model_controller ns base idc idn) = model_write32"
  "dev_write64 (model_controller ns base idc idn) = model_write64"
  by (simp_all add: model_controller_def)

lemma reset_simps [simp]:
  "st_ready (reset_state K) = False" "st_admin (reset_state K) = (0, 0)" "st_io (reset_state K) = (0, 0)"
  "st_disk (reset_state K) = K" "st_cq (reset_state K) = False" "st_sq (reset_state K) = False"
  by (simp_all add: reset_state_def)

lemma model_registers:
  "model_write32 d CC v = (if v AND 1 = 0 then reset_state (st_disk d) else d\<lparr>st_ready := True\<rparr>)"
  "model_write32 d AQA v = d\<lparr>st_aqa := Some v\<rparr>"
  "model_write32 d (submission_doorbell 0 4) v = d\<lparr>st_admin := (Suc (fst (st_admin d)), snd (st_admin d))\<rparr>"
  "model_write32 d (submission_doorbell 1 4) v = d\<lparr>st_io := (Suc (fst (st_io d)), snd (st_io d))\<rparr>"
  "model_write32 d (completion_doorbell 0 4) v = d" "model_write32 d (completion_doorbell 1 4) v = d"
  "model_write64 d ASQ u = d\<lparr>st_asq := Some u\<rparr>" "model_write64 d ACQ u = d\<lparr>st_acq := Some u\<rparr>"
  by (simp_all add: model_write32_def model_write64_def register_defs submission_doorbell_def completion_doorbell_def)

section \<open>It boots\<close>

fun model_booting :: "u64 \<Rightarrow> disk \<Rightarrow> boot_phase \<Rightarrow> nvme_state \<Rightarrow> bool" where
  "model_booting base K Found d = (\<not> st_ready d \<and> st_disk d = K)"
| "model_booting base K (Stopping k) d = (d = reset_state K)"
| "model_booting base K (Stopped a s c) d = (d = (reset_state K)\<lparr>st_aqa := a, st_asq := s, st_acq := c\<rparr>)"
| "model_booting base K (Starting k) d = (d = (reset_state K)\<lparr>st_aqa := Some 0x3F003F, st_asq := Some base,
     st_acq := Some (base + 0x1000), st_ready := True\<rparr>)"

text \<open>With \<open>m\<close> I/O commands and \<open>n\<close> admin commands served, and nothing announced.\<close>

definition model_idle :: "u64 \<Rightarrow> nat \<Rightarrow> nat \<Rightarrow> disk enabled \<Rightarrow> nvme_state \<Rightarrow> mem \<Rightarrow> bool" where
  "model_idle base m n X d mem \<longleftrightarrow> running base d \<and> st_admin d = (n, n) \<and> st_io d = (m, m) \<and>
     X = enabled_of d \<and> ring_fresh 0x1000 mem n \<and> ring_fresh 0x3000 mem m"

lemma zero_ring_fresh:
  assumes "\<And>i. co \<le> i \<Longrightarrow> i < co + 0x400 \<Longrightarrow> mem i = 0"
  shows "ring_fresh co mem 0"
  unfolding ring_fresh_def
proof (intro allI impI)
  fix i assume "0 \<le> i \<and> i < 0 + (64 :: nat)"
  then have i: "i < 64" by simp
  have "load mem (co + 16 * (i mod 64)) 16 = load (\<lambda>_. 0) (co + 16 * (i mod 64)) 16"
    by (rule load_cong, rule assms) (use i in simp_all)
  then have "slot_entry co mem i = slot_entry co (\<lambda>_. 0) i" by (simp add: slot_entry_def)
  then show "phase (slot_entry co mem i) \<noteq> even (i div 64)" using i by (simp add: slot_entry_zeros)
qed

lemma model_boots:
  "boots (model_controller ns base idc idn) base 0 0 (model_booting base K)
     (model_idle base 0) (no_queues K)"
proof -
  have blank: "(reset_state K)\<lparr>st_aqa := None, st_asq := None, st_acq := None\<rparr> = reset_state K"
    by (simp add: reset_state_def)
  have still: "model_booting base K ph d \<Longrightarrow> model_step ns base idc idn d mem = (d, mem)" for ph d mem
    by (cases ph) (auto simp: model_step_def running_def)
  have reg: "model_read32 d CSTS = (if st_ready d then 1 else 0, d)" "snd (model_read32 d CC) = d" for d
    by (simp_all add: model_read32_def)
  show ?thesis
    unfolding boots_def model_simps
    by (intro conjI allI impI) (auto simp: blank still reg model_registers model_idle_def running_def
        enabled_of_def no_queues_def rings_zero_def intro: zero_ring_fresh)
qed

section \<open>Its admin queue\<close>

definition model_abusy ::
  "u64 \<Rightarrow> nat \<Rightarrow> nat \<Rightarrow> submission_queue_entry \<Rightarrow> nat \<Rightarrow> disk enabled \<Rightarrow> nvme_state \<Rightarrow> mem \<Rightarrow> bool" where
  "model_abusy base m n e b X d mem \<longleftrightarrow> running base d \<and> st_admin d = (Suc n, n) \<and> st_io d = (m, m) \<and>
     X = enabled_of d \<and> ring_fresh 0x1000 mem n \<and> ring_fresh 0x3000 mem m \<and>
     e = sqe_of_bytes (load mem (64 * (n mod 64)) 64) \<and> admin_accepts base X mem e"

lemma admin_completion_fields:
  "phase (admin_completion n s e) = even (n div 64)" "cqe_cid (admin_completion n s e) = sqe_cid e"
  "is_success (admin_completion n s e) = s"
  by (simp_all add: admin_completion_def phase_def is_success_def status_code_def status_code_type_def)

lemma running_update [simp]:
  "running base (d\<lparr>st_admin := a\<rparr>) = running base d" "running base (d\<lparr>st_io := a\<rparr>) = running base d"
  "running base (d\<lparr>st_cq := c\<rparr>) = running base d" "running base (d\<lparr>st_sq := c\<rparr>) = running base d"
  "running base (d\<lparr>st_disk := K\<rparr>) = running base d"
  by (simp_all add: running_def)

lemma admin_serves:
  assumes busy: "model_abusy base m n e b X d mem" and len: "length idc = 4096" "\<forall>n data. idn n = Some data \<longrightarrow> length data = 4096"
  obtains d' mem' X' where "serve_admin base idc idn d mem = (d', mem')"
    "\<forall>i. \<not> admin_touches base mem e i \<longrightarrow> mem' i = mem i" "model_idle base m (Suc n) X' d' mem'"
    "slot_entry 0x1000 mem' n = admin_completion n (admin_answer idc idn e \<noteq> None) e"
    "admin_performs base idc idn e X mem X' mem' (admin_completion n (admin_answer idc idn e \<noteq> None) e)"
proof -
  let ?page = "identify_page base e" and ?slot = "0x1000 + 16 * (n mod 64)" and ?a = "admin_answer idc idn e"
  let ?data = "case ?a of None \<Rightarrow> [] | Some data \<Rightarrow> data" and ?c = "admin_completion n (?a \<noteq> None) e"
  let ?m = "store mem ?page ?data"
  let ?mem = "store ?m ?slot (cqe_bytes ?c)"
  let ?d = "d\<lparr>st_admin := (Suc n, Suc n), st_cq := st_cq d \<or> sqe_opc e = 5, st_sq := st_sq d \<or> sqe_opc e = 1\<rparr>"
  have b: "running base d" "st_admin d = (Suc n, n)" "st_io d = (m, m)" "X = enabled_of d" "ring_fresh 0x1000 mem n"
    "e = sqe_of_bytes (load mem (64 * (n mod 64)) 64)" "admin_accepts base X mem e"
    and io: "ring_fresh 0x3000 mem m"
    using busy unfolding model_abusy_def by blast+
  have slot: "n mod 64 < 64" by simp
  have page: "sqe_opc e = 6 \<Longrightarrow> 0x5000 \<le> ?page" using b(7) by (auto simp: admin_accepts_def)
  have data: "length ?data \<le> 4096" "sqe_opc e \<noteq> 6 \<Longrightarrow> ?data = []" "?a = Some x \<Longrightarrow> sqe_opc e = 6 \<Longrightarrow> length x = 4096" for x
    using len by (auto simp: admin_answer_def identified_def split: option.split if_splits)
  have run: "serve_admin base idc idn d mem = (?d, ?mem)"
    using b(2,4,7) by (simp add: serve_admin_def Let_def flip: b(6))
  have touch: "?mem i = mem i" if i: "\<not> admin_touches base mem e i" for i
  proof -
    have "?mem i = ?m i" using i slot by (intro store_outside) (auto simp: admin_touches_def)
    also have "\<dots> = mem i" using i data(1,2) by (cases "sqe_opc e = 6") (auto simp: admin_touches_def store_outside)
    finally show ?thesis .
  qed
  have fresh: "ring_fresh co ?m k" if "ring_fresh co mem k" "co \<le> 0x3000" for co k
    using that page data(2) by (cases "sqe_opc e = 6") (simp_all add: ring_fresh_away)
  have "ring_fresh 0x1000 ?mem (Suc n)"
    by (rule ring_fresh_post [OF fresh [OF b(5)]]) (simp_all add: admin_completion_fields)
  moreover have "?slot + 16 \<le> 0x1400" using slot by linarith
  then have "ring_fresh 0x3000 ?mem m" using fresh [OF io] by (simp add: ring_fresh_away)
  ultimately have idle: "model_idle base m (Suc n) (enabled_of ?d) ?d ?mem" using b by (simp add: model_idle_def)
  have "load ?mem ?page 4096 = x" if x: "?a = Some x" "sqe_opc e = 6" for x
  proof -
    have "?slot + 16 \<le> 0x1400" using slot by linarith
    then have "load ?mem ?page 4096 = load ?m ?page 4096" using page [OF x(2)] by (intro load_store_disjoint) simp
    then show ?thesis using load_store_same [of mem ?page x] data(3) [OF x] by (simp add: x(1))
  qed
  then have fin: "admin_performs base idc idn e X mem (enabled_of ?d) ?mem ?c"
    using b(7) by (auto simp: admin_performs_def admin_completion_fields enabled_of_def b(4) admin_accepts_def
        admin_answer_def split: option.split)
  show thesis by (rule that [OF run _ idle _ fin]) (use touch in blast, simp add: slot_entry_post)
qed

lemma model_admin_server:
  assumes len: "length idc = 4096" "\<forall>n data. idn n = Some data \<longrightarrow> length data = 4096"
  shows "admin_server (model_controller ns base idc idn) base 4 0 idc idn (model_idle base m) (model_abusy base m)"
  unfolding admin_server_def queue_server_def model_simps
proof (intro conjI allI impI)
  fix n X d mem assume idle: "model_idle base m n X d mem"
  then have step: "model_step ns base idc idn d mem = (d, mem)"
    by (simp add: model_idle_def model_step_def)
  show "snd (model_step ns base idc idn d mem) = mem" "model_idle base m n X (fst (model_step ns base idc idn d mem)) mem"
    using idle by (simp_all add: step)
  show "model_idle base m n X d (store mem off bs)" if "clear_of_rings off (length bs)" for off bs
    using idle that by (auto simp: model_idle_def clear_of_rings_def ring_fresh_away)
  show "model_idle base m n X (model_write32 d (completion_doorbell 0 4) v) mem" for v
    using idle by (simp add: model_registers)
  show "let e = sqe_of_bytes (load mem (0 + 64 * (n mod 64)) 64) in
      accepts (admin_commands base idc idn) X mem e \<longrightarrow> model_abusy base m n e 0 X
        (model_write32 d (submission_doorbell 0 4) (of_nat (Suc n mod 64))) mem"
    using idle by (simp add: model_registers model_abusy_def model_idle_def Let_def admin_commands_def enabled_of_def)
next
  fix n e b X d mem assume busy: "model_abusy base m n e b X d mem"
  obtain d' mem' X' where r: "serve_admin base idc idn d mem = (d', mem')"
    and same: "\<forall>i. \<not> admin_touches base mem e i \<longrightarrow> mem' i = mem i" and idle: "model_idle base m (Suc n) X' d' mem'"
    and slot: "slot_entry 0x1000 mem' n = admin_completion n (admin_answer idc idn e \<noteq> None) e"
    and fin: "admin_performs base idc idn e X mem X' mem' (admin_completion n (admin_answer idc idn e \<noteq> None) e)"
    by (rule admin_serves [OF busy len])
  have "model_step ns base idc idn d mem = (d', mem')"
    using busy r by (simp add: model_abusy_def model_step_def)
  then show "let (d', mem') = model_step ns base idc idn d mem in
      (\<forall>i. \<not> touches (admin_commands base idc idn) mem e i \<longrightarrow> mem' i = mem i) \<and>
      ((\<exists>b' < b. model_abusy base m n e b' X d' mem' \<and> phase (slot_entry 0x1000 mem' n) \<noteq> even (n div 64)) \<or>
       (\<exists>X'. model_idle base m (Suc n) X' d' mem' \<and> phase (slot_entry 0x1000 mem' n) = even (n div 64) \<and>
          performs (admin_commands base idc idn) e X mem X' mem' (slot_entry 0x1000 mem' n)))"
    using same idle fin by (auto simp: admin_commands_def slot admin_completion_fields intro!: exI [of _ X'])
qed

section \<open>Its disk\<close>

definition model_busy ::
  "nvm_namespace \<Rightarrow> u64 \<Rightarrow> nat \<Rightarrow> nat \<Rightarrow> submission_queue_entry \<Rightarrow> nat \<Rightarrow> disk \<Rightarrow> nvme_state \<Rightarrow> mem \<Rightarrow> bool" where
  "model_busy ns base n m e b K d mem \<longleftrightarrow> running base d \<and> st_admin d = (n, n) \<and> st_io d = (Suc m, m) \<and>
     enabled_of d = queues_made K \<and> ring_fresh 0x1000 mem n \<and> ring_fresh 0x3000 mem m \<and>
     e = sqe_of_bytes (load mem (0x2000 + 64 * (m mod 64)) 64) \<and> proper ns (region_at base) mem e"

lemma enabled_with_disk: "enabled_of d = queues_made K \<longleftrightarrow> st_cq d \<and> st_sq d \<and> K = st_disk d"
  by (auto simp: enabled_of_def queues_made_def)

lemma io_serves:
  assumes busy: "model_busy ns base n m e b K d mem"
  obtains d' mem' K' where "serve_io ns base d mem = (d', mem')"
    "\<forall>i. \<not> may_change ns (region_at base) mem e i \<longrightarrow> mem' i = mem i" "model_idle base (Suc m) n (queues_made K') d' mem'"
    "slot_entry 0x3000 mem' m = disk_completion ns m e"
    "performed ns (region_at base) e K mem K' mem' (disk_completion ns m e)"
proof -
  have b: "running base d" "st_admin d = (n, n)" "st_io d = (Suc m, m)" "st_cq d" "st_sq d" "K = st_disk d"
    "ring_fresh 0x1000 mem n" "ring_fresh 0x3000 mem m" "e = sqe_of_bytes (load mem (0x2000 + 64 * (m mod 64)) 64)"
    and proper: "proper ns (region_at base) mem e"
    using busy unfolding model_busy_def enabled_with_disk by blast+
  obtain K' m' where serve: "disk_serve ns (region_at base) e K mem = (K', m')" by (metis prod.exhaust)
  let ?mem = "store m' (0x3000 + 16 * (m mod 64)) (cqe_bytes (disk_completion ns m e))"
  let ?d = "d\<lparr>st_io := (Suc m, Suc m), st_disk := K'\<rparr>"
  have run: "serve_io ns base d mem = (?d, ?mem)"
    using b(3) proper serve by (simp add: serve_io_def Let_def b(6) flip: b(9))
  have touch: "?mem i = mem i" if i: "\<not> may_change ns (region_at base) mem e i" for i
  proof -
    have "m mod 64 < 64" by simp
    then have "?mem i = m' i" using i by (intro store_outside) (auto simp: may_change_def)
    then show ?thesis using disk_serve_proper(2) [OF proper serve i] by simp
  qed
  have "ring_fresh 0x3000 ?mem (Suc m)"
    using ring_fresh_post [OF disk_serve_proper(1) [OF proper serve order_refl b(8)]] by (simp add: disk_completion_fields)
  moreover have "ring_fresh 0x1000 ?mem n"
    using disk_serve_proper(1) [OF proper serve _ b(7)] by (simp add: ring_fresh_away)
  ultimately have idle: "model_idle base (Suc m) n (queues_made K') ?d ?mem" using b by (simp add: model_idle_def enabled_of_def queues_made_def)
  have fin: "performed ns (region_at base) e K mem K' ?mem (disk_completion ns m e)"
    by (rule disk_serve_proper(3) [OF proper serve]) (simp_all add: disk_completion_fields)
  show thesis by (rule that [OF run _ idle _ fin]) (simp_all add: slot_entry_post touch)
qed

lemma model_storage_at:
  "storage_controller (model_controller ns base idc idn) ns (region_at base) 4 0 
    (\<lambda>m K. model_idle base m n (queues_made K)) (model_busy ns base n)"
  unfolding storage_controller_def queue_server_def model_simps
proof (intro conjI allI impI)
  fix m K d mem assume idle: "model_idle base m n (queues_made K) d mem"
  then have step: "model_step ns base idc idn d mem = (d, mem)"
    by (simp add: model_idle_def model_step_def)
  show "snd (model_step ns base idc idn d mem) = mem" "model_idle base m n (queues_made K) (fst (model_step ns base idc idn d mem)) mem"
    using idle by (simp_all add: step)
  show "model_idle base m n (queues_made K) d (store mem off bs)" if "clear_of_rings off (length bs)" for off bs
    using idle that by (auto simp: model_idle_def clear_of_rings_def ring_fresh_away)
  show "model_idle base m n (queues_made K) (model_write32 d (completion_doorbell 1 4) v) mem" for v
    using idle by (simp add: model_registers)
  show "let e = sqe_of_bytes (load mem (0x2000 + 64 * (m mod 64)) 64) in
      accepts (nvm_commands ns (region_at base)) K mem e \<longrightarrow> model_busy ns base n m e 0 K
        (model_write32 d (submission_doorbell 1 4) (of_nat (Suc m mod 64))) mem"
    using idle by (simp add: model_registers model_busy_def model_idle_def Let_def nvm_commands_def enabled_of_def queues_made_def)
next
  fix m e b K d mem assume busy: "model_busy ns base n m e b K d mem"
  obtain d' mem' K' where r: "serve_io ns base d mem = (d', mem')"
    and same: "\<forall>i. \<not> may_change ns (region_at base) mem e i \<longrightarrow> mem' i = mem i" and idle: "model_idle base (Suc m) n (queues_made K') d' mem'"
    and slot: "slot_entry 0x3000 mem' m = disk_completion ns m e"
    and fin: "performed ns (region_at base) e K mem K' mem' (disk_completion ns m e)"
    by (rule io_serves [OF busy])
  have "model_step ns base idc idn d mem = (d', mem')"
    using busy r by (simp add: model_busy_def model_step_def enabled_with_disk)
  then show "let (d', mem') = model_step ns base idc idn d mem in
      (\<forall>i. \<not> touches (nvm_commands ns (region_at base)) mem e i \<longrightarrow> mem' i = mem i) \<and>
      ((\<exists>b' < b. model_busy ns base n m e b' K d' mem' \<and> phase (slot_entry 0x3000 mem' m) \<noteq> even (m div 64)) \<or>
       (\<exists>K'. model_idle base (Suc m) n (queues_made K') d' mem' \<and> phase (slot_entry 0x3000 mem' m) = even (m div 64) \<and>
          performs (nvm_commands ns (region_at base)) e K mem K' mem' (slot_entry 0x3000 mem' m)))"
    using same idle fin by (auto simp: nvm_commands_def slot disk_completion_fields intro!: exI [of _ K'])
qed

text \<open>Where the program has mapped the region does not matter to the controller.\<close>

lemma nvm_commands_at: "physical_address region = base \<Longrightarrow> nvm_commands ns region = nvm_commands ns (region_at base)"
  by (simp add: nvm_commands_def proper_def may_change_def performed_def transferred_def command_pages_def
      walk_prps_def region_at_def fun_eq_iff)

lemma model_storage:
  assumes "physical_address region = base"
  shows "storage_controller (model_controller ns base idc idn) ns region 4 0
    (\<lambda>m K. model_idle base m n (queues_made K)) (model_busy ns base n)"
  using model_storage_at by (simp add: storage_controller_def nvm_commands_at [OF assms])

lemma cap_stride_0: "cap_stride 0 = 4"
  using unat_eqD [OF example_cap_stride] by simp

lemma model_conforms:
  assumes "suitable ns idc idn" "32 \<le> ns_block_size ns" "ns_block_size ns \<le> 2 ^ 32"
  shows "conforming (model_controller ns base idc idn) ns base 0 0 0 (model_booting base K) idc idn
    (model_idle base) (model_abusy base) (model_busy ns base) K"
  using assms model_boots model_admin_server model_storage
  by (auto simp: conforming_def both_queues_def cap_stride_0 suitable_def)

section \<open>It is obedient\<close>

definition model_told :: "u64 \<Rightarrow> nvme_state \<Rightarrow> knowledge" where
  "model_told base d = \<lparr>known_asq = set_option (st_asq d),
     known_sizes = (\<lambda>v. unat (v AND 0xFFF) + 1) ` set_option (st_aqa d),
     known_rings = (if st_sq d then {(base + 0x2000, 64)} else {}), known_blocks = {}\<rparr>"

definition model_content :: "nvm_namespace \<Rightarrow> nvme_state \<Rightarrow> u64 \<Rightarrow> u8 list" where
  "model_content ns d b = load (st_disk d) (disk_pos ns b) (ns_block_size ns)"

lemma ring_entry:
  assumes "k < 64" and "off \<le> 0x2000"
  shows "sqe_of_bytes (load m (off + 64 * k) 64) \<in> ring_entries base m (base + of_nat off) 64"
proof -
  have "unat (base + of_nat off + of_nat (64 * k) - base) = unat (of_nat (off + 64 * k) :: u64)" by simp
  also have "\<dots> = off + 64 * k" using assms by (intro unat_of_nat_small) simp
  finally show ?thesis unfolding ring_entries_def using assms by (intro image_eqI [of _ _ k]) simp_all
qed

text \<open>A disk command changes no block that it does not name.\<close>

lemma disk_serve_content:
  assumes proper: "proper ns (region_at base) m e" and serve: "disk_serve ns (region_at base) e K m = (K', m')"
    and b: "b \<notin> io_blocks e"
  shows "load K' (disk_pos ns b) (ns_block_size ns) = load K (disk_pos ns b) (ns_block_size ns)"
proof (cases "K' = K")
  case False
  then have w: "sqe_opc e = 1" "K' = store K (disk_pos ns (command_slba e)) (transferred ns (region_at base) m e)"
    using serve by (auto simp: disk_serve_def split: if_splits)
  have len: "length (transferred ns (region_at base) m e) = command_blocks e * ns_block_size ns"
    unfolding transferred_proper [OF proper] by (simp add: command_bytes_def)
  have "unat b + 1 \<le> unat (command_slba e) \<or> unat (command_slba e) + command_blocks e \<le> unat b"
    using b w(1) by (auto simp: io_blocks_def command_range_def)
  then have "(unat b + 1) * ns_block_size ns \<le> unat (command_slba e) * ns_block_size ns \<or>
      (unat (command_slba e) + command_blocks e) * ns_block_size ns \<le> unat b * ns_block_size ns"
    by (metis mult_le_mono1)
  then show ?thesis
    unfolding w(2) by (intro load_store_disjoint) (auto simp: disk_pos_def len algebra_simps)
qed simp

text \<open>One step of the controller, as the contract asks for it.\<close>

definition step_obeys :: "nvm_namespace \<Rightarrow> u64 \<Rightarrow> nvme_state \<Rightarrow> mem \<Rightarrow> nvme_state \<times> mem \<Rightarrow> bool" where
  "step_obeys ns base d m r \<longleftrightarrow> (let K = learned base m (model_told base d) in
     no_more_than (model_told base (fst r)) K \<and>
     (\<forall>b. b \<notin> known_blocks K \<longrightarrow> model_content ns (fst r) b = model_content ns d b) \<and>
     (\<forall>i. i < 0x1000 \<or> 0x2000 \<le> i \<and> i < 0x3000 \<longrightarrow> snd r i = m i))"

lemma learned_more: "no_more_than K (learned base m K)"
  by (auto simp: no_more_than_def learned_def Let_def)

lemma admin_obeys:
  assumes run: "running base d" and len: "length idc = 4096" "\<forall>n data. idn n = Some data \<longrightarrow> length data = 4096"
  shows "step_obeys ns base d m (serve_admin base idc idn d m)"
proof -
  define n where "n = snd (st_admin d)"
  define e where "e = sqe_of_bytes (load m (64 * (n mod 64)) 64)"
  let ?K = "learned base m (model_told base d)"
  have "e \<in> ring_entries base m base 64" using ring_entry [where k = "n mod 64" and m = m and off = 0 and base = base] by (simp add: e_def)
  then have "e \<in> admin_entries base m (model_told base d)"
    using run by (simp add: admin_entries_def model_told_def running_def)
  then have rings: "admin_rings e \<subseteq> known_rings ?K"
    by (auto simp: learned_def Let_def)
  have more: "no_more_than (model_told base d) ?K" by (rule learned_more)
  show ?thesis
  proof (cases "admin_accepts base (enabled_of d) m e")
    case False
    then have "serve_admin base idc idn d m = (d\<lparr>st_admin := (fst (st_admin d), Suc n)\<rparr>, m)"
      by (simp add: serve_admin_def Let_def flip: n_def e_def)
    then show ?thesis using more by (simp add: step_obeys_def model_told_def model_content_def)
  next
    case True
    let ?a = "admin_answer idc idn e"
    let ?data = "case ?a of None \<Rightarrow> [] | Some data \<Rightarrow> data" and ?c = "admin_completion n (?a \<noteq> None) e"
    let ?m = "store m (identify_page base e) ?data"
    let ?d = "d\<lparr>st_admin := (fst (st_admin d), Suc n), st_cq := st_cq d \<or> sqe_opc e = 5, st_sq := st_sq d \<or> sqe_opc e = 1\<rparr>"
    have eq: "serve_admin base idc idn d m =
        (?d, store ?m (0x1000 + 16 * (n mod 64)) (cqe_bytes ?c))"
      using True by (simp add: serve_admin_def Let_def flip: n_def e_def)
    have "sqe_opc e = 1 \<Longrightarrow> (base + 0x2000, 64) \<in> known_rings ?K"
      using rings True by (auto simp: admin_rings_def admin_accepts_def)
    then have told: "no_more_than (model_told base ?d) ?K"
      using more by (auto simp: no_more_than_def model_told_def)
    have "n mod 64 < 64" by simp
    then have "0x1000 + 16 * (n mod 64) + 16 \<le> 0x1400" by linarith
    moreover have "sqe_opc e = 6 \<Longrightarrow> 0x5000 \<le> identify_page base e"
      using True by (auto simp: admin_accepts_def)
    moreover have "sqe_opc e \<noteq> 6 \<Longrightarrow> ?data = []" by (simp add: admin_answer_def)
    ultimately have "store ?m (0x1000 + 16 * (n mod 64)) (cqe_bytes ?c) i = m i"
      if "i < 0x1000 \<or> 0x2000 \<le> i \<and> i < 0x3000" for i
      using that by (cases "sqe_opc e = 6") (auto simp: store_outside)
    then show ?thesis using told by (simp add: step_obeys_def eq model_content_def)
  qed
qed

lemma io_obeys:
  assumes sq: "st_sq d"
  shows "step_obeys ns base d m (serve_io ns base d m)"
proof -
  define n where "n = snd (st_io d)"
  define e where "e = sqe_of_bytes (load m (0x2000 + 64 * (n mod 64)) 64)"
  let ?K = "learned base m (model_told base d)"
  have "e \<in> ring_entries base m (base + 0x2000) 64" using ring_entry [where k = "n mod 64" and m = m and off = "0x2000" and base = base] by (simp add: e_def)
  then have blocks: "io_blocks e \<subseteq> known_blocks ?K"
    using sq by (force simp: learned_def Let_def io_entries_def model_told_def)
  have more: "no_more_than (model_told base d) ?K" by (rule learned_more)
  show ?thesis
  proof (cases "proper ns (region_at base) m e")
    case False
    then have "serve_io ns base d m = (d\<lparr>st_io := (fst (st_io d), Suc n)\<rparr>, m)"
      by (simp add: serve_io_def Let_def flip: n_def e_def)
    then show ?thesis using more by (simp add: step_obeys_def model_told_def model_content_def)
  next
    case True
    obtain K' m' where serve: "disk_serve ns (region_at base) e (st_disk d) m = (K', m')" by (metis prod.exhaust)
    let ?mem = "store m' (0x3000 + 16 * (n mod 64)) (cqe_bytes (disk_completion ns n e))"
    have eq: "serve_io ns base d m = (d\<lparr>st_io := (fst (st_io d), Suc n), st_disk := K'\<rparr>, ?mem)"
      using True serve by (simp add: serve_io_def Let_def flip: n_def e_def)
    have "?mem i = m i" if i: "i < 0x1000 \<or> 0x2000 \<le> i \<and> i < 0x3000" for i
    proof -
      have "?mem i = m' i" using i by (intro store_outside) auto
      moreover have "\<not> may_change ns (region_at base) m e i" using may_change_proper [OF True, of i] i by auto
      ultimately show ?thesis using disk_serve_proper(2) [OF True serve] by simp
    qed
    moreover have "load K' (disk_pos ns b) (ns_block_size ns) = load (st_disk d) (disk_pos ns b) (ns_block_size ns)"
      if "b \<notin> known_blocks ?K" for b
      using disk_serve_content [OF True serve, of b] blocks that by blast
    moreover have "no_more_than (model_told base (d\<lparr>st_io := (fst (st_io d), Suc n), st_disk := K'\<rparr>)) ?K"
      using more by (simp add: model_told_def)
    ultimately show ?thesis by (simp add: step_obeys_def eq model_content_def)
  qed
qed

lemma model_obedient:
  assumes len: "length idc = 4096" "\<forall>n data. idn n = Some data \<longrightarrow> length data = 4096"
  shows "obedient (model_controller ns base idc idn) base (model_content ns) (model_told base)"
proof -
  have "step_obeys ns base d m (model_step ns base idc idn d m)" for d m
  proof -
    have "step_obeys ns base d m (d, m)" using learned_more by (simp add: step_obeys_def)
    then show ?thesis using admin_obeys [OF _ len] io_obeys by (simp add: model_step_def)
  qed
  then have step: "let (d', m') = model_step ns base idc idn d m; K = learned base m (model_told base d) in
      no_more_than (model_told base d') K \<and> (\<forall>b. b \<notin> known_blocks K \<longrightarrow> model_content ns d' b = model_content ns d b) \<and>
      (\<forall>i. i < 0x1000 \<or> 0x2000 \<le> i \<and> i < 0x3000 \<longrightarrow> m' i = m i)" for d m
    by (simp add: step_obeys_def case_prod_unfold Let_def)
  have same: "no_more_than K K" for K by (simp add: no_more_than_def)
  have reset: "no_more_than (model_told base (reset_state K)) L" for K L
    by (simp add: no_more_than_def model_told_def reset_state_def)
  have w32: "model_content ns (model_write32 d reg v) = model_content ns d" for d reg v
    by (simp add: model_write32_def model_content_def fun_eq_iff)
  have t32: "no_more_than (model_told base (model_write32 d reg v)) (if reg = AQA
      then (model_told base d)\<lparr>known_sizes := insert (unat (v AND 0xFFF) + 1) (known_sizes (model_told base d))\<rparr>
      else model_told base d)" for d reg v
  proof (cases "reg = CC \<and> v AND 1 = 0")
    case True
    then show ?thesis using reset by (simp add: model_write32_def)
  next
    case False
    then show ?thesis by (auto simp: model_write32_def model_told_def no_more_than_def register_defs)
  qed
  have w64: "model_content ns (model_write64 d reg v) = model_content ns d" for d reg v
    by (simp add: model_write64_def model_content_def fun_eq_iff)
  have t64: "no_more_than (model_told base (model_write64 d reg v)) (if reg = ASQ
      then (model_told base d)\<lparr>known_asq := insert v (known_asq (model_told base d))\<rparr> else model_told base d)" for d reg v
    by (simp add: model_write64_def model_told_def no_more_than_def)
  show ?thesis
    unfolding obedient_def model_simps
    using step by (simp add: model_read32_def same w32 t32 w64 t64 Let_def)
qed

end
