(* ===== verification/Connected.thy ===== *)
theory Connected
  imports Open_Succeeds
begin

text \<open>
  A driver that \<open>open\<close> returned stays connected to its controller: Reads and Writes use the I/O queue
  and implement the abstract disk, Identify uses the admin queue and returns the controller's
  structure, and block sizes come from the cache or from the admin queue, in any order.
\<close>

lemma connectedD:
  assumes "connected D ns latency idc idn idle abusy busy K s"
  shows "driver_ok (fst s)" "\<exists>m n. idle m n (queues_made K) (dev (snd s)) (dma (snd s))"
    "32 \<le> ns_block_size ns" "ns_block_size ns \<le> 2 ^ 32" "length idc = 4096"
    "block_sizes (fst s) (drv_nsid (fst s)) = Some (of_nat (ns_block_size ns))" "(of_nat (ns_block_size ns) :: usize) \<noteq> 0"
proof -
  obtain n where att: "attached D ns latency (\<lambda>m K. idle m n (queues_made K)) (busy n) K s"
    using assms unfolding connected_def by blast
  then have up: "set_up D ns latency (\<lambda>m K. idle m n (queues_made K)) (busy n) (fst s)"
    and idle: "\<exists>m. idle m n (queues_made K) (dev (snd s)) (dma (snd s))" by (auto simp: attached_def)
  show "\<exists>m n. idle m n (queues_made K) (dev (snd s)) (dma (snd s))" using idle by blast
  show "driver_ok (fst s)" "32 \<le> ns_block_size ns" "ns_block_size ns \<le> 2 ^ 32"
    "block_sizes (fst s) (drv_nsid (fst s)) = Some (of_nat (ns_block_size ns))"
    using up unfolding set_up_def by blast+
  show "(of_nat (ns_block_size ns) :: usize) \<noteq> 0" by (rule set_upD(10) [OF up])
  show "length idc = 4096" using assms by (simp add: connected_def suitable_def)
qed

lemma connected_log [simp]:
  "connected D ns latency idc idn idle abusy busy K (dr, w\<lparr>log := l\<rparr>) =
   connected D ns latency idc idn idle abusy busy K (dr, w)"
  by (simp add: connected_def attached_def)

text \<open>A transfer leaves the admin queue and the cached sizes alone.\<close>

lemma transfers_keep_the_rest:
  assumes "block_sizes dr (drv_nsid dr) = Some bs" and "bs \<noteq> 0"
  shows "admin_queue (fst (snd (driver_read D lba n (dr, w)))) = admin_queue dr"
    and "admin_queue (fst (snd (driver_write D lba data (dr, w)))) = admin_queue dr"
    and "block_sizes (fst (snd (driver_read D lba n (dr, w)))) = block_sizes dr"
    and "block_sizes (fst (snd (driver_write D lba data (dr, w)))) = block_sizes dr"
  using assms
  by (auto simp: run_read_cached [OF assms(1)] run_write_cached [OF assms] Let_def keepsD transfers_keep)

lemma connected_step:
  assumes con: "connected D ns latency idc idn idle abusy busy K s"
    and step: "\<And>n. attached D ns latency (\<lambda>m K. idle m n (queues_made K)) (busy n) K s \<Longrightarrow>
      attached D ns latency (\<lambda>m K. idle m n (queues_made K)) (busy n) K' s'"
    and same: "driver_at (fst s) (fst s')" "admin_queue (fst s') = admin_queue (fst s)"
      "block_sizes (fst s') = block_sizes (fst s)"
  shows "connected D ns latency idc idn idle abusy busy K' s'"
  using con step driver_atD(2,3) [OF same(1)] same(2,3) unfolding connected_def by metis

lemma connected_read:
  assumes con: "connected D ns latency idc idn idle abusy busy K (dr, w)"
  shows "answer (fst (driver_read D lba n (dr, w))) = fst (disk_step ns (ReadBlocks lba n) K) \<and>
    connected D ns latency idc idn idle abusy busy K (snd (driver_read D lba n (dr, w)))"
proof
  note c = connectedD [OF con, unfolded fst_conv]
  have "driver_at dr (fst (snd (driver_read D lba n (dr, w))))"
    using safeD(1) [OF driver_read_safe, of dr "(dr, w)"] driver_at_self [OF c(1)] by simp
  then show "connected D ns latency idc idn idle abusy busy K (snd (driver_read D lba n (dr, w)))"
    by (intro connected_step [OF con]) (simp_all add: read_step_on_disk transfers_keep_the_rest [OF c(6,7)])
  obtain k where "attached D ns latency (\<lambda>m K. idle m k (queues_made K)) (busy k) K (dr, w)"
    using con unfolding connected_def by blast
  then show "answer (fst (driver_read D lba n (dr, w))) = fst (disk_step ns (ReadBlocks lba n) K)"
    using read_step_on_disk by blast
qed

lemma connected_write:
  assumes con: "connected D ns latency idc idn idle abusy busy K (dr, w)" and len: "length data < 2 ^ 64"
  shows "map_option (\<lambda>_. []) (answer (fst (driver_write D lba data (dr, w)))) =
      fst (disk_step ns (WriteBlocks lba data) K) \<and>
    connected D ns latency idc idn idle abusy busy (snd (disk_step ns (WriteBlocks lba data) K))
      (snd (driver_write D lba data (dr, w)))"
proof
  note c = connectedD [OF con, unfolded fst_conv]
  have "driver_at dr (fst (snd (driver_write D lba data (dr, w))))"
    using safeD(1) [OF driver_write_safe [OF len], of dr "(dr, w)"] driver_at_self [OF c(1)] by simp
  then show "connected D ns latency idc idn idle abusy busy (snd (disk_step ns (WriteBlocks lba data) K))
      (snd (driver_write D lba data (dr, w)))"
    by (intro connected_step [OF con])
      (simp_all add: write_step_on_disk [OF _ len] transfers_keep_the_rest [OF c(6,7)] del: disk_step.simps)
  obtain k where "attached D ns latency (\<lambda>m K. idle m k (queues_made K)) (busy k) K (dr, w)"
    using con unfolding connected_def by blast
  then show "map_option (\<lambda>_. []) (answer (fst (driver_write D lba data (dr, w)))) =
      fst (disk_step ns (WriteBlocks lba data) K)"
    using write_step_on_disk len by blast
qed

text \<open>An admin command: the disk and the I/O queue stay.\<close>

lemma connected_ready:
  assumes "connected D ns latency idc idn idle abusy busy K (dr, w)"
  obtains m n where
    "both_queues D ns (physical_address (drv_dma dr)) (doorbell_stride dr) latency idc idn idle abusy busy"
    "suitable ns idc idn" "set_up D ns latency (\<lambda>m K. idle m n (queues_made K)) (busy n) dr"
    "at_counts (io_queue dr) m m" "admin_ready (idle m) (physical_address (drv_dma dr)) n (queues_made K) dr w"
proof -
  obtain n where att: "attached D ns latency (\<lambda>m K. idle m n (queues_made K)) (busy n) K (dr, w)"
    and at: "at_counts (admin_queue dr) n n"
    and both: "both_queues D ns (physical_address (drv_dma dr)) (doorbell_stride dr) latency idc idn idle abusy busy"
    and suit: "suitable ns idc idn"
    using assms unfolding connected_def by auto
  then obtain m where up: "set_up D ns latency (\<lambda>m K. idle m n (queues_made K)) (busy n) dr"
    and io: "at_counts (io_queue dr) m m" and idle: "idle m n (queues_made K) (dev w) (dma w)"
    by (auto simp: attached_def)
  show thesis
    by (rule that [OF both suit up io]) (use at idle set_upD(1) [OF up] in \<open>simp add: admin_ready_def\<close>)
qed

lemma connected_again:
  assumes both: "both_queues D ns (physical_address (drv_dma dr)) (doorbell_stride dr) latency idc idn idle abusy busy"
    and suit: "suitable ns idc idn" and up: "set_up D ns latency (\<lambda>m K. idle m n (queues_made K)) (busy n) dr"
    and io: "at_counts (io_queue dr) m m"
    and after: "admin_ready (idle m) (physical_address (drv_dma dr)) n' (queues_made K) (dr\<lparr>admin_queue := q\<rparr>) w'"
    and ok: "driver_ok (dr\<lparr>admin_queue := q, block_sizes := sizes\<rparr>)" and more: "block_sizes dr \<subseteq>\<^sub>m sizes"
    and agree: "\<And>k b. sizes k = Some b \<Longrightarrow> map_option block_size_of (idn k) = Some b"
  shows "connected D ns latency idc idn idle abusy busy K (dr\<lparr>admin_queue := q, block_sizes := sizes\<rparr>, w')"
proof -
  have "sizes (drv_nsid dr) = Some (of_nat (ns_block_size ns))"
    using more set_upD(5) [OF up] by (force simp: map_le_def)
  then have "set_up D ns latency (\<lambda>m K. idle m n' (queues_made K)) (busy n')
      (dr\<lparr>admin_queue := q, block_sizes := sizes\<rparr>)"
    using up ok both_queuesD(3) [OF both refl] by (auto simp: set_up_def)
  then show ?thesis using both suit after io agree by (auto simp: connected_def attached_def admin_ready_def)
qed

text \<open>Identify returns the structure of the controller.\<close>

lemma connected_identify:
  assumes con: "connected D ns latency idc idn idle abusy busy K (dr, w)"
  shows "\<exists>s'. driver_identify_controller D (dr, w) = (Ok idc, s') \<and>
    connected D ns latency idc idn idle abusy busy K s'"
proof -
  obtain m n where both: "both_queues D ns (physical_address (drv_dma dr)) (doorbell_stride dr) latency idc idn idle abusy busy"
    and again: "suitable ns idc idn" "set_up D ns latency (\<lambda>m K. idle m n (queues_made K)) (busy n) dr"
    "at_counts (io_queue dr) m m"
    and ready: "admin_ready (idle m) (physical_address (drv_dma dr)) n (queues_made K) dr w"
    by (rule connected_ready [OF con])
  obtain q w' where id: "identify D IdController 0 (dr, w) = (Ok idc, (dr\<lparr>admin_queue := q\<rparr>, w'))"
      and after: "admin_ready (idle m) (physical_address (drv_dma dr)) (Suc n) (queues_made K) (dr\<lparr>admin_queue := q\<rparr>) w'"
    by (rule identify_controller_served [OF both_queuesD(2,1) [OF both] ready])
  have same: "dr\<lparr>admin_queue := q, block_sizes := block_sizes dr\<rparr> = dr\<lparr>admin_queue := q\<rparr>" by simp
  have "connected D ns latency idc idn idle abusy busy K (dr\<lparr>admin_queue := q, block_sizes := block_sizes dr\<rparr>, w')"
    by (rule connected_again [OF both again after]) (use after con in \<open>auto simp: connected_def admin_ready_def\<close>)
  then show ?thesis using id by (auto simp: driver_identify_controller_def)
qed

text \<open>Asking for a block size answers what the controller would, whether it is cached or not.\<close>

lemma connected_block_size:
  assumes con: "connected D ns latency idc idn idle abusy busy K (dr, w)"
  shows "answer (fst (namespace_block_size D k (dr, w))) = map_option block_size_of (idn k) \<and>
    connected D ns latency idc idn idle abusy busy K (snd (namespace_block_size D k (dr, w)))"
proof (cases "block_sizes dr k")
  case (Some b)
  then have eq: "map_option block_size_of (idn k) = Some b" using con by (simp add: connected_def)
  show ?thesis unfolding eq using Some con by (simp add: namespace_block_size_def run_andthen run_gets run_ret)
next
  case None
  obtain m n where both: "both_queues D ns (physical_address (drv_dma dr)) (doorbell_stride dr) latency idc idn idle abusy busy"
    and again: "suitable ns idc idn" "set_up D ns latency (\<lambda>m K. idle m n (queues_made K)) (busy n) dr"
    "at_counts (io_queue dr) m m"
    and ready: "admin_ready (idle m) (physical_address (drv_dma dr)) n (queues_made K) dr w"
    by (rule connected_ready [OF con])
  let ?sizes = "(block_sizes dr)(k := map_option block_size_of (idn k))"
  obtain r q w' where run: "namespace_block_size D k (dr, w) = (r, (dr\<lparr>admin_queue := q, block_sizes := ?sizes\<rparr>, w'))"
    and r: "answer r = map_option block_size_of (idn k)"
    and after: "admin_ready (idle m) (physical_address (drv_dma dr)) (Suc n) (queues_made K) (dr\<lparr>admin_queue := q\<rparr>) w'"
    by (rule block_size_asked [OF both_queuesD(2,1) [OF both] ready again(1) None])
  have "driver_ok (fst (snd (namespace_block_size D k (dr, w))))"
    using safeD(1) [OF namespace_block_size_safe, of dr "(dr, w)"] driver_at_self driver_atD(5) ready
    by (fastforce simp: admin_ready_def)
  then have ok: "driver_ok (dr\<lparr>admin_queue := q, block_sizes := ?sizes\<rparr>)" by (simp add: run)
  have more: "block_sizes dr \<subseteq>\<^sub>m ?sizes" using None by (auto simp: map_le_def dom_def)
  have "connected D ns latency idc idn idle abusy busy K (dr\<lparr>admin_queue := q, block_sizes := ?sizes\<rparr>, w')"
    by (rule connected_again [OF both again after ok more])
      (use con in \<open>auto simp: connected_def split: if_splits\<close>)
  then show ?thesis by (simp add: run r)
qed

end
