(* ===== verification/Device_Refinement.thy ===== *)
theory Device_Refinement
  imports Connected
begin

text \<open>
  The driver as a whole: what a controller that follows the specification promises, as an abstract
  device with the four requests of the driver's public interface, and the simulation of that device by
  the driver, request by request and for every session.
\<close>

section \<open>The abstract device\<close>

text \<open>
  The requests that \<open>NvmeDriver\<close> takes once it is open, and what they answer: the structure of the
  controller, the block size of some namespace, the bytes of a transfer.
\<close>

datatype request = AskController | AskBlockSize u32 | Transfer transfer

datatype response = Structure "u8 list" | BlockSize usize | Bytes "u8 list"

text \<open>
  The device: its Identify structures are fixed, only a Write changes the disk, and a request is
  refused (no response) when the namespace it asks for does not exist or when the disk refuses
  the transfer.
\<close>

fun device_step ::
  "u8 list \<Rightarrow> (u32 \<Rightarrow> u8 list option) \<Rightarrow> nvm_namespace \<Rightarrow> request \<Rightarrow> disk \<Rightarrow> response option \<times> disk" where
  "device_step idc idn ns AskController K = (Some (Structure idc), K)"
| "device_step idc idn ns (AskBlockSize k) K = (map_option (BlockSize \<circ> block_size_of) (idn k), K)"
| "device_step idc idn ns (Transfer t) K = map_prod (map_option Bytes) id (disk_step ns t K)"

fun device_session ::
  "u8 list \<Rightarrow> (u32 \<Rightarrow> u8 list option) \<Rightarrow> nvm_namespace \<Rightarrow> request list \<Rightarrow> disk \<Rightarrow> response option list \<times> disk" where
  "device_session idc idn ns [] K = ([], K)"
| "device_session idc idn ns (q # qs) K =
     (let (r, K') = device_step idc idn ns q K; (rs, K'') = device_session idc idn ns qs K' in (r # rs, K''))"

text \<open>The same requests on the driver; every error counts as a refusal, and the session goes on.\<close>

fun driver_request :: "'d device \<Rightarrow> request \<Rightarrow> ('d machine, response) prog" where
  "driver_request D AskController = andthen (driver_identify_controller D) (\<lambda>data. ret (Structure data))"
| "driver_request D (AskBlockSize k) = andthen (namespace_block_size D k) (\<lambda>b. ret (BlockSize b))"
| "driver_request D (Transfer t) = andthen (driver_step D t) (\<lambda>bs. ret (Bytes bs))"

fun driver_session :: "'d device \<Rightarrow> request list \<Rightarrow> 'd machine \<Rightarrow> response option list \<times> 'd machine" where
  "driver_session D [] s = ([], s)"
| "driver_session D (q # qs) s =
     (let (r, s') = driver_request D q s; (rs, s'') = driver_session D qs s' in (answer r # rs, s''))"

text \<open>The length of the data of a Write is a \<open>usize\<close>, as that of every slice is.\<close>

definition sized_request :: "request \<Rightarrow> bool" where
  "sized_request q \<longleftrightarrow> (case q of Transfer t \<Rightarrow> sized t | _ \<Rightarrow> True)"

section \<open>The simulation\<close>

lemma answer_then_ret:
  "answer (fst (andthen p (\<lambda>x. ret (f x)) s)) = map_option f (answer (fst (p s)))"
  "snd (andthen p (\<lambda>x. ret (f x)) s) = snd (p s)"
  by (simp_all add: run_andthen run_ret answer_def split: outcome.split)

lemma connected_transfer:
  assumes "connected D ns latency idc idn idle abusy busy K s" and "sized t"
  shows "answer (fst (driver_step D t s)) = fst (disk_step ns t K) \<and>
    connected D ns latency idc idn idle abusy busy (snd (disk_step ns t K)) (snd (driver_step D t s))"
proof (cases t)
  case (ReadBlocks lba n)
  have "snd (disk_step ns (ReadBlocks lba n) K) = K" by simp
  then show ?thesis using connected_read [of D ns latency idc idn idle abusy busy K "fst s" "snd s" lba n] assms(1)
    by (simp add: ReadBlocks del: disk_step.simps)
next
  case (WriteBlocks lba data)
  then show ?thesis
    using connected_write [of D ns latency idc idn idle abusy busy K "fst s" "snd s" data lba] assms
    by (simp add: answer_then_ret sized_def del: disk_step.simps)
qed

lemma connected_request:
  assumes "connected D ns latency idc idn idle abusy busy K s" and "sized_request q"
  shows "answer (fst (driver_request D q s)) = fst (device_step idc idn ns q K) \<and>
    connected D ns latency idc idn idle abusy busy (snd (device_step idc idn ns q K)) (snd (driver_request D q s))"
proof (cases q)
  case AskController
  then show ?thesis using connected_identify [of D ns latency idc idn idle abusy busy K "fst s" "snd s"] assms(1)
    by (auto simp: answer_then_ret)
next
  case (AskBlockSize k)
  then show ?thesis using connected_block_size [of D ns latency idc idn idle abusy busy K "fst s" "snd s" k] assms(1)
    by (simp add: answer_then_ret option.map_comp)
next
  case (Transfer t)
  then show ?thesis using connected_transfer [OF assms(1), of t] assms(2)
    by (simp add: answer_then_ret sized_request_def del: disk_step.simps)
qed

text \<open>
  C4: On a controller that follows the specification, the driver is the abstract device. Once it is
  open, any session of requests of its public interface (\<open>identify_controller\<close>,
  \<open>namespace_block_size\<close> of any namespace, \<open>read\<close> and \<open>write\<close> with any block numbers, counts and data),
  of any length and in any order, answers exactly what that device answers: the structure of the
  controller; the block size the controller reports for that namespace, whether it was cached or
  is asked for now, and a refusal if there is none; the bytes last written to those blocks; and a refusal,
  without effect, for a zero, oversized, misaligned or out-of-range transfer. Afterwards the driver is
  still connected to the controller, which holds the abstract disk. Both queues, the command
  identifiers, phase tags, PRP lists, the shared buffer and the cache, with every wrap, are invisible.
\<close>

theorem driver_implements_its_device:
  assumes "connected D ns latency idc idn idle abusy busy K s" and "list_all sized_request qs"
  shows "fst (driver_session D qs s) = fst (device_session idc idn ns qs K) \<and>
    connected D ns latency idc idn idle abusy busy (snd (device_session idc idn ns qs K)) (snd (driver_session D qs s))"
  using assms
proof (induction qs arbitrary: K s)
  case (Cons q qs)
  then have "answer (fst (driver_request D q s)) = fst (device_step idc idn ns q K)"
    "connected D ns latency idc idn idle abusy busy (snd (device_step idc idn ns q K)) (snd (driver_request D q s))"
    using connected_request by fastforce+
  with Cons.IH [OF this(2)] Cons.prems(2) show ?case
    by (simp add: case_prod_unfold Let_def del: device_step.simps driver_request.simps)
qed simp

end
