(* ===== verification/Repl_Spec.thy ===== *)
theory Repl_Spec
  imports Repl_Display Storage
begin

text \<open>
  What the tool is for, without the driver: an abstract REPL over the file's blocks of a disk. It
  parses a line into a command, carries it out on the disk or complains, and says what it did.
\<close>

unbundle bit_operations_syntax

section \<open>Commands\<close>

datatype command =
    Help
  | Quit
  | ListBlocks
  | ShowController
  | ReadAt u64 u64
  | WriteAt u64 "u8 list"
  | FillAt u64 u8 u64
  | PeekAt u64 u64 u64
  | PokeAt u64 u64 "u8 list"

definition number :: "rtext \<Rightarrow> u64 option" where
  "number t = map_option of_nat (parse_uint (2 ^ 64) t)"

definition single_byte :: "rtext \<Rightarrow> u8 option" where
  "single_byte t = (case as_bytes t of [b] \<Rightarrow> Some b | _ \<Rightarrow> None)"

text \<open>The bytes of the words that are left, joined by single spaces.\<close>

definition words_bytes :: "rtext list \<Rightarrow> u8 list" where
  "words_bytes ws = as_bytes (join [32] ws)"

definition command_of :: "rtext \<Rightarrow> command option" where
  "command_of line = (case split_whitespace line of
     [] \<Rightarrow> None
   | w # args \<Rightarrow>
       if args = [] then
         if w = txt_of ''help'' then Some Help
         else if w = txt_of ''quit'' \<or> w = txt_of ''exit'' then Some Quit
         else if w = txt_of ''list'' then Some ListBlocks
         else if w = txt_of ''identify'' then Some ShowController else None
       else if w = txt_of ''read'' then (case args of
           [a, n] \<Rightarrow> Option.bind (number a) (\<lambda>lba. map_option (ReadAt lba) (number n)) | _ \<Rightarrow> None)
       else if w = txt_of ''write'' then (case args of
           a # b # ws \<Rightarrow> map_option (\<lambda>lba. WriteAt lba (words_bytes (b # ws))) (number a) | _ \<Rightarrow> None)
       else if w = txt_of ''fill'' then (case args of
           [a, c] \<Rightarrow> Option.bind (number a) (\<lambda>lba. map_option (\<lambda>b. FillAt lba b 1) (single_byte c))
         | [a, c, n] \<Rightarrow> Option.bind (number a) (\<lambda>lba. Option.bind (single_byte c) (\<lambda>b.
             map_option (FillAt lba b) (number n)))
         | _ \<Rightarrow> None)
       else if w = txt_of ''peek'' then (case args of
           [a, off, n] \<Rightarrow> Option.bind (number a) (\<lambda>lba. Option.bind (number off) (\<lambda>o'.
             map_option (PeekAt lba o') (number n)))
         | _ \<Rightarrow> None)
       else if w = txt_of ''poke'' then (case args of
           a # off # b # ws \<Rightarrow> Option.bind (number a) (\<lambda>lba.
             map_option (\<lambda>o'. PokeAt lba o' (words_bytes (b # ws))) (number off))
         | _ \<Rightarrow> None)
       else None)"

section \<open>Carrying out a command\<close>

text \<open>
  \<open>n\<close> blocks from \<open>lba\<close> may be accessed when each belongs to the file (and the range does not pass
  the last block number), and can be transferred when they fit the driver's buffer and lie in the
  namespace. Nothing is transferred for no blocks.
\<close>

definition permitted :: "file_blocks \<Rightarrow> u64 \<Rightarrow> nat \<Rightarrow> bool" where
  "permitted fb lba n \<longleftrightarrow> n = 0 \<or> unat lba + n < 2 ^ 64 \<and>
     list_all (\<lambda>i. list_ex (covers (lba + of_nat i)) (extents fb)) [0..<n]"

definition transferable :: "nvm_namespace \<Rightarrow> u64 \<Rightarrow> nat \<Rightarrow> bool" where
  "transferable ns lba n \<longleftrightarrow> n = 0 \<or>
     n * ns_block_size ns \<le> 0x1FB000 \<and> in_capacity ns lba n"

definition accessible :: "nvm_namespace \<Rightarrow> file_blocks \<Rightarrow> u64 \<Rightarrow> nat \<Rightarrow> bool" where
  "accessible ns fb lba n \<longleftrightarrow> permitted fb lba n \<and> transferable ns lba n"

definition pad_blocks :: "nat \<Rightarrow> u8 list \<Rightarrow> u8 list" where
  "pad_blocks bs bytes = bytes @ replicate ((length bytes + bs - 1) div bs * bs - length bytes) 0"

text \<open>What is said after a command.\<close>

definition blocks_word :: "nat \<Rightarrow> rtext" where
  "blocks_word n = txt_of (if n = 1 then ''block'' else ''blocks'')"

definition block_listing :: "file_blocks \<Rightarrow> rtext list" where
  "block_listing fb =
     [txt_of ''block size '' @ udec (device_lba_size fb) @ txt_of '' bytes, '' @
        udec (total_lbas fb) @ txt_of '' blocks total ('' @
        udec (total_lbas fb * device_lba_size fb) @ txt_of '' bytes)'',
      right_aligned 16 (txt_of ''device-lba'') @ txt_of ''  '' @ right_aligned 12 (txt_of ''count'') @
        txt_of ''  state''] @
     map (\<lambda>e. right_aligned 16 (udec (ext_lba e)) @ txt_of ''  '' @ right_aligned 12 (udec (ext_count e)) @
       txt_of ''  '' @ txt_of (if ext_unwritten e then ''unwritten'' else ''written'')) (extents fb)"

text \<open>A read is listed block by block.\<close>

definition read_listing :: "nat \<Rightarrow> u64 \<Rightarrow> nat \<Rightarrow> u8 list \<Rightarrow> rtext list" where
  "read_listing bs lba n data =
     (txt_of ''read '' @ dec (length data) @ txt_of '' bytes from device-lba '' @ udec lba @ txt_of '':'') #
     listing (\<lambda>i. read_line (lba + of_nat i) (take bs (drop (i * bs) data))) n"

text \<open>The report on a controller that identifies itself by \<open>idc\<close>.\<close>

definition controller_report :: "u8 list \<Rightarrow> rtext list" where
  "controller_report idc = identification_section idc @ limits_section idc @ capabilities_section idc"

fun exec :: "u8 list \<Rightarrow> nvm_namespace \<Rightarrow> file_blocks \<Rightarrow> command \<Rightarrow> disk \<Rightarrow> (rtext list \<times> disk) option" where
  "exec idc ns fb Help K = Some ([join [10] help_text], K)"
| "exec idc ns fb Quit K = Some ([], K)"
| "exec idc ns fb ListBlocks K = Some (block_listing fb, K)"
| "exec idc ns fb ShowController K = Some (controller_report idc, K)"
| "exec idc ns fb (ReadAt lba n) K =
     (if accessible ns fb lba (unat n) then
        Some (read_listing (ns_block_size ns) lba (unat n) (load K (disk_pos ns lba) (unat n * ns_block_size ns)), K)
      else None)"
| "exec idc ns fb (WriteAt lba bytes) K =
     (let data = pad_blocks (ns_block_size ns) bytes; n = length data div ns_block_size ns in
      if bytes \<noteq> [] \<and> accessible ns fb lba n then
        Some ([txt_of ''wrote '' @ dec (length bytes) @ txt_of '' bytes into '' @ dec n @ txt_of '' '' @
          blocks_word n @ txt_of '' at device-lba '' @ udec lba @ txt_of '' (block tail zeroed)''],
          store K (disk_pos ns lba) data)
      else None)"
| "exec idc ns fb (FillAt lba b n) K =
     (let data = replicate (unat n * ns_block_size ns) b in
      if n \<noteq> 0 \<and> accessible ns fb lba (unat n) then
        Some ([txt_of ''wrote '' @ udec n @ txt_of '' '' @ blocks_word (unat n) @ txt_of '' ('' @
          dec (length data) @ txt_of '' bytes) of '' @ [39, unat b, 39] @ txt_of '' at device-lba '' @ udec lba],
          store K (disk_pos ns lba) data)
      else None)"
| "exec idc ns fb (PeekAt lba off n) K =
     (if unat off < ns_block_size ns \<and> unat off + unat n \<le> ns_block_size ns \<and> accessible ns fb lba 1 then
        Some ([txt_of ''peek '' @ udec n @ txt_of '' bytes at device-lba '' @ udec lba @ txt_of '' offset '' @
          udec off @ txt_of '': '' @ ascii_line (load K (disk_pos ns lba + unat off) (unat n))], K)
      else None)"
| "exec idc ns fb (PokeAt lba off bytes) K =
     (if bytes \<noteq> [] \<and> unat off + length bytes \<le> ns_block_size ns \<and> accessible ns fb lba 1 then
        Some ([txt_of ''wrote '' @ dec (length bytes) @ txt_of '' bytes at device-lba '' @ udec lba @
          txt_of '' offset '' @ udec off], store K (disk_pos ns lba + unat off) bytes)
      else None)"

section \<open>Sessions\<close>

text \<open>
  What the user sees: lines, and complaints (an error message). The session ends with \<open>quit\<close> or
  with the input, or fails with an error of the editor.
\<close>

datatype reply = Says rtext | Complains

fun abstract_session :: "u8 list \<Rightarrow> nvm_namespace \<Rightarrow> file_blocks \<Rightarrow> input list \<Rightarrow> disk \<Rightarrow> reply list \<times> bool \<times> disk" where
  "abstract_session idc ns fb [] K = ([], True, K)"
| "abstract_session idc ns fb (Interrupted # inputs) K = abstract_session idc ns fb inputs K"
| "abstract_session idc ns fb (Eof # inputs) K = ([], True, K)"
| "abstract_session idc ns fb (ReadlineError # inputs) K = ([], False, K)"
| "abstract_session idc ns fb (Line line # inputs) K =
     (if trim line = [] then abstract_session idc ns fb inputs K
      else case command_of (trim line) of
        Some Quit \<Rightarrow> ([], True, K)
      | c \<Rightarrow> (case Option.bind c (\<lambda>c. exec idc ns fb c K) of
          None \<Rightarrow> (case abstract_session idc ns fb inputs K of (rs, r) \<Rightarrow> (Complains # rs, r))
        | Some (ls, K') \<Rightarrow> (case abstract_session idc ns fb inputs K' of (rs, r) \<Rightarrow> (map Says ls @ rs, r))))"

text \<open>The program: a greeting, the session, and a complaint at the end if it failed, with the exit code.\<close>

definition greeting :: "file_blocks \<Rightarrow> rtext" where
  "greeting fb = txt_of ''nvmetoy repl: '' @ udec (total_lbas fb) @ txt_of '' device blocks of '' @
     udec (device_lba_size fb) @ txt_of '' bytes accessible (the file's blocks). '' @
     txt_of ''Type 'help', or Ctrl-D to quit.''"

definition abstract_program ::
  "u8 list \<Rightarrow> nvm_namespace \<Rightarrow> file_blocks \<Rightarrow> input list \<Rightarrow> disk \<Rightarrow> reply list \<times> nat \<times> disk" where
  "abstract_program idc ns fb inputs K = (case abstract_session idc ns fb inputs K of (rs, ok, K') \<Rightarrow>
     (Says (greeting fb) # rs @ (if ok then [] else [Complains]), if ok then 0 else 1, K'))"

text \<open>What of a log the user sees.\<close>

definition replies :: "event list \<Rightarrow> reply list" where
  "replies es = List.map_filter (\<lambda>e. case e of Print t \<Rightarrow> Some (Says t) | Report x \<Rightarrow> Some Complains | _ \<Rightarrow> None) es"

lemma replies_simps [simp]:
  "replies [] = []" "replies (Print t # es) = Says t # replies es" "replies (Report x # es) = Complains # replies es"
  by (simp_all add: replies_def List.map_filter_simps)

lemma replies_append [simp]: "replies (es @ fs) = replies es @ replies fs"
  by (simp add: replies_def List.map_filter_def)

lemma replies_prints [simp]: "replies (map Print ts) = map Says ts"
  by (induction ts) simp_all

lemma replies_silent: "list_all (\<lambda>e. case e of Print t \<Rightarrow> False | Report x \<Rightarrow> False | _ \<Rightarrow> True) es \<Longrightarrow> replies es = []"
  by (induction es) (auto simp: replies_def List.map_filter_simps split: event.splits)

end
