(* ===== verification/Repl_Refinement.thy ===== *)
theory Repl_Refinement
  imports Repl_Spec Disk_Commands Connected
begin

text \<open>
  The REPL on a controller that serves a disk is the abstract REPL on that disk: every command
  answers what \<open>exec\<close> answers and changes the disk as \<open>exec\<close> does, and so does a whole session.
\<close>

unbundle bit_operations_syntax

section \<open>What a program tells the user\<close>

text \<open>
  \<open>tells A K p rs v K'\<close>: from a machine that is at the disk \<open>K\<close> (relation \<open>A\<close>), \<open>p\<close> does not panic,
  says \<open>rs\<close>, returns \<open>v\<close> (\<open>None\<close>: some error), and leaves the machine at \<open>K'\<close>.
\<close>

definition yields :: "'a outcome \<Rightarrow> 'a option \<Rightarrow> bool" where
  "yields r v = (case v of Some x \<Rightarrow> r = Ok x | None \<Rightarrow> \<exists>e. r = Err e)"

lemma yields_simps [simp]: "yields r (Some x) \<longleftrightarrow> r = Ok x" "yields (Ok x) None = False" "yields (Err e) None"
    "yields (Panic q) None = False"
  by (simp_all add: yields_def)

definition tells ::
  "(disk \<Rightarrow> 'd machine \<Rightarrow> bool) \<Rightarrow> disk \<Rightarrow> ('d machine, 'a) prog \<Rightarrow> reply list \<Rightarrow> 'a option \<Rightarrow> disk \<Rightarrow> bool" where
  "tells A K p rs v K' \<longleftrightarrow> (\<forall>s. A K s \<longrightarrow> A K' (snd (p s)) \<and> yields (fst (p s)) v \<and>
     (\<exists>es. log (snd (snd (p s))) = log (snd s) @ es \<and> replies es = rs))"

named_theorems tells_rules "decomposition of tells along the structure of a program"

lemma tellsI:
  assumes "\<And>s. A K s \<Longrightarrow> A K' (snd (p s))" and "\<And>s. A K s \<Longrightarrow> yields (fst (p s)) v"
    and "\<And>s. A K s \<Longrightarrow> \<exists>es. log (snd (snd (p s))) = log (snd s) @ es \<and> replies es = rs"
  shows "tells A K p rs v K'"
  using assms by (simp add: tells_def)

lemma tellsD:
  assumes "tells A K p rs v K'" and "A K s"
  shows "A K' (snd (p s))" "yields (fst (p s)) v"
    "\<exists>es. log (snd (snd (p s))) = log (snd s) @ es \<and> replies es = rs"
  using assms unfolding tells_def by blast+

lemma tells_pure [tells_rules]:
  "tells A K (ret x) [] (Some x) K" "tells A K (fail e) [] None K"
  "yields r v \<Longrightarrow> tells A K (of_outcome r) [] v K"
  by (auto simp: tells_def run_simps)

lemma tells_andthen:
  assumes "tells A K p rs (Some x) K1" and "tells A K1 (f x) rs' v K2"
  shows "tells A K (andthen p f) (rs @ rs') v K2"
proof (rule tellsI)
  fix s assume "A K s"
  note 1 = tellsD [OF assms(1) this]
  note 2 = tellsD [OF assms(2) 1(1)]
  have eq: "andthen p f s = f x (snd (p s))" using 1(2) by (simp add: run_andthen)
  show "A K2 (snd (andthen p f s))" "yields (fst (andthen p f s)) v" using 2(1,2) by (simp_all add: eq)
  obtain es fs where "log (snd (snd (p s))) = log (snd s) @ es" "replies es = rs"
    "log (snd (snd (f x (snd (p s))))) = log (snd (snd (p s))) @ fs" "replies fs = rs'"
    using 1(3) 2(3) by blast
  then show "\<exists>es. log (snd (snd (andthen p f s))) = log (snd s) @ es \<and> replies es = rs @ rs'"
    by (intro exI [of _ "es @ fs"]) (simp add: eq)
qed

lemma tells_stops:
  assumes "tells A K p rs None K1"
  shows "tells A K (andthen p f) rs None K1"
  unfolding tells_def
proof (intro allI impI)
  fix s assume "A K s"
  note 1 = tellsD [OF assms this]
  obtain e where "fst (p s) = Err e" using 1(2) by (cases "fst (p s)") (simp_all add: yields_def)
  then have "andthen p f s = (Err e, snd (p s))" by (simp add: run_andthen)
  then show "A K1 (snd (andthen p f s)) \<and> yields (fst (andthen p f s)) None \<and>
      (\<exists>es. log (snd (snd (andthen p f s))) = log (snd s) @ es \<and> replies es = rs)"
    using 1 by simp
qed

text \<open>Sequencing, for a first program that says nothing.\<close>

lemma tells_then:
  assumes "tells A K p [] v K1" and "v = None \<Longrightarrow> rs = [] \<and> u = None \<and> K2 = K1"
    and "\<And>x. v = Some x \<Longrightarrow> tells A K1 (f x) rs u K2"
  shows "tells A K (andthen p f) rs u K2"
proof (cases v)
  case None
  then show ?thesis using assms(2) tells_stops [of A K p "[]" K1 f] assms(1) by simp
next
  case (Some x)
  then show ?thesis using tells_andthen [of A K p "[]" x K1 f rs u K2] assms(1,3) by simp
qed

text \<open>A continuation that catches the error.\<close>

lemma tells_catch:
  assumes "tells A K p rs v K1"
    and "\<And>x. v = Some x \<Longrightarrow> tells A K1 (f x) rs' u K2" and "\<And>e. v = None \<Longrightarrow> tells A K1 (g e) rs' u K2"
    and eq: "\<And>s. q s = (case fst (p s) of Ok x \<Rightarrow> f x (snd (p s)) | Err e \<Rightarrow> g e (snd (p s))
      | Panic x \<Rightarrow> (Panic x, snd (p s)))"
  shows "tells A K q (rs @ rs') u K2"
  unfolding tells_def
proof (intro allI impI)
  fix s assume "A K s"
  note 1 = tellsD [OF assms(1) this]
  obtain h where h: "q s = h (snd (p s))" "tells A K1 h rs' u K2"
    using 1(2) assms(2,3) by (cases v; cases "fst (p s)") (auto simp: eq)
  note 2 = tellsD [OF h(2) 1(1)]
  obtain es fs where "log (snd (snd (p s))) = log (snd s) @ es" "replies es = rs"
    "log (snd (snd (h (snd (p s))))) = log (snd (snd (p s))) @ fs" "replies fs = rs'"
    using 1(3) 2(3) by blast
  then have "\<exists>es. log (snd (snd (q s))) = log (snd s) @ es \<and> replies es = rs @ rs'"
    by (intro exI [of _ "es @ fs"]) (simp add: h(1))
  then show "A K2 (snd (q s)) \<and> yields (fst (q s)) u \<and>
      (\<exists>es. log (snd (snd (q s))) = log (snd s) @ es \<and> replies es = rs @ rs')"
    using 2(1,2) by (simp add: h(1))
qed

lemma tells_if [tells_rules]:
  "(c \<Longrightarrow> tells A K p rs v K') \<Longrightarrow> (\<not> c \<Longrightarrow> tells A K q rs v K') \<Longrightarrow> tells A K (if c then p else q) rs v K'"
  by simp

section \<open>The guard\<close>

lemma permitted_range:
  "permitted fb lba (unat n) \<longleftrightarrow> n = 0 \<or> unat lba + unat n < 2 ^ 64 \<and> block_range lba n \<subseteq> owned fb"
proof (cases "n = 0")
  case False
  then have "unat n \<noteq> 0" by (simp add: unsigned_eq_0_iff)
  moreover have "list_all (\<lambda>i. list_ex (covers (lba + of_nat i)) (extents fb)) [0..<unat n] \<longleftrightarrow>
      block_range lba n \<subseteq> owned fb" if fits: "unat lba + unat n < 2 ^ 64"
  proof -
    have at: "unat (lba + of_nat i) = unat lba + i" if "i < unat n" for i
      using that fits by (subst unat_add_no_wrap) (simp_all add: unat_of_nat_small)
    have "block_range lba n = (\<lambda>i. lba + of_nat i) ` {..<unat n}"
    proof (intro equalityI subsetI)
      fix b assume "b \<in> block_range lba n"
      then have b: "unat lba \<le> unat b" "unat b - unat lba < unat n" by (auto simp: block_range_def)
      have "b = lba + of_nat (unat b - unat lba)"
        by (rule word_unat_eq_iff [THEN iffD2]) (use b at [OF b(2)] in simp)
      then show "b \<in> (\<lambda>i. lba + of_nat i) ` {..<unat n}" using b(2) by blast
    qed (use at in \<open>auto simp: block_range_def\<close>)
    then show ?thesis by (simp add: list_all_iff list_ex_iff owned_def image_subset_iff atLeast0LessThan)
  qed
  ultimately show ?thesis using False by (auto simp: permitted_def)
qed (simp add: permitted_def)

lemma guard_yields: "yields (blocks_check fb lba n) (if permitted fb lba (unat n) then Some () else None)"
proof (cases "permitted fb lba (unat n)")
  case True
  then have "blocks_check fb lba n = Ok ()"
    using blocks_check_accepts [of lba n fb] by (auto simp: permitted_range blocks_check_def)
  with True show ?thesis by simp
next
  case False
  then have "blocks_check fb lba n \<noteq> Ok ()"
    using blocks_check_cases [where fb = fb and lba = lba and count = n] by (auto simp: permitted_range)
  with False show ?thesis by (cases "blocks_check fb lba n") auto
qed

lemma range_check:
  fixes bs off len :: u64
  shows "bs \<le> off \<or> bs - off < len \<longleftrightarrow> \<not> (unat off < unat bs \<and> unat off + unat len \<le> unat bs)"
  by (cases "unat off < unat bs") (auto simp: word_le_nat_alt word_less_nat_alt unat_sub)

section \<open>The REPL over an abstract disk\<close>

text \<open>
  \<open>A K s\<close>: the machine \<open>s\<close> holds the disk \<open>K\<close>. The driver's Read and Write are the transfers of the
  disk, its Identify returns \<open>idc\<close>, and none of them says anything.
\<close>

locale served_disk =
  fixes D :: "'d device" and fb :: file_blocks and idc :: "u8 list" and ns :: nvm_namespace
    and A :: "disk \<Rightarrow> 'd machine \<Rightarrow> bool"
  assumes size: "A K s \<Longrightarrow> device_lba_size fb = of_nat (ns_block_size ns) \<and>
      32 \<le> ns_block_size ns \<and> ns_block_size ns \<le> 2 ^ 32 \<and> length idc = 4096"
    and unlogged: "A K (dr, w) \<Longrightarrow> A K (dr, w\<lparr>log := l\<rparr>)"
    and identifies: "tells A K (driver_identify_controller D) [] (Some idc) K"
    and reads: "tells A K (driver_read D lba n) [] (fst (disk_step ns (ReadBlocks lba n) K)) K"
    and writes: "length data < 2 ^ 64 \<Longrightarrow> tells A K (driver_write D lba data) []
      (map_option (\<lambda>_. ()) (fst (disk_step ns (WriteBlocks lba data) K))) (snd (disk_step ns (WriteBlocks lba data) K))"
begin

lemma reached: "(\<And>s. A K s \<Longrightarrow> tells A K p rs v K') \<Longrightarrow> tells A K p rs v K'"
  by (simp add: tells_def)

lemma sizes:
  assumes "A K s"
  shows "device_lba_size fb = of_nat (ns_block_size ns)" "unat (device_lba_size fb) = ns_block_size ns"
    "32 \<le> ns_block_size ns" "ns_block_size ns \<le> 2 ^ 32" "device_lba_size fb \<noteq> 0" "length idc = 4096"
proof -
  show eq: "device_lba_size fb = of_nat (ns_block_size ns)" "32 \<le> ns_block_size ns" "ns_block_size ns \<le> 2 ^ 32"
    "length idc = 4096"
    using size [OF assms] by simp_all
  show "unat (device_lba_size fb) = ns_block_size ns"
    unfolding eq(1) by (rule unat_of_nat_small) (use eq(3) in simp)
  with eq(2) show "device_lba_size fb \<noteq> 0" by auto
qed

lemma say_tells: "tells A K (say t) [Says t] (Some ()) K"
  by (auto simp: tells_def say_def println_def run_on_snd run_access split_paired_all intro: unlogged)

lemma say_lines_tells: "tells A K (say_lines ts) (map Says ts) (Some ()) K"
  by (auto simp: tells_def run_say_lines split_paired_all intro: unlogged)

lemma report_tells: "tells A K (on_snd (emit (Report e))) [Complains] (Some ()) K"
  by (auto simp: tells_def run_on_snd run_access split_paired_all intro: unlogged)


section \<open>Confined access\<close>

lemma confined_read_tells:
  "tells A K (confined_read D fb lba n) []
    (if accessible ns fb lba (unat n) then Some (load K (disk_pos ns lba) (unat n * ns_block_size ns)) else None) K"
proof (rule reached)
  fix s assume "A K s"
  note sz = sizes [OF this]
  show ?thesis
    unfolding confined_read_def
  proof (rule tells_then [OF tells_pure(3) [OF guard_yields]])
    fix u assume "(if permitted fb lba (unat n) then Some () else None) = Some u"
    then have p: "permitted fb lba (unat n)" by (simp split: if_splits)
    consider "n = 0" | "n \<noteq> 0" "2 ^ 16 \<le> unat n" | "n \<noteq> 0" "unat n < 2 ^ 16" by linarith
    then show "tells A K (if n = 0 then ret [] else if 2 ^ 16 \<le> unat n then fail ReadTooLargeForCommand
        else driver_read D lba (ucast n)) []
      (if accessible ns fb lba (unat n) then Some (load K (disk_pos ns lba) (unat n * ns_block_size ns)) else None) K"
    proof cases
      case 1
      then show ?thesis using p by (simp add: accessible_def transferable_def load_def tells_pure)
    next
      case 2
      then have "32 * 2 ^ 16 \<le> ns_block_size ns * unat n" using sz(3) by (intro mult_le_mono)
      then have "\<not> accessible ns fb lba (unat n)"
        using 2 by (simp add: accessible_def transferable_def unsigned_eq_0_iff mult.commute)
      then show ?thesis using 2 by (simp add: tells_pure)
    next
      case 3
      have "unat (ucast n :: u16) = unat n" using 3 by (simp add: unat_bits)
      moreover from this have "(ucast n :: u16) \<noteq> 0" using 3(1) by (metis unsigned_0 unsigned_eq_0_iff)
      moreover have "unat n \<noteq> 0" using 3(1) by (simp add: unsigned_eq_0_iff)
      ultimately show ?thesis
        using reads [of K lba "ucast n"] p 3
        by (cases "accessible ns fb lba (unat n)")
          (auto simp add: accessible_def transferable_def mult.commute not_le)
    qed
  qed (simp add: accessible_def split: if_splits)
qed

lemma confined_write_tells:
  assumes data: "data \<noteq> []" "length data = n * ns_block_size ns" "length data < 2 ^ 64"
  shows "tells A K (confined_write D fb lba data) [] (if accessible ns fb lba n then Some (of_nat n) else None)
    (if accessible ns fb lba n then store K (disk_pos ns lba) data else K)"
proof (rule reached)
  fix s assume "A K s"
  note sz = sizes [OF this]
  have len: "unat (of_nat (length data) :: u64) = length data" using data(3) by (intro unat_of_nat_small) simp
  have "unat (of_nat (length data) mod device_lba_size fb) = 0"
    by (simp only: unat_mod len sz(2)) (simp add: data(2))
  then have m: "of_nat (length data) mod device_lba_size fb = 0" by (simp add: unsigned_eq_0_iff)
  have "unat (of_nat (length data) div device_lba_size fb) = n"
    using sz(3) by (simp only: unat_div len sz(2)) (simp add: data(2))
  then have q: "of_nat (length data) div device_lba_size fb = of_nat n" "unat (of_nat n :: u64) = n"
    by (metis unat_eqD)+
  have n0: "n \<noteq> 0" using data(1,2) by (intro notI) simp
  have "tells A K (andthen (of_outcome (blocks_check fb lba (of_nat n))) (\<lambda>_.
      andthen (driver_write D lba data) (\<lambda>_. ret (of_nat n :: u64)))) []
    (if accessible ns fb lba n then Some (of_nat n) else None)
    (if accessible ns fb lba n then store K (disk_pos ns lba) data else K)"
  proof (rule tells_then [OF tells_pure(3) [OF guard_yields]])
    fix u assume "(if permitted fb lba (unat (of_nat n :: u64)) then Some () else None) = Some u"
    then have p: "permitted fb lba n" by (simp add: q(2) split: if_splits)
    have d: "length data mod ns_block_size ns = 0" "length data div ns_block_size ns = n"
      using sz(3) by (simp_all add: data(2))
    show "tells A K (andthen (driver_write D lba data) (\<lambda>_. ret (of_nat n :: u64))) []
        (if accessible ns fb lba n then Some (of_nat n) else None)
        (if accessible ns fb lba n then store K (disk_pos ns lba) data else K)"
      by (rule tells_then [OF writes [OF data(3)]])
        (use p d n0 data in \<open>auto simp: accessible_def transferable_def tells_pure split: if_splits\<close>)
  qed (simp add: accessible_def q(2) split: if_splits)
  then show "tells A K (confined_write D fb lba data) [] (if accessible ns fb lba n then Some (of_nat n) else None)
      (if accessible ns fb lba n then store K (disk_pos ns lba) data else K)"
    using data(1) m sz(5) by (simp add: confined_write_def Let_def q(1))
qed


section \<open>The commands\<close>

text \<open>A command that runs like its specification: what it says, and the disk afterwards.\<close>

definition does :: "('d machine, unit) prog \<Rightarrow> disk \<Rightarrow> command \<Rightarrow> bool" where
  "does p K c \<longleftrightarrow> tells A K p (case exec idc ns fb c K of None \<Rightarrow> [] | Some (ls, K') \<Rightarrow> map Says ls)
     (map_option (\<lambda>_. ()) (exec idc ns fb c K)) (case exec idc ns fb c K of None \<Rightarrow> K | Some (ls, K') \<Rightarrow> K')"

lemma does_reached: "(\<And>s. A K s \<Longrightarrow> does p K c) \<Longrightarrow> does p K c"
  unfolding does_def by (rule reached)

lemma does_Some: "exec idc ns fb c K = Some (ls, K') \<Longrightarrow> does p K c \<longleftrightarrow> tells A K p (map Says ls) (Some ()) K'"
  and does_None: "exec idc ns fb c K = None \<Longrightarrow> does p K c \<longleftrightarrow> tells A K p [] None K"
  by (simp_all add: does_def)

lemma does_help: "does repl_help K Help"
  using say_tells by (simp add: does_def repl_help_def)

lemma does_list: "does (print_blocks fb) K ListBlocks"
  using say_lines_tells [of K "block_listing fb"] by (simp add: does_def print_blocks_def block_listing_def)

lemma does_identify:
  "does (andthen (driver_identify_controller D) (\<lambda>data. on_snd (print_controller_identification data))) K ShowController"
proof (rule does_reached)
  fix s assume "A K s"
  then have "read_from_prefix identify_controller idc = Some idc"
    by (simp only: read_from_prefix_def identify_sizes) (simp add: sizes)
  then have print: "tells A K (on_snd (print_controller_identification idc)) (map Says (controller_report idc)) (Some ()) K"
    by (auto simp: tells_def run_on_snd print_controller_identification_def run_print_lines controller_report_def
        split_paired_all intro: unlogged)
  have "tells A K (andthen (driver_identify_controller D) (\<lambda>data. on_snd (print_controller_identification data)))
      ([] @ map Says (controller_report idc)) (Some ()) K" by (rule tells_andthen, rule identifies, rule print)
  then show "does (andthen (driver_identify_controller D) (\<lambda>data. on_snd (print_controller_identification data))) K
      ShowController" by (simp add: does_def)
qed

lemma does_read:
  "does (andthen (confined_read D fb lba n) (\<lambda>data. print_read lba data (device_lba_size fb))) K (ReadAt lba n)"
proof (rule does_reached)
  fix s assume "A K s"
  note sz = sizes [OF this]
  let ?bs = "ns_block_size ns" and ?p = "andthen (confined_read D fb lba n) (\<lambda>data. print_read lba data (device_lba_size fb))"
  show "does ?p K (ReadAt lba n)"
  proof (cases "accessible ns fb lba (unat n)")
    case False
    then show ?thesis
      using confined_read_tells [of K lba n] by (simp add: does_None tells_stops)
  next
    case True
    let ?data = "load K (disk_pos ns lba) (unat n * ?bs)"
    have "unat n * ?bs < 2 ^ 64" using True by (auto simp: accessible_def transferable_def)
    then have shown: "print_read lba ?data (device_lba_size fb) (dr, w) =
        (Ok (), (dr, w\<lparr>log := log w @ map Print (read_listing ?bs lba (unat n) ?data)\<rparr>))" for dr and w :: "'d world"
    proof -
      have "(unat n * ?bs + ?bs - 1) div ?bs = unat n" using sz(3) nat_ceil_div [of ?bs "unat n * ?bs"] by simp
      then show ?thesis
        using run_print_read [of "device_lba_size fb" ?data lba dr w] sz(3) \<open>unat n * ?bs < 2 ^ 64\<close>
        by (simp only: sz(2) read_listing_def length_load)
    qed
    have "tells A K (print_read lba ?data (device_lba_size fb))
        (map Says (read_listing ?bs lba (unat n) ?data)) (Some ()) K"
      by (auto simp: tells_def shown split_paired_all intro: unlogged)
    then show ?thesis
      using tells_andthen [OF confined_read_tells [of K lba n, unfolded if_P [OF True]]] True
      by (fastforce simp: does_Some)
  qed
qed

text \<open>A command that ends with a confined write and a message.\<close>

lemma does_write_then:
  assumes data: "data \<noteq> []" "length data = n * ns_block_size ns" "length data < 2 ^ 64"
    and spec: "exec idc ns fb c K = (if accessible ns fb lba n
      then Some ([msg (of_nat n)], store K (disk_pos ns lba) data) else None)"
  shows "does (andthen (confined_write D fb lba data) (\<lambda>m. say (msg m))) K c"
proof (cases "accessible ns fb lba n")
  case True
  then have "tells A K (confined_write D fb lba data) [] (Some (of_nat n)) (store K (disk_pos ns lba) data)"
    using confined_write_tells [OF data, of K lba] by simp
  from tells_andthen [OF this say_tells] show ?thesis by (simp add: does_Some [OF spec [unfolded if_P [OF True]]])
next
  case False
  then have "tells A K (confined_write D fb lba data) [] None K"
    using confined_write_tells [OF data, of K lba] by simp
  from tells_stops [OF this] show ?thesis by (simp add: does_None [OF spec [unfolded if_not_P [OF False]]])
qed

lemma does_fail: "exec idc ns fb c K = None \<Longrightarrow> does (fail e) K c"
  by (simp add: does_None tells_pure)

lemma plural_word: "plural n = blocks_word (unat n)"
  using unat_eqD [of n 1] by (auto simp: plural_def blocks_word_def)

lemma does_fill: "does (fill D fb lba byte n) K (FillAt lba byte n)"
proof (rule does_reached)
  fix s assume "A K s"
  note sz = sizes [OF this]
  let ?bs = "ns_block_size ns" and ?data = "replicate (unat n * ns_block_size ns) byte"
  have prod: "unat (n * device_lba_size fb) = unat n * ?bs" if "unat n * ?bs < 2 ^ 64"
    using that by (subst unat_mult_no_wrap) (simp_all add: sz(2))
  show "does (fill D fb lba byte n) K (FillAt lba byte n)"
  proof (cases "n \<noteq> 0 \<and> unat n * ?bs \<le> 0x1FB000")
    case False
    then have "exec idc ns fb (FillAt lba byte n) K = None"
      by (auto simp: accessible_def transferable_def unsigned_eq_0_iff Let_def)
    moreover have "\<exists>e. fill D fb lba byte n = fail e"
      using False prod
      by (auto simp: fill_def checked_mul_def sz(2) word_le_nat_alt unat_MAX_TRANSFER_BYTES)
    ultimately show ?thesis by (auto intro: does_fail simp del: exec.simps)
  next
    case True
    then have "fill D fb lba byte n = andthen (confined_write D fb lba ?data) (\<lambda>written.
        say (txt_of ''wrote '' @ udec written @ txt_of '' '' @ plural written @ txt_of '' ('' @
          dec (length ?data) @ txt_of '' bytes) of '' @ [39, unat byte, 39] @ txt_of '' at device-lba '' @ udec lba))"
      by (simp add: fill_def checked_mul_def sz(2) prod word_le_nat_alt unat_MAX_TRANSFER_BYTES Let_def)
    then show ?thesis
      using True sz(3) does_write_then [where data = ?data and n = "unat n" and c = "FillAt lba byte n" and K = K and lba = lba and
          msg = "\<lambda>written.
        txt_of ''wrote '' @ udec written @ txt_of '' '' @ plural written @ txt_of '' ('' @
          dec (length ?data) @ txt_of '' bytes) of '' @ [39, unat byte, 39] @ txt_of '' at device-lba '' @ udec lba"]
      by (simp add: unsigned_eq_0_iff plural_word Let_def)
  qed
qed

text \<open>One block, read and then used.\<close>

lemma read_one_tells:
  assumes "accessible ns fb lba 1 \<Longrightarrow> tells A K (f (load K (disk_pos ns lba) (ns_block_size ns))) rs v K'"
    and "\<not> accessible ns fb lba 1 \<Longrightarrow> rs = [] \<and> v = None \<and> K' = K"
  shows "tells A K (andthen (confined_read D fb lba 1) f) rs v K'"
  using confined_read_tells [of K lba 1] assms by (intro tells_then) (auto split: if_splits)

lemma does_peek: "does (peek D fb lba off n) K (PeekAt lba off n)"
proof (rule does_reached)
  fix s assume "A K s"
  note sz = sizes [OF this]
  show "does (peek D fb lba off n) K (PeekAt lba off n)"
  proof (cases "unat off < ns_block_size ns \<and> unat off + unat n \<le> ns_block_size ns")
    case False
    then show ?thesis by (auto simp: peek_def range_check sz(2) intro: does_fail)
  next
    case True
    have "take (unat n) (drop (unat off) (load K p (ns_block_size ns))) = load K (p + unat off) (unat n)" for p
      using True by (intro nth_equalityI) (simp_all add: add.assoc min_absorb2 le_diff_conv2 ac_simps)
    then show ?thesis
      using True unfolding peek_def Let_def range_check sz(2) does_def
      by (auto intro!: read_one_tells say_tells)
  qed
qed

lemma does_poke:
  assumes short: "length (as_bytes t) < 2 ^ 64"
  shows "does (poke D fb lba off t) K (PokeAt lba off (as_bytes t))"
proof (rule does_reached)
  fix s assume "A K s"
  note sz = sizes [OF this]
  let ?bytes = "as_bytes t"
  have len: "unat (of_nat (length ?bytes) :: u64) = length ?bytes" using short by (intro unat_of_nat_small) simp
  show "does (poke D fb lba off t) K (PokeAt lba off ?bytes)"
  proof (cases "?bytes \<noteq> [] \<and> unat off + length ?bytes \<le> ns_block_size ns")
    case False
    then show ?thesis by (auto simp: poke_def range_check sz(2) len Let_def intro: does_fail)
  next
    case True
    then have "unat off < ns_block_size ns" by (cases ?bytes) auto
    let ?block = "load K (disk_pos ns lba) (ns_block_size ns)"
    let ?data = "take (unat off) ?block @ ?bytes @ drop (unat off + length ?bytes) ?block"
    have data: "?data \<noteq> []" "length ?data = 1 * ns_block_size ns" "length ?data < 2 ^ 64"
      using True sz(4) by simp_all
    have put: "tells A K (confined_write D fb lba ?data) [] (Some 1) (store K (disk_pos ns lba + unat off) ?bytes)"
      if "accessible ns fb lba 1"
      using confined_write_tells [OF data, of K lba] that True by (simp add: store_patched)
    have said: "tells A K (andthen (confined_write D fb lba ?data) (\<lambda>_. say msg)) [Says msg] (Some ())
        (store K (disk_pos ns lba + unat off) ?bytes)" if "accessible ns fb lba 1" for msg
      using tells_andthen [OF put [OF that] say_tells] by simp
    show ?thesis
      using True \<open>unat off < ns_block_size ns\<close> unfolding poke_def Let_def range_check sz(2) len does_def
      by (auto intro!: read_one_tells said simp del: append_assoc)
  qed
qed

lemma does_write:
  assumes short: "length bytes < 2 ^ 62"
  shows "does (andthen (write_blocks D fb lba bytes) (\<lambda>count. say (txt_of ''wrote '' @ dec (length bytes) @
      txt_of '' bytes into '' @ udec count @ txt_of '' '' @ plural count @ txt_of '' at device-lba '' @ udec lba @
      txt_of '' (block tail zeroed)''))) K (WriteAt lba bytes)"
proof (rule does_reached)
  fix s assume "A K s"
  note sz = sizes [OF this]
  let ?bs = "ns_block_size ns"
  let ?msg = "\<lambda>count. txt_of ''wrote '' @ dec (length bytes) @ txt_of '' bytes into '' @ udec count @ txt_of '' '' @
      plural count @ txt_of '' at device-lba '' @ udec lba @ txt_of '' (block tail zeroed)''"
  show "does (andthen (write_blocks D fb lba bytes) (\<lambda>count. say (?msg count))) K (WriteAt lba bytes)"
  proof (cases "bytes = []")
    case True
    then show ?thesis using tells_stops [OF tells_pure(2)] by (simp add: write_blocks_def does_None)
  next
    case False
    have pos: "0 < unat (device_lba_size fb)" "unat (device_lba_size fb) \<le> 2 ^ 32" using sz(2-4) by simp_all
    note size = padded_size [OF pos short, unfolded sz(2)]
    define data where "data = pad_blocks ?bs bytes"
    define n where "n = length data div ?bs"
    have "length data = (length bytes + ?bs - 1) div ?bs * ?bs" using size by (simp add: data_def pad_blocks_def)
    then have n: "length data = n * ?bs" using sz(3) by (simp add: n_def)
    have data: "data \<noteq> []" "length data < 2 ^ 64"
      using False size by (simp_all add: data_def pad_blocks_def)
    have "n * 1 \<le> n * ?bs" using sz(3) by (intro mult_le_mono2) simp
    then have "n < 2 ^ 64" using data(2) n by linarith
    then have "unat (of_nat n :: u64) = n" by (intro unat_of_nat_small) simp
    then have "exec idc ns fb (WriteAt lba bytes) K = (if accessible ns fb lba n
        then Some ([?msg (of_nat n)], store K (disk_pos ns lba) data) else None)"
      using False by (simp add: Let_def plural_word udec_def flip: data_def n_def)
    note does_write_then [where msg = ?msg, OF data(1) n data(2) this]
    moreover have "write_blocks D fb lba bytes = confined_write D fb lba data"
      using False size sz(5) by (simp add: write_blocks_def Let_def data_def pad_blocks_def)
    ultimately show ?thesis by simp
  qed
qed

section \<open>A line\<close>

text \<open>A line that runs like the command it parses to, if any: the loop goes on unless it is \<open>quit\<close>.\<close>

definition answers :: "('d machine, bool) prog \<Rightarrow> disk \<Rightarrow> command option \<Rightarrow> bool" where
  "answers p K c \<longleftrightarrow> (let r = Option.bind c (\<lambda>c. exec idc ns fb c K)
     in tells A K p (case r of None \<Rightarrow> [] | Some (ls, K') \<Rightarrow> map Says ls) (map_option (\<lambda>_. c \<noteq> Some Quit) r)
          (case r of None \<Rightarrow> K | Some (ls, K') \<Rightarrow> K'))"

lemma answers_stay:
  assumes "does p K c" and "c \<noteq> Quit"
  shows "answers (stay p) K (Some c)"
proof (cases "exec idc ns fb c K")
  case None
  then show ?thesis using assms tells_stops by (simp add: answers_def does_def stay_def)
next
  case (Some r)
  obtain ls K' where r: "r = (ls, K')" by (cases r)
  have "tells A K p (map Says ls) (Some ()) K'" using assms(1) Some by (simp add: does_def r)
  from tells_andthen [OF this tells_pure(1)] show ?thesis using assms(2) Some by (simp add: answers_def stay_def r)
qed

lemma answers_None: "answers (fail e) K None"
  by (simp add: answers_def tells_pure)

lemma answers_quit: "answers (ret False) K (Some Quit)"
  by (simp add: answers_def tells_pure)

lemma answers_parsed:
  assumes "yields r v" and "\<And>x. v = Some x \<Longrightarrow> answers (stay (f x)) K (g x)"
  shows "answers (stay (andthen (of_outcome r) f)) K (Option.bind v g)"
proof (cases v)
  case None
  have "tells A K (stay (andthen (of_outcome r) f)) [] None K"
    unfolding stay_def by (intro tells_stops tells_pure) (use assms(1) None in simp)
  with None show ?thesis by (simp add: answers_def)
next
  case (Some x)
  then have "andthen (of_outcome r) f = f x" using assms(1) by (simp add: fun_eq_iff run_simps)
  with Some assms(2) show ?thesis by simp
qed

lemma parsed: "yields (parse_u64 t) (number t)" "yields (parse_ascii_char t) (single_byte t)"
  by (auto simp: yields_def parse_u64_def number_def parse_ascii_char_def single_byte_def split: option.split list.split)

lemma bind_Some: "map_option f v = Option.bind v (\<lambda>x. Some (f x))"
  by (cases v) simp_all

lemma commands_answer:
  "answers (stay (repl_read D fb a n)) K
    (Option.bind (number a) (\<lambda>lba. map_option (ReadAt lba) (number n)))"
  "yields r v \<Longrightarrow> answers (stay (repl_fill D fb a c r)) K
    (Option.bind (number a) (\<lambda>lba. Option.bind (single_byte c) (\<lambda>b. map_option (FillAt lba b) v)))"
  "answers (stay (repl_peek D fb a x n)) K
    (Option.bind (number a) (\<lambda>lba. Option.bind (number x) (\<lambda>off. map_option (PeekAt lba off) (number n))))"
  "length (words_bytes ws) < 2 ^ 62 \<Longrightarrow> answers (stay (repl_poke D fb a x ws)) K
    (Option.bind (number a) (\<lambda>lba. map_option (\<lambda>off. PokeAt lba off (words_bytes ws)) (number x)))"
  "length (words_bytes ws) < 2 ^ 62 \<Longrightarrow> answers (stay (repl_write D fb a ws)) K
    (map_option (\<lambda>lba. WriteAt lba (words_bytes ws)) (number a))"
  unfolding repl_read_def repl_fill_def repl_peek_def repl_poke_def repl_write_def bind_Some
    Let_def words_bytes_def
  by (intro answers_parsed parsed answers_stay does_read does_fill does_peek does_poke does_write; simp)+

lemma fill_one_answers:
  "answers (stay (repl_fill D fb a c (Ok 1))) K
    (Option.bind (number a) (\<lambda>lba. map_option (\<lambda>b. FillAt lba b 1) (single_byte c)))"
  using commands_answer(2) [of "Ok 1" "Some 1"] by (simp add: bind_Some)

lemma line_answers:
  assumes short: "short_line line"
  shows "answers (run_repl_line D fb line) K (command_of line)"
proof (cases "split_whitespace line")
  case Nil
  then show ?thesis by (simp add: run_repl_line_def command_of_def answers_None)
next
  case (Cons w ws)
  have short': "length (words_bytes (drop n ws)) < 2 ^ 62" for n
    unfolding words_bytes_def by (rule short_rest [OF short Cons])
  consider "ws = []" | a where "ws = [a]" | a b where "ws = [a, b]" | a b c where "ws = [a, b, c]"
    | a b c d ds where "ws = a # b # c # d # ds" by (metis list.exhaust)
  then show ?thesis
  proof cases
    case 1
    then show ?thesis using Cons
      by (auto simp: run_repl_line_def command_of_def
        intro!: answers_None answers_quit answers_stay does_help does_list does_identify)
  qed (use Cons short' [of 1] short' [of 2] in \<open>auto simp: run_repl_line_def command_of_def
      intro!: answers_None commands_answer fill_one_answers parsed\<close>)
qed

section \<open>A session\<close>

lemma session_tells:
  assumes "list_all short_input inputs" and "abstract_session idc ns fb inputs K = (rs, ok, K')"
  shows "tells A K (repl_loop D fb inputs) rs (if ok then Some () else None) K'"
  using assms
proof (induction inputs arbitrary: K rs)
  case Nil
  then show ?case by (auto simp: tells_pure)
next
  case (Cons i inputs)
  have short: "list_all short_input inputs" using Cons.prems by simp
  note IH = Cons.IH [OF short]
  show ?case
  proof (cases i)
    case (Line line)
    show ?thesis
    proof (cases "trim line = []")
      case True
      then show ?thesis using Cons.prems(2) IH by (simp add: Line)
    next
      case False
      let ?c = "command_of (trim line)"
      let ?r = "Option.bind ?c (\<lambda>c. exec idc ns fb c K)"
      have "short_line (trim line)"
        using Cons.prems(1) Line trim_shorter [of line] by (simp add: short_input_def short_line_def)
      then have line: "answers (run_repl_line D fb (trim line)) K ?c"
        by (rule line_answers)
      have run: "repl_loop D fb (i # inputs) s = (case fst (run_repl_line D fb (trim line) s) of
          Ok b \<Rightarrow> (if b then repl_loop D fb inputs else ret ()) (snd (run_repl_line D fb (trim line) s))
        | Err e \<Rightarrow> andthen (on_snd (emit (Report e))) (\<lambda>_. repl_loop D fb inputs) (snd (run_repl_line D fb (trim line) s))
        | Panic q \<Rightarrow> (Panic q, snd (run_repl_line D fb (trim line) s)))" for s
        using False by (auto simp: Line run_ret split: prod.split outcome.split bool.split)
      show ?thesis
      proof (cases ?r)
        case None
        then have "?c \<noteq> Some Quit" by auto
        with None obtain rs1 where rest: "abstract_session idc ns fb inputs K = (rs1, ok, K')" "rs = Complains # rs1"
          using Cons.prems(2) False by (auto simp: Line split: option.splits command.splits prod.splits)
        have told: "tells A K (run_repl_line D fb (trim line)) [] None K" using line None by (simp add: answers_def)
        have "tells A K (andthen (on_snd (emit (Report e))) (\<lambda>_. repl_loop D fb inputs)) ([Complains] @ rs1)
            (if ok then Some () else None) K'" for e
          by (rule tells_andthen [OF report_tells IH [OF rest(1)]])
        from tells_catch [OF told _ this run] show ?thesis by (simp add: rest(2))
      next
        case (Some r)
        obtain ls K1 where r: "r = (ls, K1)" by (cases r)
        have told: "tells A K (run_repl_line D fb (trim line)) (map Says ls) (Some (?c \<noteq> Some Quit)) K1"
          using line Some by (simp add: answers_def r)
        show ?thesis
        proof (cases "?c = Some Quit")
          case True
          then have "ls = []" "K1 = K" "rs = []" "ok" "K' = K" using Some r Cons.prems(2) False by (simp_all add: Line)
          with told True have "tells A K (run_repl_line D fb (trim line)) [] (Some False) K" by simp
          from tells_catch [OF this _ _ run, of "[]" "Some ()" K] show ?thesis
            using \<open>rs = []\<close> \<open>ok\<close> \<open>K' = K\<close> by (simp add: tells_pure)
        next
          case other: False
          then obtain rs1 where rest: "abstract_session idc ns fb inputs K1 = (rs1, ok, K')" "rs = map Says ls @ rs1"
            using Cons.prems(2) False Some by (auto simp: Line r split: option.splits command.splits prod.splits)
          show ?thesis
            unfolding rest(2) by (rule tells_catch [OF told _ _ run]) (use other IH [OF rest(1)] in simp_all)
        qed
      qed
    qed
  qed (use Cons.prems(2) IH in \<open>auto simp: tells_pure\<close>)
qed

end

section \<open>On a controller that serves a disk\<close>

text \<open>A log inside the driver's footprint says nothing to the user.\<close>

lemma footprint_replies: "list_all (footprint stride qs) es \<Longrightarrow> replies es = []"
  by (rule replies_silent) (auto elim!: list.pred_mono_strong simp: footprint_def split: event.splits)

lemma safe_answer_tells:
  assumes "\<And>dr. safe_driver dr Q p (\<lambda>_. True)"
    and "\<And>s. A K s \<Longrightarrow> driver_ok (fst s)"
    and "\<And>s. A K s \<Longrightarrow> answer (fst (p s)) = v \<and> A K' (snd (p s))"
  shows "tells A K p [] v K'"
  unfolding tells_def
proof (intro allI impI)
  fix s assume s: "A K s"
  have at: "driver_at (fst s) (fst s)" by (rule driver_at_self [OF assms(2) [OF s]])
  note d = safeD(2,3) [OF assms(1), where s = s, OF at]
  show "A K' (snd (p s)) \<and> yields (fst (p s)) v \<and>
      (\<exists>es. log (snd (snd (p s))) = log (snd s) @ es \<and> replies es = [])"
    using assms(3) [OF s] d footprint_replies
    by (cases "fst (p s)") (auto simp: answer_def)
qed

interpretation on_disk: served_disk D fb idc ns
  "\<lambda>K s. device_lba_size fb = of_nat (ns_block_size ns) \<and> connected D ns latency idc idn idle abusy busy K s"
  for D :: "'d device" and fb idc ns latency idn idle abusy busy
proof
  let ?A = "\<lambda>K s. device_lba_size fb = of_nat (ns_block_size ns) \<and> connected D ns latency idc idn idle abusy busy K s"
  have ok: "?A K s \<Longrightarrow> driver_ok (fst s)" for K s using connectedD(1) by blast
  show "?A K s \<Longrightarrow> device_lba_size fb = of_nat (ns_block_size ns) \<and> 32 \<le> ns_block_size ns \<and>
      ns_block_size ns \<le> 2 ^ 32 \<and> length idc = 4096" for K s
    by (auto dest: connectedD(3-5))
  show "?A K (dr, w) \<Longrightarrow> ?A K (dr, w\<lparr>log := l\<rparr>)" for K dr w l by simp
  show "tells ?A K (driver_identify_controller D) [] (Some idc) K" for K
  proof (rule safe_answer_tells [OF _ ok])
    show "safe_driver dr {0} (driver_identify_controller D) (\<lambda>_. True)" for dr
      unfolding driver_identify_controller_def by (rule safe_weaken [OF identify_safe]) simp_all
    fix s assume "?A K s"
    then show "answer (fst (driver_identify_controller D s)) = Some idc \<and> ?A K (snd (driver_identify_controller D s))"
      using connected_identify [of D ns latency idc idn idle abusy busy K "fst s" "snd s"] by (auto simp: answer_def)
  qed
  show "tells ?A K (driver_read D lba n) [] (fst (disk_step ns (ReadBlocks lba n) K)) K" for K lba n
  proof (rule safe_answer_tells [OF driver_read_safe ok], assumption)
    fix s assume "?A K s"
    then show "answer (fst (driver_read D lba n s)) = fst (disk_step ns (ReadBlocks lba n) K) \<and>
        ?A K (snd (driver_read D lba n s))"
      using connected_read [of D ns latency idc idn idle abusy busy K "fst s" "snd s" lba n] by (simp del: disk_step.simps)
  qed
  show "tells ?A K (driver_write D lba data) [] (map_option (\<lambda>_. ()) (fst (disk_step ns (WriteBlocks lba data) K)))
      (snd (disk_step ns (WriteBlocks lba data) K))" if len: "length data < 2 ^ 64" for K lba data
  proof (rule safe_answer_tells [OF driver_write_safe [OF len] ok], assumption)
    fix s assume "?A K s"
    then show "answer (fst (driver_write D lba data s)) =
        map_option (\<lambda>_. ()) (fst (disk_step ns (WriteBlocks lba data) K)) \<and>
        ?A (snd (disk_step ns (WriteBlocks lba data) K)) (snd (driver_write D lba data s))"
      using connected_write [of D ns latency idc idn idle abusy busy K "fst s" "snd s" data lba] len
      by (cases "answer (fst (driver_write D lba data s))"; cases "fst (disk_step ns (WriteBlocks lba data) K)")
        (simp_all del: disk_step.simps)
  qed
qed

text \<open>A session of the REPL on a controller that serves a disk.\<close>

lemma session_on_disk:
  assumes "connected D ns latency idc idn idle abusy busy K (dr, w)" and "device_lba_size fb = of_nat (ns_block_size ns)"
    and "list_all short_input inputs" and "abstract_session idc ns fb inputs K = (rs, ok, K')"
    and run: "repl_loop D fb inputs (dr, w) = (r, (dr', w'))"
  shows "connected D ns latency idc idn idle abusy busy K' (dr', w') \<and> yields r (if ok then Some () else None) \<and>
    (\<exists>es. log w' = log w @ es \<and> replies es = rs)"
proof -
  note told = on_disk.session_tells [OF assms(3,4), of D latency idn idle abusy busy]
  have "device_lba_size fb = of_nat (ns_block_size ns) \<and> connected D ns latency idc idn idle abusy busy K (dr, w)"
    using assms(1,2) by simp
  from tellsD [OF told this] show ?thesis by (simp add: run)
qed

end
