(* ===== verification/Whole_Run.thy ===== *)
theory Whole_Run
  imports Driver_Runs Repl_Program
begin

text \<open>
  The whole program on an obedient controller: a session names only blocks of the file, so a run,
  from the arguments to the exit code, changes only the file.
\<close>

unbundle bit_operations_syntax

section \<open>The session moves the machine\<close>

lemma say_moves [moves_rules]: "pair_moves D J (tame True base A) (say t)"
  unfolding say_def println_def by (intro moves_rules)

lemma say_lines_moves [moves_rules]: "pair_moves D J (tame True base A) (say_lines ts)"
  by (induction ts) (auto intro: moves_rules)

lemma report_moves [moves_rules]:
  "pair_moves D J (tame True base A) (on_snd (print_controller_identification data))"
proof -
  have "world_moves D (tame True base A) (print_lines ts)" for ts
    by (induction ts) (auto simp: println_def intro!: moves_rules)
  then show ?thesis unfolding print_controller_identification_def by (intro moves_rules)
qed

lemma confined_moves [moves_rules]:
  "pair_moves D (placed base) (tame True base transfer_command) (confined_read D fb lba n)"
  "pair_moves D (placed base) (tame True base transfer_command) (confined_write D fb lba data)"
  unfolding confined_read_def confined_write_def Let_def by (intro moves_rules)+

lemma line_moves: "pair_moves D (placed base) (tame True base transfer_command) (run_repl_line D fb line)"
proof (cases "split_whitespace line")
  case Nil
  then show ?thesis by (simp add: run_repl_line_def moves_rules)
next
  case (Cons w ws)
  show ?thesis
    unfolding run_repl_line_def Cons list.case stay_def repl_read_def repl_write_def repl_fill_def repl_peek_def
      repl_poke_def repl_help_def fill_def peek_def poke_def write_blocks_def print_blocks_def print_read_def Let_def
    by (intro moves_rules)
qed

lemma loop_moves: "pair_moves D (placed base) (tame True base transfer_command) (repl_loop D fb inputs)"
proof (induction inputs)
  case (Cons i inputs)
  show ?case
  proof (cases i)
    case (Line line)
    let ?f = "\<lambda>r. case r of Ok True \<Rightarrow> repl_loop D fb inputs | Ok False \<Rightarrow> ret ()
        | Err e \<Rightarrow> andthen (on_snd (emit (Report e))) (\<lambda>_. repl_loop D fb inputs) | Panic q \<Rightarrow> crash q"
    have eq: "trim line \<noteq> [] \<Longrightarrow> repl_loop D fb (i # inputs) =
        (\<lambda>s. ?f (fst (run_repl_line D fb (trim line) s)) (snd (run_repl_line D fb (trim line) s)))"
      by (auto simp: Line fun_eq_iff run_simps split: prod.split outcome.split bool.split)
    have "pair_moves D (placed base) (tame True base transfer_command) (?f r)" for r
      by (auto split: outcome.split bool.split intro!: Cons moves_rules)
    then show ?thesis
      using eq moves_then [where f = ?f, OF line_moves] Cons by (cases "trim line = []") (simp_all add: Line)
  qed (simp_all add: Cons moves_rules)
qed (simp add: moves_rules)

lemma session_moves: "pair_moves D (placed base) (tame True base transfer_command) (repl_session D fb editor)"
  unfolding repl_session_def by (intro moves_rules loop_moves)

section \<open>The session names only blocks of the file\<close>

lemma session_repl:
  assumes "matching dr fb" and "\<forall>inputs. editor = Some inputs \<longrightarrow> list_all short_input inputs"
  shows "safe_repl dr fb (repl_session D fb editor) (\<lambda>_. True)"
proof -
  have say: "safe_repl dr fb (say t) (\<lambda>_. True)" for t :: rtext
    unfolding say_def println_def
    by (auto simp: safe_def run_simps run_access session_event_def names_only_def split: prod.split)
  show ?thesis
    unfolding repl_session_def
    by (rule safe_andthen [OF say]) (use assms repl_loop_repl in \<open>auto intro!: safe_case_option safe_pure\<close>)
qed

lemma tame_named:
  assumes "tame True base transfer_command e" and "names_only S e"
  shows "harmless base S e"
  using assms by (auto simp: tame_def names_only_def io_harmless_def io_blocks_def split: event.splits)

lemma session_harmless:
  assumes "driver_ok dr" and "matching dr fb" and "physical_address (drv_dma dr) = base"
    and "\<forall>inputs. editor = Some inputs \<longrightarrow> list_all short_input inputs"
    and run: "repl_session D fb editor (dr, w) = (r, (dr', w'))"
  shows "\<exists>es. machine_run D w es w' \<and> list_all (harmless base (owned fb)) es"
proof -
  have "placed base dr" using assms(1,3) by (simp add: placed_def driver_ok_def)
  then obtain es where es: "machine_run D w es w'" "list_all (tame True base transfer_command) es"
    using movesD(2) [OF session_moves, of base "(dr, w)" D fb editor] run by auto
  have at: "repl_at dr (fst (dr, w))" using driver_at_self [OF assms(1)] by (simp add: repl_at_def)
  obtain fs where fs: "log w' = log w @ fs" "list_all (session_event (doorbell_stride dr) (owned fb)) fs"
    using safeD(2) [OF session_repl [where D = D, OF assms(2,4)], of "(dr, w)", OF at] run by auto
  have "fs = es" using machine_run_log [OF es(1)] fs(1) by simp
  then have "list_all (harmless base (owned fb)) es"
    using es(2) fs(2) tame_named by (auto simp: list_all_iff session_event_def)
  with es(1) show ?thesis by blast
qed

section \<open>The whole run\<close>

text \<open>
  A machine before the program starts: the hugepage is zero, as the kernel maps it, and the
  controller has been told nothing.
\<close>

definition untold :: "knowledge" where
  "untold = \<lparr>known_asq = {}, known_sizes = {}, known_rings = {}, known_blocks = {}\<rparr>"

lemma zero_rings: "rings_harmless base S (\<lambda>_. 0)"
proof -
  have "sqe_opc (sqe_of_bytes (load (\<lambda>_. 0) off 64)) = 0" for off
    by (simp add: sqe_of_bytes_def load_def upt_conv_Cons)
  then show ?thesis
    by (simp add: rings_harmless_def admin_harmless_def io_harmless_def admin_blocks_def admin_rings_def io_blocks_def)
qed

lemma harmless_mono:
  assumes "tame True base A e" and "\<And>c. A c \<Longrightarrow> A' c"
  shows "tame True base A' e"
  using assms by (auto simp: tame_def split: event.splits)

text \<open>Any part of the program that moves the machine harmlessly keeps it contained.\<close>

definition unharmed :: "u64 \<Rightarrow> u64 set \<Rightarrow> ('d \<Rightarrow> u64 \<Rightarrow> 'b) \<Rightarrow> ('d \<Rightarrow> knowledge) \<Rightarrow> 'd world \<Rightarrow> 'd world \<Rightarrow> bool" where
  "unharmed base S content told w w' \<longleftrightarrow>
     contained base S told w' \<and> (\<forall>b. b \<notin> S \<longrightarrow> content (dev w') b = content (dev w) b)"

lemma run_unharmed:
  assumes ctl: "obedient D (region_base (host_mem h)) content told"
    and w: "dma w = (\<lambda>_. 0)" "no_more_than (told (dev w)) untold"
    and fb: "\<And>fb. load_blocks files (arguments ! 2) = Ok fb \<Longrightarrow> owned fb \<subseteq> S"
    and short: "\<forall>inputs. editor = Some inputs \<longrightarrow> list_all short_input inputs"
    and opened: "\<And>fb nsid dr s. load_blocks files (arguments ! 2) = Ok fb \<Longrightarrow>
      (if 3 < length arguments then parse_u32 (arguments ! 3) else Ok 1) = Ok nsid \<Longrightarrow>
      driver_open D h (arguments ! 1) nsid (cs, w) = (Ok dr, s) \<Longrightarrow> matching dr fb \<and>
      4096 + 3 * unat (doorbell_stride dr) + 4 \<le> unat (bar_length (drv_bar dr))"
    and run: "repl_run D h files arguments editor (cs, w) = (r, (cs', w'))"
  shows "unharmed (region_base (host_mem h)) S content told w w'"
proof -
  let ?b = "region_base (host_mem h)"
  have "knows_only ?b S untold" by (simp add: knows_only_def untold_def)
  then have c: "contained ?b S told w"
    using zero_rings no_more_knows [OF w(2)] by (simp add: contained_def w(1))
  then have start: "unharmed ?b S content told w w" by (simp add: unharmed_def)
  consider (early) "w' = w"
    | (attempt) bdf fb nsid r0 cs0 w0 where "bdf = arguments ! 1" "load_blocks files (arguments ! 2) = Ok fb"
        "(if 3 < length arguments then parse_u32 (arguments ! 3) else Ok 1) = Ok nsid"
        "driver_open D h bdf nsid (cs, w) = (r0, (cs0, w0))"
        "case r0 of Ok dr \<Rightarrow> w' = snd (snd (repl_session D fb editor (dr, w0))) | _ \<Rightarrow> w' = w0"
    using run unfolding repl_run_def
    by (auto simp: run_andthen run_of_outcome arg_def open_failed_def split: outcome.splits prod.splits if_splits)
  then show ?thesis
  proof cases
    case attempt
    obtain es where es: "machine_run D w es w0" "list_all (tame True ?b (\<lambda>_. False)) es"
      using movesD(2) [OF driver_open_moves [where A = "\<lambda>_. False" and D = D and h = h and bdf = bdf and nsid = nsid], where s = "(cs, w)"] attempt(4) by auto
    have "list_all (harmless ?b S) es"
      using es(2) harmless_mono by (auto simp: list_all_iff)
    note first = harmless_run [OF es(1) ctl this c]
    show ?thesis
    proof (cases r0)
      case (Ok dr)
      have hw: "matching dr fb" "4096 + 3 * unat (doorbell_stride dr) + 4 \<le> unat (bar_length (drv_bar dr))"
        using opened [OF attempt(2,3)] attempt(1,4) Ok by blast+
      have o: "driver_open D h bdf nsid (cs, w) = (Ok dr, (cs0, w0))" using attempt(4) Ok by simp
      have ok: "driver_ok dr" using open_establishes_the_invariant [OF o hw(2)] by blast
      obtain r1 dr1 w1 where "repl_session D fb editor (dr, w0) = (r1, (dr1, w1))" by (metis prod.exhaust)
      with attempt(5) Ok have go: "repl_session D fb editor (dr, w0) = (r1, (dr1, w'))" by simp
      obtain fs where fs: "machine_run D w0 fs w'" "list_all (harmless ?b (owned fb)) fs"
        using session_harmless [OF ok hw(1) open_base [OF o] short go] by blast
      have larger: "io_harmless (owned fb) c \<Longrightarrow> io_harmless S c" for c
        using fb [OF attempt(2)] by (auto simp: io_harmless_def)
      have "list_all (harmless ?b S) fs"
        using fs(2) by (rule list.pred_mono_strong) (erule harmless_mono, rule larger)
      from harmless_run [OF fs(1) ctl this] first show ?thesis by (simp add: unharmed_def)
    qed (use attempt(5) first in \<open>simp_all add: unharmed_def\<close>)
  qed (simp add: start)
qed


end
