(* ===== verification/Program_Refinement.thy ===== *)
theory Program_Refinement
  imports Repl_Refinement Open_Succeeds Whole_Run
begin

text \<open>
  The whole program on a controller that follows the specification is the abstract program on the
  controller's disk.
\<close>

unbundle bit_operations_syntax

text \<open>\<open>open\<close> says nothing to the user.\<close>

lemma open_is_silent:
  assumes "driver_open D h bdf nsid (cs, w) = (r, (cs', w'))"
  shows "\<exists>es. log w' = log w @ es \<and> replies es = []"
proof -
  let ?quiet = "tame False (region_base (host_mem h)) (\<lambda>_. True)"
  obtain es where es: "machine_run D w es w'" "list_all ?quiet es"
    using movesD(2) [OF driver_open_moves [where D = D and h = h and bdf = bdf and nsid = nsid and aloud = False and
        A = "\<lambda>_. True"], where s = "(cs, w)"] assms by auto
  have "replies es = []"
    by (rule replies_silent) (use es(2) in \<open>auto elim!: list.pred_mono_strong simp: tame_def split: event.splits\<close>)
  with machine_run_log [OF es(1)] show ?thesis by blast
qed

text \<open>The greeting and the session.\<close>

lemma repl_session_on_disk:
  assumes "connected D ns latency idc idn idle abusy busy K (dr, w)" and "device_lba_size fb = of_nat (ns_block_size ns)"
    and "list_all short_input inputs"
    and "abstract_session idc ns fb inputs K = (rs, ok, K')"
    and run: "repl_session D fb (Some inputs) (dr, w) = (r, (dr', w'))"
  shows "connected D ns latency idc idn idle abusy busy K' (dr', w') \<and> yields r (if ok then Some () else None) \<and>
    (\<exists>es. log w' = log w @ es \<and> replies es = Says (greeting fb) # rs)"
proof -
  let ?w = "w\<lparr>log := log w @ [Print (greeting fb)]\<rparr>"
  have con: "connected D ns latency idc idn idle abusy busy K (dr, ?w)" using assms(1) by simp
  have loop: "repl_loop D fb inputs (dr, ?w) = (r, (dr', w'))"
    using run by (simp add: repl_session_def run_andthen say_def println_def run_on_snd run_access greeting_def)
  obtain es where es: "connected D ns latency idc idn idle abusy busy K' (dr', w')"
    "yields r (if ok then Some () else None)" "log w' = log ?w @ es" "replies es = rs"
    using session_on_disk [OF con assms(2-4) loop] by blast
  then show ?thesis by (intro conjI exI [of _ "Print (greeting fb) # es"]) simp_all
qed

lemma session_error: "fst (repl_session D fb editor s) = Err e \<Longrightarrow> e = ReadlineFailed"
  by (cases s) (auto simp: repl_session_def run_simps run_access say_def println_def split: option.splits
      dest: repl_loop_error)

lemma program_on_disk:
  assumes ctl: "conforming D ns (physical_address region) cap rounds latency booting idc idn idle abusy busy K"
    and host: "host_ready h bdf bar region" "4096 + 3 * unat (cap_stride cap) + 4 \<le> unat (bar_length bar)"
    and w: "booting Found (dev w)" "dma w = (\<lambda>_. 0)"
    and given: "arg arguments 1 ''bdf'' = Ok bdf" "obind (arg arguments 2 ''map-file'') (load_blocks files) = Ok fb"
      "(if 3 < length arguments then parse_u32 (arguments ! 3) else Ok 1) = Ok (ns_id ns)"
    and fb: "device_lba_size fb = of_nat (ns_block_size ns)"
    and inputs: "list_all short_input inputs"
    and spec: "abstract_program idc ns fb inputs K = (rs, code', K')"
    and run: "repl_main D h files arguments (Some inputs) ([], w) = (code, (cs, w'))"
  shows "code = code' \<and> (\<exists>es. log w' = log w @ es \<and> replies es = rs) \<and>
    (\<exists>m n. idle m n (queues_made K') (dev w') (dma w')) \<and> live cs = []"
proof -
  obtain dr cs0 w0 where o: "driver_open D h bdf (ns_id ns) ([], w) = (Ok dr, (cs0, w0))"
    and att: "connected D ns latency idc idn idle abusy busy K (dr, w0)"
    by (rule open_attaches [OF ctl host w])
  obtain es0 where es0: "log w0 = log w @ es0" "replies es0 = []" using open_is_silent [OF o] by blast
  obtain rs' ok where abs: "abstract_session idc ns fb inputs K = (rs', ok, K')"
    and rs: "rs = Says (greeting fb) # rs' @ (if ok then [] else [Complains])" and code': "code' = (if ok then 0 else 1)"
    using spec by (auto simp: abstract_program_def split: prod.splits)
  obtain r dr' w1 where ses: "repl_session D fb (Some inputs) (dr, w0) = (r, (dr', w1))" by (metis prod.exhaust)
  have r: "yields r (if ok then Some () else None)" and att': "connected D ns latency idc idn idle abusy busy K' (dr', w1)"
    using repl_session_on_disk [OF att fb inputs abs ses] by blast+
  obtain es where es: "log w1 = log w0 @ es" "replies es = Says (greeting fb) # rs'"
    using repl_session_on_disk [OF att fb inputs abs ses] by blast
  have go: "repl_run D h files arguments (Some inputs) ([], w) = (r, (snd (drop_driver dr' cs0), w1))"
    using given o ses by (simp add: repl_run_def run_andthen run_of_outcome open_failed_def)
  have failed: "e = ReadlineFailed" if "r = Err e" for e
    using session_error [of D fb "Some inputs" "(dr, w0)"] ses that by simp
  have "r \<noteq> Panic q" for q using r by (auto simp: yields_def split: if_splits)
  then have "live (snd (drop_driver dr' cs0)) = []"
    using mappedD [OF mapped_run [of D h files arguments "Some inputs"], of "([], w)"] go
    by (cases r) (auto simp: run_error_def dest: failed)
  moreover have "\<exists>m n. idle m n (queues_made K') (dev w1) (dma w1)" using connectedD(2) [OF att'] by simp
  moreover have "code = code' \<and> cs = snd (drop_driver dr' cs0) \<and>
      w' = (if ok then w1 else w1\<lparr>log := log w1 @ [Report ReadlineFailed]\<rparr>)"
    using run go r code' by (cases ok) (auto simp: repl_main_def yields_def dest: failed)
  moreover have "\<exists>fs. log (if ok then w1 else w1\<lparr>log := log w1 @ [Report ReadlineFailed]\<rparr>) = log w @ fs \<and> replies fs = rs"
    using es es0 rs by (cases ok) (auto intro: exI [of _ "es0 @ es"] exI [of _ "es0 @ es @ [Report ReadlineFailed]"])
  ultimately show ?thesis by (auto split: if_splits)
qed

text \<open>
  C1: The program does what its specification says. Take a controller that follows the NVMe
  specification with a disk \<open>K\<close>, a host on which the device can be opened, zeroed memory, and
  arguments with a block map whose block size is the namespace's. Then for every sequence of inputs
  the run from the arguments to the exit code shows the user exactly the lines
  and complaints of the abstract program (parse, check against the file and the namespace, carry
  out on the disk, or report on the controller), ends with its exit code, leaves the controller with its disk, and leaves
  nothing mapped.
\<close>

theorem program_implements_its_specification:
  assumes "conforming D ns (physical_address region) cap rounds latency booting idc idn idle abusy busy K"
    and "host_ready h bdf bar region" and "4096 + 3 * unat (cap_stride cap) + 4 \<le> unat (bar_length bar)"
    and "booting Found (dev w)" and "dma w = (\<lambda>_. 0)"
    and "arg arguments 1 ''bdf'' = Ok bdf" and "obind (arg arguments 2 ''map-file'') (load_blocks files) = Ok fb"
    and "(if 3 < length arguments then parse_u32 (arguments ! 3) else Ok 1) = Ok (ns_id ns)"
    and "device_lba_size fb = of_nat (ns_block_size ns)"
    and "list_all short_input inputs"
    and "abstract_program idc ns fb inputs K = (rs, code', K')"
    and "repl_main D h files arguments (Some inputs) ([], w) = (code, (cs, w'))"
  shows "code = code' \<and> (\<exists>es. log w' = log w @ es \<and> replies es = rs) \<and>
    (\<exists>m n. idle m n (queues_made K') (dev w') (dma w')) \<and> live cs = []"
  by (rule program_on_disk [OF assms])

end
