(* ===== verification/Program_Examples.thy ===== *)
theory Program_Examples
  imports Model_Controller Device_Refinement Program_Refinement
begin

text \<open>
  A run of the whole program on the concrete controller: instances of the theorems about \<open>open\<close> and
  the program.
\<close>

unbundle bit_operations_syntax

section \<open>The controller, the host and the arguments\<close>

definition example_identify :: "u8 list" where
  "example_identify = (replicate 4096 0)[512 := 0x66, 513 := 0x44]"

definition example_identify_namespace :: "u32 \<Rightarrow> u8 list option" where
  "example_identify_namespace n = (if n = 1 then Some ((replicate 4096 0)[130 := 9]) else None)"

lemma example_block_size: "block_size_of ((replicate 4096 0)[130 := 9]) = 512"
proof -
  have "map_of (layout_from 0 identify_namespace) ''flbas'' = Some (26, 1)"
      "map_of (layout_from 0 identify_namespace) ''lba_formats'' = Some (128, 256)"
    "map_of (layout_from 0 lba_format) ''lbads'' = Some (2, 1)"
    by (simp_all add: identify_namespace_def lba_format_layout round_up_def)
  then show ?thesis
    by (simp only: block_size_of_def lba_format_lbads_def field_le_def field_bytes_def option.case prod.case)
      (simp add: byte_at shl_masked_def)
qed

lemma example_suitable: "suitable example_namespace example_identify example_identify_namespace"
proof -
  have e: "length example_identify = 4096" "example_identify ! 512 = 0x66" "example_identify ! 513 = 0x44"
    by (simp_all add: example_identify_def)
  have s: "field_le identify_controller ''sqes'' example_identify = (0x66 :: u8)"
      "field_le identify_controller ''cqes'' example_identify = (0x44 :: u8)"
    by (simp_all only: field_le_def field_bytes_def entry_size_fields option.case prod.case)
      (simp_all add: e byte_at)
  show ?thesis
    by (simp add: suitable_def s e entry_size_accepted_def example_namespace_def example_identify_namespace_def
        example_block_size)
qed

definition example_bar_mapping :: nvme_bar where
  "example_bar_mapping = \<lparr>bar_address = 0x100000, bar_length = 0x2000\<rparr>"

definition example_hugepage :: dma_region where
  "example_hugepage = \<lparr>virtual_address = 0x200000, dma_length = HUGE_PAGE_SIZE,
     physical_address = region_base (host_mem example_host)\<rparr>"

lemma example_host_ready: "host_ready example_host bdf example_bar_mapping example_hugepage"
proof -
  let ?os = "host_mem example_host"
  have entry: "(of_le (le_bytes 8 (0x8000000000012345 :: u64)) :: u64) = 0x8000000000012345"
    by (rule of_le_le_bytes) simp
  have "\<exists>pa. virtual_to_physical ?os 0x200000 = Ok pa"
    by (simp add: virtual_to_physical_def example_host_def entry)
  then obtain pa where pa: "virtual_to_physical ?os 0x200000 = Ok pa" by blast
  have os: "os_mmap ?os n = Inr 0x200000" "os_mlock ?os a n = None" for a n
    by (simp_all add: example_host_def)
  have "fst (alloc_huge ?os cs) = Ok example_hugepage" for cs
    by (simp add: alloc_huge_def os pa run_simps os_did_def example_hugepage_def region_base_def)
  moreover have "fst (bar_map (host_bar example_host) bdf 0 cs) = Ok example_bar_mapping" for cs
    by (simp add: bar_map_def example_host_def run_simps os_did_def example_bar_mapping_def)
  moreover have "refuse_if_kernel_driver_bound example_host bdf = Ok ()"
    by (simp add: refuse_if_kernel_driver_bound_def example_host_def)
  moreover have "host_read_command example_host bdf = Inr [0, 0]" "host_write_command example_host bdf bs = None" for bs
    by (simp_all add: example_host_def)
  ultimately show ?thesis by (simp add: host_ready_def)
qed

abbreviation example_base :: u64 where
  "example_base \<equiv> region_base (host_mem example_host)"

definition example_controller :: "nvme_state device" where
  "example_controller = model_controller example_namespace example_base example_identify example_identify_namespace"

lemma example_conforms:
  "conforming example_controller example_namespace (physical_address example_hugepage) 0 0 0
     (model_booting example_base K) example_identify example_identify_namespace (model_idle example_base)
     (model_abusy example_base) (model_busy example_namespace example_base) K"
proof -
  have "physical_address example_hugepage = example_base" by (simp add: example_hugepage_def)
  moreover have "32 \<le> ns_block_size example_namespace" "ns_block_size example_namespace \<le> 2 ^ 32"
    by (simp_all add: example_namespace_def)
  ultimately show ?thesis
    unfolding example_controller_def using model_conforms [OF example_suitable] by metis
qed

lemma example_obedient:
  "obedient example_controller example_base (model_content example_namespace) (model_told example_base)"
  unfolding example_controller_def
  by (rule model_obedient) (simp_all add: example_identify_def example_identify_namespace_def)

text \<open>A machine that was just powered on, with the disk \<open>K\<close>.\<close>

abbreviation example_start :: "disk \<Rightarrow> nvme_state world" where
  "example_start K \<equiv> empty_world (reset_state K)"

lemma example_start_fields:
  "model_booting base K Found (dev (example_start K))" "dma (example_start K) = (\<lambda>_. 0)" "log (example_start K) = []"
  "no_more_than (model_told base (dev (example_start K))) untold"
  by (simp_all add: empty_world_def no_more_than_def model_told_def untold_def reset_state_def)

lemma example_bar_reaches: "4096 + 3 * unat (cap_stride 0) + 4 \<le> unat (bar_length example_bar_mapping)"
  by (simp add: cap_stride_0 example_bar_mapping_def)

lemma example_ns: "ns_id example_namespace = 1" "ns_block_size example_namespace = 512"
  by (simp_all add: example_namespace_def)

abbreviation example_connected :: "disk \<Rightarrow> nvme_state machine \<Rightarrow> bool" where
  "example_connected \<equiv> connected example_controller example_namespace 0 example_identify example_identify_namespace
     (model_idle example_base) (model_abusy example_base) (model_busy example_namespace example_base)"

lemma example_open:
  obtains dr cs' w' where "driver_open example_controller example_host bdf 1 (cs, example_start K) = (Ok dr, (cs', w'))"
    "example_connected K (dr, w')"
    "drv_bar dr = example_bar_mapping" "doorbell_stride dr = cap_stride 0"
  by (rule open_attaches [OF example_conforms example_host_ready example_bar_reaches example_start_fields(1,2),
      unfolded example_ns(1)])

definition example_arguments :: "rtext list" where
  "example_arguments = [txt_of ''nvmetoy-repl'', txt_of ''0000:01:00.0'', txt_of ''map'']"

definition example_files :: "rtext \<Rightarrow> rtext outcome list outcome" where
  "example_files path = Ok (map Ok (block_map_lines example_map))"

lemma example_arguments_given:
  "arg example_arguments 1 ''bdf'' = Ok (txt_of ''0000:01:00.0'')"
  "obind (arg example_arguments 2 ''map-file'') (load_blocks example_files) = Ok example_map"
  "(if 3 < length example_arguments then parse_u32 (example_arguments ! 3) else Ok 1) = Ok 1"
  "load_blocks example_files path = Ok example_map" "example_arguments ! 1 = txt_of ''0000:01:00.0''"
  by (simp_all add: example_arguments_def example_files_def arg_def load_blocks_def parse_block_map_lines)

section \<open>Runs\<close>

theorem open_attaches_to_the_disk_witness:
  "\<exists>dr cs w. driver_open example_controller example_host (txt_of ''0000:01:00.0'') 1 ([], example_start (\<lambda>_. 7)) =
       (Ok dr, (cs, w)) \<and>
     example_connected
       (\<lambda>_. 7) (dr, w)"
  using open_attaches_to_the_disk [OF example_conforms example_host_ready example_bar_reaches example_start_fields(1,2),
      where bdf = "txt_of ''0000:01:00.0''" and cs = "[]", unfolded example_ns(1)]
  by blast

text \<open>
  A write, a refused one, the controller, the block sizes of a namespace that exists and of one that does not,
  the written block read back, and a read past the end.
\<close>

theorem driver_implements_its_device_witness:
  "\<exists>dr cs w. driver_open example_controller example_host (txt_of ''0000:01:00.0'') 1 ([], example_start (\<lambda>_. 0)) =
       (Ok dr, (cs, w)) \<and>
     fst (driver_session example_controller
       [Transfer (WriteBlocks 3 (replicate 512 65)), Transfer (WriteBlocks 3 [66]), AskController, AskBlockSize 1,
        AskBlockSize 7, Transfer (ReadBlocks 3 1), Transfer (ReadBlocks 99 2)] (dr, w)) =
       [Some (Bytes []), None, Some (Structure example_identify), Some (BlockSize 512), None,
        Some (Bytes (replicate 512 65)), None]"
proof -
  let ?qs = "[Transfer (WriteBlocks 3 (replicate 512 65)), Transfer (WriteBlocks 3 [66]), AskController, AskBlockSize 1,
    AskBlockSize 7, Transfer (ReadBlocks 3 1), Transfer (ReadBlocks 99 2)]"
  obtain dr cs w where o: "driver_open example_controller example_host (txt_of ''0000:01:00.0'') 1
      ([], example_start (\<lambda>_. 0)) = (Ok dr, (cs, w))" "example_connected (\<lambda>_. 0) (dr, w)" by (rule example_open)
  have "list_all sized_request ?qs" by (simp add: sized_request_def sized_def)
  moreover have "load (store (\<lambda>_. 0) 1536 (replicate 512 65)) 1536 512 = replicate 512 (65 :: u8)"
    using load_store_same [of "\<lambda>_. 0" 1536 "replicate 512 (65 :: u8)"] by simp
  then have "fst (device_session example_identify example_identify_namespace example_namespace ?qs (\<lambda>_. 0)) =
      [Some (Bytes []), None, Some (Structure example_identify), Some (BlockSize 512), None,
       Some (Bytes (replicate 512 65)), None]"
    by (simp add: example_namespace_def in_capacity_def disk_pos_def example_identify_namespace_def example_block_size)
  ultimately show ?thesis
    using driver_implements_its_device [OF o(2), of ?qs] o(1) by simp
qed


section \<open>A session\<close>

text \<open>A text is written to block 8, the controller is shown, the text is read back, and refused for block 9.\<close>

abbreviation example_session :: "input list" where
  "example_session \<equiv> [Line (txt_of ''write 8 hi''), Line (txt_of ''identify''), Line (txt_of ''peek 8 0 2''),
     Line (txt_of ''write 9 no''), Eof]"

abbreviation example_replies :: "reply list" where
  "example_replies \<equiv> [Says (greeting example_map),
     Says (txt_of ''wrote 2 bytes into 1 block at device-lba 8 (block tail zeroed)'')] @
     map Says (controller_report example_identify) @
     [Says (txt_of ''peek 2 bytes at device-lba 8 offset 0: hi''), Complains]"

lemma example_words:
  "split_whitespace (txt_of ''write 8 hi'') = [txt_of ''write'', txt_of ''8'', txt_of ''hi'']"
  "split_whitespace (txt_of ''identify'') = [txt_of ''identify'']"
  "split_whitespace (txt_of ''peek 8 0 2'') = [txt_of ''peek'', txt_of ''8'', txt_of ''0'', txt_of ''2'']"
  "split_whitespace (txt_of ''write 9 no'') = [txt_of ''write'', txt_of ''9'', txt_of ''no'']"
proof -
  have words: "list_all word_text [txt_of ''write'', txt_of ''8'', txt_of ''hi'']"
    "list_all word_text [txt_of ''identify'']"
    "list_all word_text [txt_of ''peek'', txt_of ''8'', txt_of ''0'', txt_of ''2'']"
    "list_all word_text [txt_of ''write'', txt_of ''9'', txt_of ''no'']"
    by (simp_all add: word_text_def is_whitespace_def)
  show "split_whitespace (txt_of ''write 8 hi'') = [txt_of ''write'', txt_of ''8'', txt_of ''hi'']"
    "split_whitespace (txt_of ''identify'') = [txt_of ''identify'']"
    "split_whitespace (txt_of ''peek 8 0 2'') = [txt_of ''peek'', txt_of ''8'', txt_of ''0'', txt_of ''2'']"
    "split_whitespace (txt_of ''write 9 no'') = [txt_of ''write'', txt_of ''9'', txt_of ''no'']"
    using words [THEN split_whitespace_join] by simp_all
qed

lemma example_trims:
  "trim (txt_of ''write 8 hi'') = txt_of ''write 8 hi''" "trim (txt_of ''peek 8 0 2'') = txt_of ''peek 8 0 2''"
  "trim (txt_of ''write 9 no'') = txt_of ''write 9 no''" "trim (txt_of ''identify'') = txt_of ''identify''"
  by (simp_all add: trim_def is_whitespace_def)

lemma example_number: "number (txt_of ''8'') = Some 8" "number (txt_of ''0'') = Some 0" "number (txt_of ''2'') = Some 2"
    "number (txt_of ''9'') = Some 9"
  by (simp_all add: number_def parse_uint_def is_digit_def digits_value_def)

lemma example_commands:
  "command_of (txt_of ''write 8 hi'') = Some (WriteAt 8 [104, 105])"
  "command_of (txt_of ''identify'') = Some ShowController"
  "command_of (txt_of ''peek 8 0 2'') = Some (PeekAt 8 0 2)"
  "command_of (txt_of ''write 9 no'') = Some (WriteAt 9 [110, 111])"
  unfolding command_of_def example_words
  using example_number by (simp_all add: words_bytes_def utf8_char_def)

lemma example_program:
  "abstract_program example_identify example_namespace example_map example_session (\<lambda>_. 0) =
     (example_replies, 0, store (\<lambda>_. 0) 4096 ([104, 105] @ replicate 510 0))"
proof -
  have decs: "dec 2 = [50]" "dec (Suc (Suc 0)) = [50]" "dec (Suc 0) = [49]" "dec 8 = [56]" "dec 0 = [48]" by (simp_all add: dec.simps)
  have pad: "pad_blocks 512 [104, 105] = [104, 105] @ replicate 510 0" "pad_blocks 512 [110, 111] = [110, 111] @ replicate 510 0"
    by (simp_all add: pad_blocks_def)
  have acc: "accessible example_namespace example_map 8 1" "\<not> accessible example_namespace example_map 9 1"
    by (simp_all add: accessible_def permitted_def transferable_def example_namespace_def example_map_def in_capacity_def
        covers_def)
  have "exec example_identify example_namespace example_map (WriteAt 8 [104, 105]) K =
      Some ([txt_of ''wrote 2 bytes into 1 block at device-lba 8 (block tail zeroed)''],
        store K 4096 ([104, 105] @ replicate 510 0))" for K
    using acc by (simp add: example_ns pad Let_def disk_pos_def decs udec_def blocks_word_def)
  moreover have "exec example_identify example_namespace example_map (PeekAt 8 0 2) (store K 4096 ([104, 105] @ replicate 510 0)) =
      Some ([txt_of ''peek 2 bytes at device-lba 8 offset 0: hi''], store K 4096 ([104, 105] @ replicate 510 0))" for K
  proof -
    have "load (store K 4096 ([104, 105] @ replicate 510 0)) 4096 2 = [104, 105]"
      by (rule nth_equalityI) (auto simp: store_def less_Suc_eq numeral_2_eq_2)
    then show ?thesis
      using acc by (simp add: example_ns disk_pos_def decs udec_def ascii_line_def ascii_char_def)
  qed
  moreover have "exec example_identify example_namespace example_map (WriteAt 9 [110, 111]) K = None" for K
    using acc by (simp add: example_ns pad Let_def)
  moreover have "exec example_identify example_namespace example_map ShowController K =
      Some (controller_report example_identify, K)" for K by simp
  ultimately show ?thesis
    by (simp add: abstract_program_def example_trims example_commands del: exec.simps list.map) simp
qed

theorem program_implements_its_specification_witness:
  "\<exists>cs w es. repl_main example_controller example_host example_files example_arguments (Some example_session)
       ([], example_start (\<lambda>_. 0)) = (0, (cs, w)) \<and> log w = es \<and>
     replies es = example_replies \<and>
     load (st_disk (dev w)) 4096 2 = [104, 105] \<and> live cs = []"
proof -
  obtain code cs w where run: "repl_main example_controller example_host example_files example_arguments
       (Some example_session) ([], example_start (\<lambda>_. 0)) = (code, (cs, w))" by (metis prod.exhaust)
  have short: "list_all short_input example_session"
    by (simp add: short_input_def short_line_def utf8_char_def)
  have bs: "device_lba_size example_map = of_nat (ns_block_size example_namespace)"
    by (simp add: example_map_def example_namespace_def)
  have nsid: "(if 3 < length example_arguments then parse_u32 (example_arguments ! 3) else Ok 1) =
      Ok (ns_id example_namespace)" by (simp add: example_arguments_given(3) example_ns)
  obtain es m n where r: "code = 0" "log w = es" "live cs = []"
    "replies es = example_replies"
    "model_idle example_base m n (queues_made (store (\<lambda>_. 0) 4096 ([104, 105] @ replicate 510 0))) (dev w) (dma w)"
    using program_implements_its_specification [OF example_conforms example_host_ready example_bar_reaches
        example_start_fields(1,2) example_arguments_given(1,2) nsid bs short example_program run]
    by (auto simp: example_start_fields(3))
  have "load (store (\<lambda>_. 0) 4096 ([104, 105] @ replicate 510 0)) 4096 2 = [104, 105 :: u8]"
    by (rule nth_equalityI) (auto simp: store_def less_Suc_eq numeral_2_eq_2)
  then have "load (st_disk (dev w)) 4096 2 = [104, 105]" using r(5) by (simp add: model_idle_def enabled_of_def queues_made_def)
  with run r show ?thesis by blast
qed

end
