(* ===== verification/Layout_Tests.thy ===== *)
theory Layout_Tests
  imports Nvme_Spec
begin

text \<open>
  The unit tests of \<open>src/nvme_spec.rs\<close>: each is the list of its assertions, an expression and the
  value it is compared with, and passes when all of them hold (\<open>assert_eq!\<close> panics otherwise).
\<close>

text \<open>\<open>offset_of!\<close>, which the compiler rejects for a field the struct does not have.\<close>

definition field_offset :: "(string \<times> ctype) list \<Rightarrow> string \<Rightarrow> nat" where
  "field_offset fs f = the (offset_of fs f)"

definition passes :: "(nat \<times> nat) list \<Rightarrow> bool" where
  "passes assertions \<longleftrightarrow> list_all (\<lambda>(actual, expected). actual = expected) assertions"

definition test_identify_controller_byte_layout :: "(nat \<times> nat) list" where
  "test_identify_controller_byte_layout =
     [(size_of (Struct identify_controller), 4096), (size_of (Struct power_state_descriptor), 32),
      (field_offset identify_controller ''vid'', 0),
      (field_offset identify_controller ''ssvid'', 2),
      (field_offset identify_controller ''sn'', 4), (field_offset identify_controller ''mn'', 24),
      (field_offset identify_controller ''fr'', 64),
      (field_offset identify_controller ''ieee'', 73),
      (field_offset identify_controller ''mdts'', 77),
      (field_offset identify_controller ''cntlid'', 78),
      (field_offset identify_controller ''ver'', 80),
      (field_offset identify_controller ''oaes'', 92),
      (field_offset identify_controller ''ctratt'', 96),
      (field_offset identify_controller ''rrls'', 100),
      (field_offset identify_controller ''nssl'', 104),
      (field_offset identify_controller ''fguid'', 112),
      (field_offset identify_controller ''crdt1'', 128),
      (field_offset identify_controller ''crcap'', 134),
      (field_offset identify_controller ''cirn'', 136),
      (field_offset identify_controller ''nvmsr'', 253),
      (field_offset identify_controller ''oacs'', 256),
      (field_offset identify_controller ''acl'', 258),
      (field_offset identify_controller ''aerl'', 259),
      (field_offset identify_controller ''frmw'', 260),
      (field_offset identify_controller ''lpa'', 261),
      (field_offset identify_controller ''npss'', 263),
      (field_offset identify_controller ''wctemp'', 266),
      (field_offset identify_controller ''hmpre'', 272),
      (field_offset identify_controller ''tnvmcap'', 280),
      (field_offset identify_controller ''sanicap'', 328),
      (field_offset identify_controller ''anagrpmax'', 344),
      (field_offset identify_controller ''did'', 356),
      (field_offset identify_controller ''megcap'', 368),
      (field_offset identify_controller ''sqes'', 512),
      (field_offset identify_controller ''cqes'', 513),
      (field_offset identify_controller ''maxcmd'', 514),
      (field_offset identify_controller ''nn'', 516),
      (field_offset identify_controller ''oncs'', 520),
      (field_offset identify_controller ''fna'', 524),
      (field_offset identify_controller ''vwc'', 525),
      (field_offset identify_controller ''sgls'', 536),
      (field_offset identify_controller ''mnan'', 540),
      (field_offset identify_controller ''mcdqpc'', 586),
      (field_offset identify_controller ''subnqn'', 768),
      (field_offset identify_controller ''ioccsz'', 1792),
      (field_offset identify_controller ''dctype'', 1806),
      (field_offset identify_controller ''psds'', 2048),
      (field_offset identify_controller ''vendor_specific'', 3072),
      (field_offset power_state_descriptor ''enlat'', 4),
      (field_offset power_state_descriptor ''exlat'', 8),
      (field_offset power_state_descriptor ''idlp'', 16),
      (field_offset power_state_descriptor ''actp'', 20)]"

definition test_submission_queue_entry_byte_layout :: "(nat \<times> nat) list" where
  "test_submission_queue_entry_byte_layout =
     [(size_of (Struct sqe_layout), 64), (align_of (Struct sqe_layout), 8),
      (field_offset sqe_layout ''opc'', 0), (field_offset sqe_layout ''flags'', 1),
      (field_offset sqe_layout ''cid'', 2), (field_offset sqe_layout ''nsid'', 4),
      (field_offset sqe_layout ''cdw2'', 8), (field_offset sqe_layout ''cdw3'', 12),
      (field_offset sqe_layout ''mptr'', 16), (field_offset sqe_layout ''prp1'', 24),
      (field_offset sqe_layout ''prp2'', 32), (field_offset sqe_layout ''cdw10'', 40),
      (field_offset sqe_layout ''cdw11'', 44), (field_offset sqe_layout ''cdw12'', 48),
      (field_offset sqe_layout ''cdw13'', 52), (field_offset sqe_layout ''cdw14'', 56),
      (field_offset sqe_layout ''cdw15'', 60)]"

definition test_completion_queue_entry_size_is_16 :: "(nat \<times> nat) list" where
  "test_completion_queue_entry_size_is_16 =
     [(size_of (Struct cqe_layout), 16)]"

definition test_identify_namespace_byte_layout :: "(nat \<times> nat) list" where
  "test_identify_namespace_byte_layout =
     [(size_of (Struct identify_namespace), 4096), (size_of (Struct lba_format), 4),
      (field_offset lba_format ''lbads'', 2), (field_offset identify_namespace ''nsze'', 0),
      (field_offset identify_namespace ''ncap'', 8),
      (field_offset identify_namespace ''nuse'', 16),
      (field_offset identify_namespace ''nsfeat'', 24),
      (field_offset identify_namespace ''flbas'', 26),
      (field_offset identify_namespace ''dlfeat'', 33),
      (field_offset identify_namespace ''nawun'', 34),
      (field_offset identify_namespace ''nvmcap'', 48),
      (field_offset identify_namespace ''npwg'', 64),
      (field_offset identify_namespace ''mcl'', 76),
      (field_offset identify_namespace ''msrc'', 80),
      (field_offset identify_namespace ''kpiodaag'', 84),
      (field_offset identify_namespace ''anagrpid'', 92),
      (field_offset identify_namespace ''nsattr'', 99),
      (field_offset identify_namespace ''nvmsetid'', 100),
      (field_offset identify_namespace ''endgid'', 102),
      (field_offset identify_namespace ''nguid'', 104),
      (field_offset identify_namespace ''eui64'', 120),
      (field_offset identify_namespace ''lba_formats'', 128),
      (field_offset identify_namespace ''vendor_specific'', 384)]"

section \<open>They pass\<close>

text \<open>Offsets in the order of the fields agree with a layout in one pass over its table.\<close>

fun agrees :: "(string \<times> nat) list \<Rightarrow> (string \<times> nat \<times> nat) list \<Rightarrow> bool" where
  "agrees [] table = True"
| "agrees (a # as) [] = False"
| "agrees ((f, off) # as) ((g, off', n) # table) =
     (if f = g then off = off' \<and> agrees as table else agrees ((f, off) # as) table)"

lemma agrees_mem: "agrees as table \<Longrightarrow> (f, off) \<in> set as \<Longrightarrow> \<exists>n. (f, off, n) \<in> set table"
  by (induction as table rule: agrees.induct) (auto split: if_splits)

lemma agrees_passes:
  assumes "agrees as (layout_from 0 fs)" and "distinct (map fst (layout_from 0 fs))"
  shows "passes (map (\<lambda>(f, off). (field_offset fs f, off)) as)"
  unfolding passes_def list_all_iff
proof
  fix x assume "x \<in> set (map (\<lambda>(f, off). (field_offset fs f, off)) as)"
  then obtain f off where x: "x = (field_offset fs f, off)" and "(f, off) \<in> set as" by auto
  from agrees_mem [OF assms(1) this(2)] obtain n where "(f, off, n) \<in> set (layout_from 0 fs)" by blast
  with assms(2) have "map_of (layout_from 0 fs) f = Some (off, n)" by (rule map_of_is_SomeI)
  then show "case x of (actual, expected) \<Rightarrow> actual = expected" by (simp add: x field_offset_def offset_of_def)
qed

lemma passes_simps [simp]: "passes []" "passes ((a, b) # as) \<longleftrightarrow> a = b \<and> passes as" "passes (as @ bs) \<longleftrightarrow> passes as \<and> passes bs"
  by (simp_all add: passes_def)

lemmas controller_table = identify_controller_byte_layout [THEN conjunct2, THEN conjunct2, THEN conjunct2]
lemmas namespace_table = identify_namespace_byte_layout [THEN conjunct2, THEN conjunct2, THEN conjunct2, THEN conjunct2]

lemma sqe_table: "layout_from 0 sqe_layout =
   [(''opc'', 0, 1), (''flags'', 1, 1), (''cid'', 2, 2), (''nsid'', 4, 4), (''cdw2'', 8, 4), (''cdw3'', 12, 4),
    (''mptr'', 16, 8), (''prp1'', 24, 8), (''prp2'', 32, 8), (''cdw10'', 40, 4), (''cdw11'', 44, 4),
    (''cdw12'', 48, 4), (''cdw13'', 52, 4), (''cdw14'', 56, 4), (''cdw15'', 60, 4)]"
  by (simp add: sqe_layout_def round_up_def)

lemma names_distinct:
  "distinct (map fst (layout_from 0 identify_controller))" "distinct (map fst (layout_from 0 identify_namespace))"
  "distinct (map fst (layout_from 0 sqe_layout))"
  unfolding controller_table namespace_table sqe_table by simp_all

lemma small_tables:
  "field_offset power_state_descriptor ''enlat'' = 4" "field_offset power_state_descriptor ''exlat'' = 8"
  "field_offset power_state_descriptor ''idlp'' = 16" "field_offset power_state_descriptor ''actp'' = 20"
  "field_offset lba_format ''lbads'' = 2"
  by (simp_all add: field_offset_def offset_of_def power_state_descriptor_def lba_format_def round_up_def)

lemma controller_test: "passes test_identify_controller_byte_layout"
proof -
  let ?as = "[(''vid'', 0), (''ssvid'', 2), (''sn'', 4), (''mn'', 24), (''fr'', 64), (''ieee'', 73),
      (''mdts'', 77), (''cntlid'', 78), (''ver'', 80), (''oaes'', 92), (''ctratt'', 96),
      (''rrls'', 100), (''nssl'', 104), (''fguid'', 112), (''crdt1'', 128), (''crcap'', 134),
      (''cirn'', 136), (''nvmsr'', 253), (''oacs'', 256), (''acl'', 258), (''aerl'', 259),
      (''frmw'', 260), (''lpa'', 261), (''npss'', 263), (''wctemp'', 266), (''hmpre'', 272),
      (''tnvmcap'', 280), (''sanicap'', 328), (''anagrpmax'', 344), (''did'', 356),
      (''megcap'', 368), (''sqes'', 512), (''cqes'', 513), (''maxcmd'', 514), (''nn'', 516),
      (''oncs'', 520), (''fna'', 524), (''vwc'', 525), (''sgls'', 536), (''mnan'', 540),
      (''mcdqpc'', 586), (''subnqn'', 768), (''ioccsz'', 1792), (''dctype'', 1806),
      (''psds'', 2048), (''vendor_specific'', 3072)]"
  have "agrees ?as (layout_from 0 identify_controller)" unfolding controller_table by simp
  note pass = agrees_passes [OF this names_distinct(1)]
  have eq: "test_identify_controller_byte_layout =
      [(size_of (Struct identify_controller), 4096), (size_of (Struct power_state_descriptor), 32)] @
      map (\<lambda>(f, off). (field_offset identify_controller f, off)) ?as @
      [(field_offset power_state_descriptor ''enlat'', 4), (field_offset power_state_descriptor ''exlat'', 8),
       (field_offset power_state_descriptor ''idlp'', 16), (field_offset power_state_descriptor ''actp'', 20)]"
    by (simp add: test_identify_controller_byte_layout_def)
  show ?thesis unfolding eq passes_simps small_tables append_Cons append_Nil identify_sizes
    using pass by (simp add: round_up_def del: list.map)
qed

lemma namespace_test: "passes test_identify_namespace_byte_layout"
proof -
  let ?as = "[(''nsze'', 0), (''ncap'', 8), (''nuse'', 16), (''nsfeat'', 24), (''flbas'', 26),
      (''dlfeat'', 33), (''nawun'', 34), (''nvmcap'', 48), (''npwg'', 64), (''mcl'', 76),
      (''msrc'', 80), (''kpiodaag'', 84), (''anagrpid'', 92), (''nsattr'', 99),
      (''nvmsetid'', 100), (''endgid'', 102), (''nguid'', 104), (''eui64'', 120),
      (''lba_formats'', 128), (''vendor_specific'', 384)]"
  have "agrees ?as (layout_from 0 identify_namespace)" unfolding namespace_table by simp
  note pass = agrees_passes [OF this names_distinct(2)]
  have eq: "test_identify_namespace_byte_layout =
      [(size_of (Struct identify_namespace), 4096), (size_of (Struct lba_format), 4),
       (field_offset lba_format ''lbads'', 2)] @
      map (\<lambda>(f, off). (field_offset identify_namespace f, off)) ?as"
    by (simp add: test_identify_namespace_byte_layout_def)
  show ?thesis unfolding eq passes_simps small_tables append_Cons append_Nil identify_sizes
    using pass by (simp add: round_up_def del: list.map)
qed

lemma sqe_sizes:
  "size_of (Struct sqe_layout) = 64" "align_of (Struct sqe_layout) = 8" "tiles 0 (layout_from 0 sqe_layout) 64"
  using sqe_wire_layout by blast+

lemma submission_test: "passes test_submission_queue_entry_byte_layout"
proof -
  let ?as = "[(''opc'', 0), (''flags'', 1), (''cid'', 2), (''nsid'', 4), (''cdw2'', 8), (''cdw3'', 12),
      (''mptr'', 16), (''prp1'', 24), (''prp2'', 32), (''cdw10'', 40), (''cdw11'', 44),
      (''cdw12'', 48), (''cdw13'', 52), (''cdw14'', 56), (''cdw15'', 60)]"
  have "agrees ?as (layout_from 0 sqe_layout)" unfolding sqe_table by simp
  note pass = agrees_passes [OF this names_distinct(3)]
  have eq: "test_submission_queue_entry_byte_layout =
      [(size_of (Struct sqe_layout), 64), (align_of (Struct sqe_layout), 8)] @
      map (\<lambda>(f, off). (field_offset sqe_layout f, off)) ?as"
    by (simp add: test_submission_queue_entry_byte_layout_def)
  show ?thesis unfolding eq passes_simps append_Cons append_Nil sqe_sizes using pass by (simp del: list.map)
qed


end
