(* ===== verification/Xnvmetoy.thy ===== *)
theory Xnvmetoy
  imports Rust_Text
begin

text \<open>
  \<open>src/bin/xnvmetoy.rs\<close>: the stub that prints the version of the xNVMe library. The three version
  numbers are C ints that the library returns; they are parameters. The result is the line that is
  printed and the exit code.
\<close>

definition signed_dec :: "u32 \<Rightarrow> rtext" where
  "signed_dec n = (if sint n < 0 then 45 # dec (nat (- sint n)) else dec (nat (sint n)))"

definition xnvmetoy_main :: "u32 \<Rightarrow> u32 \<Rightarrow> u32 \<Rightarrow> rtext \<times> nat" where
  "xnvmetoy_main major minor patch =
     (txt_of ''xnvmetoy against libxnvme '' @ signed_dec major @ txt_of ''.'' @ signed_dec minor @
      txt_of ''.'' @ signed_dec patch, 0)"

text \<open>The three numbers can be told apart in the line.\<close>

lemma dec_no_dot: "46 \<notin> set (dec n)"
  using dec_digits [of n] by (auto simp: list_all_iff is_digit_def)

lemma dec_inject [simp]: "dec m = dec n \<longleftrightarrow> m = n"
  using dec_digits by metis

lemma signed_dec_inject [simp]: "signed_dec m = signed_dec n \<longleftrightarrow> m = n"
proof -
  have "hd (dec k) \<noteq> 45" "dec k \<noteq> []" for k
    using dec_digits [of k] by (cases "dec k"; auto simp: is_digit_def)+
  then have "45 # t \<noteq> dec k" "dec k \<noteq> 45 # t" for t k by (metis list.sel(1))+
  moreover have "sint m = sint n \<longleftrightarrow> m = n" by (metis signed_word_eqI)
  ultimately show ?thesis by (auto simp: signed_dec_def eq_nat_nat_iff split: if_splits)
qed

lemma split_at_dot:
  assumes "46 \<notin> set as" "46 \<notin> set cs"
  shows "as @ 46 # bs = cs @ 46 # ds \<longleftrightarrow> as = cs \<and> bs = ds"
  using assms by (auto simp: append_eq_append_conv2 append_eq_Cons_conv Cons_eq_append_conv)

lemma version_line_inject:
  "xnvmetoy_main a b c = xnvmetoy_main a' b' c' \<longleftrightarrow> a = a' \<and> b = b' \<and> c = c'"
proof -
  have "46 \<notin> set (signed_dec n)" for n by (simp add: signed_dec_def dec_no_dot)
  then show ?thesis by (simp add: xnvmetoy_main_def split_at_dot)
qed

end
