(* ===== verification/Spec2Isabelle.thy ===== *)
theory Spec2Isabelle
  imports Program_Examples Device_Refinement Layout_Tests Xnvmetoy Controllers Driver_Examples Repl_Examples Disk_Examples
begin

text \<open>
  \<^bold>\<open>nvmetoy: a userspace NVMe driver and its confined REPL.\<close>

  \<^bold>\<open>The program.\<close> The crate maps the register BAR of an NVMe controller and one pinned 2 MiB
  hugepage, brings the controller up with one admin and one I/O queue pair inside that page, and
  reads and writes blocks through it. On top of it, a REPL gives access to the device blocks of a
  single file, listed in a block map. The parts call each other downwards:

  \<^item> \<open>src/bin/nvmetoy_repl.rs\<close> (block map and guard, commands, loop, completion) calls
  \<^item> \<open>src/nvmetoy.rs\<close> (\<open>NvmeUserspaceDriver\<close>: open, Identify, read, write), which uses
  \<^item> \<open>src/queue_pair.rs\<close> (submission and completion rings), \<open>src/nvme_command_builders.rs\<close>,
    \<open>src/nvme_bar.rs\<close> (registers and doorbells), \<open>src/dma_region.rs\<close> (the shared page),
  \<^item> and \<open>src/nvme_spec.rs\<close>, \<open>src/nvme_identify.rs\<close> (data structures, report).

  \<^bold>\<open>The model.\<close> Definitions keep the names of the functions and types they translate. A
  fallible function is a \<open>prog\<close>: a function from a state to an outcome (\<open>Ok\<close>, \<open>Err\<close> with a
  constructor per error of the source, \<open>Panic\<close> with its reason) and the state after it; \<open>andthen\<close>
  is the sequencing of \<open>?\<close>. Integers are words of their Rust width with the arithmetic of a
  release build (wrapping, masked shifts, no \<open>debug_assert!\<close>); \<open>checked_add\<close> and \<open>checked_mul\<close>
  are where the source has them. The machine (\<open>Machine\<close>) is the bytes of the hugepage, the state
  of the controller and a log of what the CPU does that others can see: stores, register writes,
  fences, prompts, sleeps, printed lines. The controller is a parameter: a record of functions
  that may change its own state and any byte of the page before every CPU access. Theorems that
  assume nothing of it hold for a broken or hostile controller.

  \<^bold>\<open>Theories.\<close>

  \<^item> \<open>Nvme_Prelude\<close>: outcomes, programs, byte encodings, memory; \<open>Rust_Layout\<close>: \<open>repr(C)\<close> layout
    and the interface \<open>byte_repr\<close> of the typed accessors; \<open>Rust_Text\<close>: the string library;
    \<open>Machine\<close>: accesses, and the calculus \<open>safe\<close> (no panic, an invariant kept, only allowed
    events) in which the safety theorems are proved along the structure of the programs.
  \<^item> \<open>Nvme_Spec\<close>, \<open>Dma_Region\<close>, \<open>Nvme_Bar\<close>, \<open>Command_Builders\<close>: the files of those names. Bounds
    and alignment checks are exact, queue entries survive the trip through memory, layouts have
    no padding, doorbells do not overlap, commands decode to what they were built from.
  \<^item> \<open>Queue_Pair\<close>: \<open>QueuePair\<close>. The polling loop is a bounded search; tail, head, phase and
    identifiers represent unbounded counts (interfaces \<open>modular_counter\<close>, \<open>tagged_counter\<close>); the
    order of events of a submission; every command of a session completes on a controller that
    completes commands in order; a timeout is never recovered from. \<open>Controllers\<close>: instances.
  \<^item> \<open>Driver\<close>: \<open>NvmeUserspaceDriver\<close>. \<open>Driver_Safety\<close>: the invariant \<open>driver_ok\<close>, no panic, the
    footprint of a transfer (interface \<open>command_channel\<close>). \<open>Driver_Transfers\<close>: what a Read and a
    Write announce, and that the PRP entries name the data area. \<open>Driver_Open\<close>: waiting,
    resetting, entry sizes, mappings. \<open>Driver_Lifecycle\<close>: the reachable states of a driver.
    \<open>Driver_Examples\<close>: a controller that boots, and instances.
  \<^item> \<open>Queue_Server\<close>: a queue pair on a controller that serves a set of commands, for any such set
    (interface \<open>served_commands\<close>). \<open>Storage\<close>: the abstract disk, and the contract of a controller
    that serves one. \<open>Disk_Refinement\<close>: on such a controller a Read or Write is that of the disk.
    \<open>Bring_Up\<close>: the enable handshake and the admin queue. \<open>Open_Succeeds\<close>: on a controller that
    follows the specification \<open>open\<close> succeeds and attaches to the disk. \<open>Connected\<close>: Reads, Writes,
    Identify and block sizes, in any order, keep both queues and the cache in step with it.
    \<open>Device_Refinement\<close>: the whole public interface of the driver, as an abstract device.
  \<^item> \<open>Block_Map\<close>: \<open>FileBlocks\<close>, its parser and its guard, which is exact. \<open>Identify\<close>: the report.
    \<open>Repl\<close>: commands, loop, \<open>run\<close>, \<open>main\<close>. \<open>Repl_Shell\<close>: the commands over the interface
    \<open>confined_shell\<close>, interpreted in \<open>Repl_Session\<close> (every controller: only blocks of the file
    are named). \<open>Repl_Commands\<close>, \<open>Repl_Display\<close>, \<open>Repl_Program\<close>, \<open>Disk_Commands\<close>: single
    commands, what is printed, what a run leaves mapped. \<open>Repl_History\<close>: the history file.
    \<open>Completion\<close>: the tab completer.
  \<^item> \<open>Repl_Spec\<close>: the program as it should be, an abstract REPL on a disk. \<open>Repl_Refinement\<close>: the
    REPL implements it (interface \<open>served_disk\<close>). \<open>Program_Refinement\<close>: so does the whole program,
    from its arguments to its exit code.
  \<^item> \<open>Machine_Runs\<close>: what a program does to the machine as a sequence of steps. \<open>Obedience\<close>: the
    weakest assumption on a controller, that it does only what it was told. \<open>Driver_Runs\<close>,
    \<open>Whole_Run\<close>: on such a controller a run of the program changes no block outside the file.
  \<^item> \<open>Model_Controller\<close>, \<open>Disk_Examples\<close>: concrete controllers that meet these contracts;
    \<open>Program_Examples\<close>, \<open>Repl_Examples\<close>: instances. \<open>Layout_Tests\<close>: the unit tests of
    \<open>nvme_spec.rs\<close>. \<open>Xnvmetoy\<close>: \<open>src/bin/xnvmetoy.rs\<close>.

  \<^bold>\<open>Bounds.\<close> No fuel is used. \<open>poll\<close> recurses on the spins left, as the source counts them: at
  most 200\,001 looks at the slot. \<open>wait_ready\<close> recurses on its 1000 polls. \<open>check_from\<close> moves up
  to the end of the range, \<open>chunks\<close> and the lexing functions down a list; each has a
  termination proof. The loop of the REPL recurses on the inputs that the editor yields. Theorems
  about the REPL ask that an input line has less than \<open>2 ^ 62\<close> bytes, and those about the
  commands a block size between 32 bytes and \<open>2 ^ 32\<close> (or at most the buffer); the BAR is asked
  to reach the doorbells of two queues, which \<open>bar_map\<close> itself does not check.

  \<^bold>\<open>Hypotheses about code outside the repository.\<close> The kernel's answers (\<open>mmap\<close>, \<open>mlock\<close>,
  pagemap, sysfs) and the results of the line editor are parameters that no theorem constrains.
  Theorems about results assume documented behaviour of the controller: it completes commands in
  order (\<open>in_order_controller\<close>), leaves the PRP page alone (\<open>leaves\<close>), carries out Read and Write
  commands on a disk (\<open>storage_controller\<close>), follows the specification from the enable handshake
  on (\<open>conforming\<close>), or does only what it was told (\<open>obedient\<close>); each is met by a concrete controller in
  \<open>Controllers\<close>, \<open>Disk_Examples\<close> and \<open>Model_Controller\<close>.

  \<^bold>\<open>Not modelled.\<close> The narration of \<open>chat!\<close> and the wording of error messages, which change no
  state; that a CPU access may be torn, and the order in which the CPU's own stores become visible
  beyond the logged fences; rustyline itself; the shell scripts. The contracts of the
  controller say what is in the data area when a command completes; a controller that goes on writing
  there after a timed-out Read is covered by the theorems that assume nothing or only obedience.
\<close>

end
